(* ===== verification/Prelude.thy ===== *)
theory Prelude
  imports Main "HOL-Library.Word"
begin

text \<open>
  What every component of the model shares: the machine types, the two kinds of failure of a
  C++ call, the state and exception monad in which the methods are written, the relations a
  method may be shown to respect, and the part of the C++ standard library the sources use
  (\<^verbatim>\<open>std::to_string\<close>, \<^verbatim>\<open>std::copy\<close> into a fixed-size array).

  A method that reads and writes shared state is a function from the state to a result and the
  state it leaves behind. The state is returned on the failing branch too, because a C++
  exception does not undo the assignments made before it was thrown.
\<close>

section \<open>Machine types\<close>

type_synonym byte = "8 word"
type_synonym bytes = "byte list"
type_synonym u64 = "64 word"

text \<open>The status codes of the SGX SDK, by what the sources tell apart.\<close>

datatype sgx_status = SGX_SUCCESS | SGX_ERROR_UNEXPECTED | SGX_OTHER nat

section \<open>Failures\<close>

text \<open>
  \<open>Raised what\<close> is a thrown \<^verbatim>\<open>std::exception\<close>; \<open>Undef what\<close> is a step with undefined behaviour
  (a read past the end of a buffer, a mutex locked twice by one thread, a null pointer). The
  handlers \<^verbatim>\<open>catch (const std::exception&)\<close> of the sources catch the first and never the second.
  \<open>LockedTwice l H\<close> is a thread that holds the mutexes \<open>H\<close> and locks \<open>l\<close>, one of them; the mutexes are
  those of the enclave, and the two kinds of queue have one each.
\<close>

datatype lock =
    MonitorMutex
  | EvMgrAddrMapMutex
  | PastEventStoreMutex
  | EventQueueMutex nat
  | ReceiptQueueMutex nat

datatype misuse = BadCall string | LockedTwice lock "lock set"

datatype fault = Raised string | Undef misuse

type_synonym 'a res = "fault + 'a"
type_synonym ('s, 'a) prog = "'s \<Rightarrow> 'a res \<times> 's"

text \<open>A call to a library the sources do not contain returns or throws; it is \<open>Inl what\<close> when it throws.
Undefined behaviour only comes from what the sources themselves do.\<close>

type_synonym 'a lib = "string + 'a"

definition of_lib :: "'a lib \<Rightarrow> 'a res" where
  "of_lib r = (case r of Inl m \<Rightarrow> Inl (Raised m) | Inr x \<Rightarrow> Inr x)"

lemma of_lib_simps [simp]:
  "of_lib (Inl m) = Inl (Raised m)"
  "of_lib (Inr x) = Inr x"
  by (simp_all add: of_lib_def)

lemma of_lib_iff [simp]:
  "of_lib r = Inr x \<longleftrightarrow> r = Inr x"
  "of_lib r = Inl (Raised m) \<longleftrightarrow> r = Inl m"
  "of_lib r \<noteq> Inl (Undef b)"
  by (simp_all add: of_lib_def split: sum.split)

lemma case_of_lib [simp]:
  "(case of_lib r of Inl e \<Rightarrow> f e | Inr x \<Rightarrow> g x) = (case r of Inl m \<Rightarrow> f (Raised m) | Inr x \<Rightarrow> g x)"
  by (cases r) simp_all

definition is_undef :: "'a res \<Rightarrow> bool" where
  "is_undef r \<longleftrightarrow> (case r of Inl (Undef _) \<Rightarrow> True | _ \<Rightarrow> False)"

lemma is_undef_simps [simp]:
  "is_undef (Inr x) = False"
  "is_undef (Inl (Raised m)) = False"
  "is_undef (Inl (Undef b)) = True"
  by (simp_all add: is_undef_def)

lemma is_undef_of_lib [simp]: "\<not> is_undef (of_lib r)"
  by (cases r) simp_all

lemma is_undef_Inl: "is_undef (Inl e) \<longleftrightarrow> (\<exists>m. e = Undef m)"
  by (cases e) simp_all

section \<open>The monad of methods\<close>

named_theorems prog_run
  \<open>how each combinator runs from a given state\<close>

definition ret :: "'a \<Rightarrow> ('s, 'a) prog" where
  "ret x = (\<lambda>s. (Inr x, s))"

definition raise :: "string \<Rightarrow> ('s, 'a) prog" where
  "raise m = (\<lambda>s. (Inl (Raised m), s))"

definition undef :: "string \<Rightarrow> ('s, 'a) prog" where
  "undef m = (\<lambda>s. (Inl (Undef (BadCall m)), s))"

definition lift_res :: "'a res \<Rightarrow> ('s, 'a) prog" where
  "lift_res r = (\<lambda>s. (r, s))"

definition lib :: "'a lib \<Rightarrow> ('s, 'a) prog" where
  "lib r = lift_res (of_lib r)"

definition bnd :: "('s, 'a) prog \<Rightarrow> ('a \<Rightarrow> ('s, 'b) prog) \<Rightarrow> ('s, 'b) prog" where
  "bnd m f = (\<lambda>s. case m s of (Inl e, t) \<Rightarrow> (Inl e, t) | (Inr x, t) \<Rightarrow> f x t)"

definition reads :: "('s \<Rightarrow> 'a) \<Rightarrow> ('s, 'a) prog" where
  "reads g = (\<lambda>s. (Inr (g s), s))"

definition updates :: "('s \<Rightarrow> 's) \<Rightarrow> ('s, unit) prog" where
  "updates g = (\<lambda>s. (Inr (), g s))"

text \<open>\<open>try_catch m h\<close> is \<^verbatim>\<open>try { m } catch (const std::exception& e) { h(e.what()) }\<close>.\<close>

definition try_catch :: "('s, 'a) prog \<Rightarrow> (string \<Rightarrow> ('s, 'a) prog) \<Rightarrow> ('s, 'a) prog" where
  "try_catch m h = (\<lambda>s. case m s of (Inl (Raised e), t) \<Rightarrow> h e t | r \<Rightarrow> r)"

fun for_each :: "'a list \<Rightarrow> ('a \<Rightarrow> ('s, unit) prog) \<Rightarrow> ('s, unit) prog" where
  "for_each [] f = ret ()"
| "for_each (x # xs) f = bnd (f x) (\<lambda>_. for_each xs f)"

text \<open>A loop that computes a list without touching the state, stopping at the first failure.\<close>

fun map_res :: "('a \<Rightarrow> 'b res) \<Rightarrow> 'a list \<Rightarrow> 'b list res" where
  "map_res f [] = Inr []"
| "map_res f (x # xs) =
     (case f x of Inl e \<Rightarrow> Inl e
      | Inr y \<Rightarrow> (case map_res f xs of Inl e \<Rightarrow> Inl e | Inr ys \<Rightarrow> Inr (y # ys)))"

definition bind_res :: "'a res \<Rightarrow> ('a \<Rightarrow> 'b res) \<Rightarrow> 'b res" where
  "bind_res r f = (case r of Inl e \<Rightarrow> Inl e | Inr x \<Rightarrow> f x)"

lemma bind_res_simps [simp]:
  "bind_res (Inl e) f = Inl e"
  "bind_res (Inr x) f = f x"
  by (simp_all add: bind_res_def)

lemma bind_res_Inr_iff: "bind_res r f = Inr y \<longleftrightarrow> (\<exists>x. r = Inr x \<and> f x = Inr y)"
  by (cases r) simp_all

lemma run_simple [prog_run, simp]:
  "ret x s = (Inr x, s)"
  "raise m s = (Inl (Raised m), s)"
  "undef m s = (Inl (Undef (BadCall m)), s)"
  "lift_res r s = (r, s)"
  "lib q s = (of_lib q, s)"
  "reads g s = (Inr (g s), s)"
  "updates h s = (Inr (), h s)"
  by (simp_all add: ret_def raise_def undef_def lift_res_def lib_def reads_def updates_def)

lemma bnd_run [prog_run]:
  "bnd m f s = (case m s of (Inl e, t) \<Rightarrow> (Inl e, t) | (Inr x, t) \<Rightarrow> f x t)"
  by (simp add: bnd_def)

lemma try_catch_run [prog_run]:
  "try_catch m h s = (case m s of (Inl (Raised e), t) \<Rightarrow> h e t | r \<Rightarrow> r)"
  by (simp add: try_catch_def)

lemma bnd_Inr [simp]: "m s = (Inr x, t) \<Longrightarrow> bnd m f s = f x t"
  by (simp add: bnd_def)

lemma bnd_Inl [simp]: "m s = (Inl e, t) \<Longrightarrow> bnd m f s = (Inl e, t)"
  by (simp add: bnd_def)

lemma bnd_ret [simp]: "bnd (ret x) f = f x"
  by (simp add: bnd_def ret_def)

lemma bnd_assoc: "bnd (bnd m f) g = bnd m (\<lambda>x. bnd (f x) g)"
  by (rule ext) (simp add: bnd_def split: prod.split sum.split)

lemma try_catch_Inr [simp]: "m s = (Inr x, t) \<Longrightarrow> try_catch m h s = (Inr x, t)"
  by (simp add: try_catch_def)

lemma try_catch_Raised [simp]: "m s = (Inl (Raised e), t) \<Longrightarrow> try_catch m h s = h e t"
  by (simp add: try_catch_def)

lemma try_catch_Undef [simp]: "m s = (Inl (Undef e), t) \<Longrightarrow> try_catch m h s = (Inl (Undef e), t)"
  by (simp add: try_catch_def)

lemma bnd_cases:
  assumes "bnd m f s = (r, u)"
  obtains (fails) e where "m s = (Inl e, u)" "r = Inl e"
    | (goes_on) x t where "m s = (Inr x, t)" "f x t = (r, u)"
  using assms by (auto simp: bnd_def split: prod.splits sum.splits)

lemma bnd_defined:
  assumes "\<And>s. \<not> is_undef (fst (m s))" "\<And>x s. \<not> is_undef (fst (f x s))"
  shows "\<not> is_undef (fst (bnd m f s))"
proof (cases "bnd m f s" rule: prod.exhaust)
  case (Pair r u)
  then show ?thesis
  proof (cases rule: bnd_cases)
    case (fails e)
    with assms(1) [of s] Pair show ?thesis by (simp add: is_undef_Inl)
  next
    case (goes_on x t)
    with assms(2) [of x t] Pair show ?thesis by simp
  qed
qed

lemma for_each_defined:
  "(\<And>x s. \<not> is_undef (fst (f x s))) \<Longrightarrow> \<not> is_undef (fst (for_each xs f s))"
  by (induction xs arbitrary: s) (simp_all add: bnd_defined)

lemma bnd_returns: "bnd m f s = (Inr y, u) \<Longrightarrow> \<exists>x t. m s = (Inr x, t) \<and> f x t = (Inr y, u)"
  by (auto elim: bnd_cases)

lemma for_each_append: "for_each (xs @ ys) f = bnd (for_each xs f) (\<lambda>_. for_each ys f)"
  by (induction xs) (simp_all add: bnd_assoc)

lemma map_res_Inr_iff:
  "map_res f xs = Inr ys \<longleftrightarrow> list_all2 (\<lambda>x y. f x = Inr y) xs ys"
proof (induction xs arbitrary: ys)
  case Nil
  then show ?case by auto
next
  case (Cons x xs)
  show ?case
    by (auto simp: list_all2_Cons1 Cons.IH [symmetric] split: sum.splits)
qed

lemma map_res_length: "map_res f xs = Inr ys \<Longrightarrow> length ys = length xs"
  by (auto simp: map_res_Inr_iff dest: list_all2_lengthD)

lemma map_res_InlD: "map_res f xs = Inl e \<Longrightarrow> \<exists>x \<in> set xs. f x = Inl e"
  by (induction xs) (auto split: sum.splits)

lemma map_res_InlI: "x \<in> set xs \<Longrightarrow> f x = Inl e \<Longrightarrow> \<exists>e'. map_res f xs = Inl e'"
  by (induction xs) (auto split: sum.splits)

section \<open>Relations that a method respects\<close>

text \<open>
  \<open>guar R m\<close>: whatever the state and however \<open>m\<close> ends, the state it leaves is \<open>R\<close>-related to the
  state it found. For a reflexive and transitive \<open>R\<close> this composes along the program text, which
  the locale below proves once; an invariant is the special case \<open>keeps I\<close>.
\<close>

named_theorems guar_intro
  \<open>introduction rules for guarantees of combinators\<close>

definition guar :: "('s \<Rightarrow> 's \<Rightarrow> bool) \<Rightarrow> ('s, 'a) prog \<Rightarrow> bool" where
  "guar R m \<longleftrightarrow> (\<forall>s. R s (snd (m s)))"

definition keeps :: "('s \<Rightarrow> bool) \<Rightarrow> 's \<Rightarrow> 's \<Rightarrow> bool" where
  "keeps I s t \<longleftrightarrow> (I s \<longrightarrow> I t)"

lemma guarD: "guar R m \<Longrightarrow> m s = (r, t) \<Longrightarrow> R s t"
  unfolding guar_def by (metis snd_conv)

lemma guarI: "(\<And>s r t. m s = (r, t) \<Longrightarrow> R s t) \<Longrightarrow> guar R m"
  unfolding guar_def by (metis prod.collapse)

locale frame_relation =
  fixes R :: "'s \<Rightarrow> 's \<Rightarrow> bool"
  assumes frame_refl: "R s s"
    and frame_trans: "R s t \<Longrightarrow> R t u \<Longrightarrow> R s u"
begin

lemma guar_pure:
  "guar R (ret x)" "guar R (raise m)" "guar R (undef m)" "guar R (lift_res r)" "guar R (lib q)"
  "guar R (reads g)"
  by (simp_all add: guar_def frame_refl)

lemma guar_updates: "(\<And>s. R s (h s)) \<Longrightarrow> guar R (updates h)"
  by (simp add: guar_def)

lemma guar_bnd:
  assumes m: "guar R m" and f: "\<And>x. guar R (f x)"
  shows "guar R (bnd m f)"
proof (rule guarI)
  fix s r u
  assume "bnd m f s = (r, u)"
  then show "R s u"
  proof (cases rule: bnd_cases)
    case (fails e)
    with m show ?thesis by (blast dest: guarD)
  next
    case (goes_on x t)
    then have "R s t" "R t u" using m f by (blast dest: guarD)+
    then show ?thesis by (rule frame_trans)
  qed
qed

lemma guar_try_catch:
  assumes m: "guar R m" and h: "\<And>e. guar R (h e)"
  shows "guar R (try_catch m h)"
proof (rule guarI)
  fix s r u
  assume run: "try_catch m h s = (r, u)"
  obtain q t where q: "m s = (q, t)" by fastforce
  from m q have st: "R s t" by (rule guarD)
  show "R s u"
  proof (cases "\<exists>e. q = Inl (Raised e)")
    case True
    then obtain e where e: "q = Inl (Raised e)" by blast
    with run q have "h e t = (r, u)" by simp
    with h have "R t u" by (rule guarD)
    with st show ?thesis by (rule frame_trans)
  next
    case False
    with run q have "u = t" by (auto simp: try_catch_def split: sum.splits fault.splits)
    with st show ?thesis by simp
  qed
qed

lemma guar_for_each: "(\<And>x. guar R (f x)) \<Longrightarrow> guar R (for_each xs f)"
  by (induction xs) (simp_all add: guar_pure guar_bnd)

end

interpretation inv_frame: frame_relation "keeps I" for I
  by unfold_locales (simp_all add: keeps_def)

section \<open>Standard library\<close>

text \<open>\<^verbatim>\<open>std::to_string\<close> of an unsigned integer: its decimal digits.\<close>

fun dec_string :: "nat \<Rightarrow> string" where
  "dec_string n =
     (if n < 10 then [char_of (48 + n)] else dec_string (n div 10) @ [char_of (48 + n mod 10)])"

declare dec_string.simps [simp del]

definition to_string :: "u64 \<Rightarrow> string" where
  "to_string n = dec_string (unat n)"

text \<open>\<^verbatim>\<open>std::copy(first + skip, last, arr.begin())\<close> into an array of \<open>n\<close> bytes that is uninitialised
  before: defined for a source of exactly \<open>skip + n\<close> bytes. A shorter source leaves bytes of the
  array indeterminate (or reads before its beginning), a longer one writes past its end.\<close>

definition copy_to_array :: "nat \<Rightarrow> nat \<Rightarrow> bytes \<Rightarrow> bytes res" where
  "copy_to_array skip n src =
     (if length src = skip + n then Inr (drop skip src) else Inl (Undef (BadCall ''std::copy'')))"

lemma copy_to_array_Inr_iff [simp]:
  "copy_to_array skip n src = Inr a \<longleftrightarrow> length src = skip + n \<and> a = drop skip src"
  by (auto simp: copy_to_array_def)

lemma copy_to_array_length: "copy_to_array skip n src = Inr a \<Longrightarrow> length a = n"
  by auto

end
