(* ===== verification/Runtime.thy ===== *)
theory Runtime
  imports Prelude
begin

text \<open>
  The data the trusted components exchange, and the outside of the enclave as they see it.

  The libraries the sources call (EclipseMonitor, DecentEnclave, SimpleObjects, AdvancedRlp,
  SimpleRlp, the SGX SDK) are not in the repository. They are parameters: the record \<open>env\<close> has one
  field per call, and every definition of the model takes it as its first argument. A call whose
  answer may change over time is given the whole \<open>history\<close> of calls made so far, newest first, so
  that a theorem for every \<open>env\<close> covers every behaviour of the other side. The history is also
  the observable output of the code: what it registered, cancelled, sent and logged, in order.
  What a theorem needs to know of a library is a named hypothesis on \<open>env\<close> (\<open>listen_fresh\<close>,
  \<open>abi_word_sized\<close> and so on), stated where it is first used.

  The mutexes of the sources are in the state: \<open>held\<close> is the set of mutexes the running thread
  holds, \<open>with_lock\<close> is the scope of a \<^verbatim>\<open>std::lock_guard\<close>, and locking a held \<^verbatim>\<open>std::mutex\<close> again is
  undefined behaviour. The queues that several closures share are in two heaps.
\<close>

section \<open>Data\<close>

type_synonym cb_id = nat
type_synonym qref = nat
type_synonym sock = nat

text \<open>The values of SimpleObjects that the sources build or take apart.\<close>

datatype obj = OBytes bytes | OList "obj list" | ODict "string \<Rightarrow> obj option"

text \<open>\<^verbatim>\<open>EventData = ListT<Bytes>\<close> and \<^verbatim>\<open>EventDataQueue = ListT<EventData>\<close>.\<close>

type_synonym event_data = "bytes list"
type_synonym event_data_queue = "event_data list"

definition event_data_obj :: "event_data \<Rightarrow> obj" where
  "event_data_obj d = OList (map OBytes d)"

text \<open>What is read of a \<^verbatim>\<open>HeaderMgr\<close>: \<^verbatim>\<open>GetRawHeader().get_Number()\<close> and \<^verbatim>\<open>GetNumber()\<close>.\<close>

record header =
  raw_number :: bytes
  number :: u64

text \<open>A \<^verbatim>\<open>ReceiptLogEntry\<close>.\<close>

record log_entry =
  contract_addr :: bytes
  log_topics :: "bytes list"
  log_data :: bytes

text \<open>The fields of \<^verbatim>\<open>MonitorSecState\<close> that are read; \<open>other_fields\<close> stands for the rest, which is
  only ever serialised.\<close>

record sec_state =
  genesis_hash :: bytes
  checkpoint_hash :: bytes
  checkpoint_iter :: u64
  other_fields :: bytes

datatype phase = BootstrapI | BootstrapII | Sync | Runtime

text \<open>
  The closures handed to \<^verbatim>\<open>EventManager::Listen\<close>, by what they capture. All of them capture the one
  service store or one queue; the \<open>string\<close> is the name of the captured logger.
\<close>

datatype callback =
    CbDeploy
  | CbReg
  | CbNotifyPast
  | CbNotify qref string
  | CbReceipt qref string

record event_descr =
  ed_addr :: bytes
  ed_topics :: "bytes list"
  ed_callback :: callback

text \<open>The closures handed to \<^verbatim>\<open>HeartbeatEmitterMgr::AddEmitter\<close>.\<close>

datatype emitter = EventEmitter sock qref cb_id | ReceiptEmitter sock qref cb_id

datatype log_level = Debug | Info | Error

section \<open>The outside\<close>

text \<open>The handlers registered with the \<^verbatim>\<open>LambdaHandlerMgr\<close>.\<close>

datatype handler = PubsubSubHandler | ReceiptSubHandler | SendRawHandler

datatype ext_call =
    Listened event_descr cb_id
  | Cancelled cb_id
  | EmitterAdded emitter
  | Sent sock bytes
  | Refused string
  | Logged log_level string string
  | SetupDone string
  | InfoRead string
  | CertRequested string string
  | CertUpdated string bytes
  | HandlerRegistered string handler
  | MonitorStepped nat
  | MonitorCreated bytes bytes bytes
  | PlanRefreshed u64 "u64 option"
  | ReceiptsFetched u64
  | LatestFetched
  | TransactionSent bytes

type_synonym history = "ext_call list"

record env =
  listen_at :: "history \<Rightarrow> event_descr \<Rightarrow> cb_id lib"
  cancel_at :: "history \<Rightarrow> cb_id \<Rightarrow> unit lib"
  alive_at :: "history \<Rightarrow> bool"
  emitter_at :: "history \<Rightarrow> emitter \<Rightarrow> unit lib"
  send_at :: "history \<Rightarrow> sock \<Rightarrow> bytes \<Rightarrow> unit lib"
  sec_state_at :: "history \<Rightarrow> sec_state"
  phase_at :: "history \<Rightarrow> phase"
  bootstrap_end_at :: "history \<Rightarrow> u64"
  setup_at :: "history \<Rightarrow> string \<Rightarrow> unit lib"
  info_at :: "history \<Rightarrow> string \<Rightarrow> string lib"
  app_cert_at :: "history \<Rightarrow> string \<Rightarrow> string \<Rightarrow> string lib"
  x509_from_pem :: "string \<Rightarrow> bytes lib"
  cert_update_at :: "history \<Rightarrow> string \<Rightarrow> bytes \<Rightarrow> unit lib"
  handler_at :: "history \<Rightarrow> string \<Rightarrow> handler \<Rightarrow> unit lib"
  parse_config :: "bytes \<Rightarrow> bytes lib"
  monitor_at :: "history \<Rightarrow> bytes \<Rightarrow> bytes \<Rightarrow> bytes \<Rightarrow> unit lib"
  refresh_at :: "history \<Rightarrow> u64 \<Rightarrow> u64 option \<Rightarrow> unit lib"
  ocall_receipts_at :: "history \<Rightarrow> u64 \<Rightarrow> sgx_status \<times> sgx_status \<times> bytes"
  ocall_latest_at :: "history \<Rightarrow> sgx_status \<times> sgx_status \<times> u64"
  ocall_send_at :: "history \<Rightarrow> bytes \<Rightarrow> sgx_status \<times> sgx_status \<times> bytes"
  check_sgx :: "sgx_status \<Rightarrow> sgx_status \<Rightarrow> unit lib"
  abi_bytes :: "bytes \<Rightarrow> (bytes \<times> bytes) lib"
  abi_word :: "bytes \<Rightarrow> (bytes \<times> bytes) lib"
  keccak256 :: "string \<Rightarrow> bytes"
  hex_encode :: "bytes \<Rightarrow> string"
  rlp_write :: "obj \<Rightarrow> bytes lib"
  rlp_write_sec :: "sec_state \<Rightarrow> bytes lib"
  rlp_parse :: "bytes \<Rightarrow> obj lib"
  simple_rlp_parse :: "bytes \<Rightarrow> obj lib"
  dict_at :: "obj \<Rightarrow> string \<Rightarrow> obj lib"
  as_bytes :: "obj \<Rightarrow> bytes lib"
  as_list :: "obj \<Rightarrow> obj list lib"
  receipts_mgr :: "obj list \<Rightarrow> unit lib"

text \<open>
  \<open>listeners h\<close>: the registrations the code has made and not cancelled, which is what the
  EventManager may call back. \<open>messages s h\<close>: the messages sent on a socket, oldest first.
\<close>

fun listeners :: "history \<Rightarrow> cb_id \<Rightarrow> event_descr option" where
  "listeners [] = Map.empty"
| "listeners (Listened d i # h) = (listeners h)(i \<mapsto> d)"
| "listeners (Cancelled i # h) = (listeners h)(i := None)"
| "listeners (_ # h) = listeners h"

fun messages :: "sock \<Rightarrow> history \<Rightarrow> bytes list" where
  "messages s [] = []"
| "messages s (Sent s' m # h) = (if s' = s then messages s h @ [m] else messages s h)"
| "messages s (_ # h) = messages s h"

text \<open>Registrations are told apart by their identifier.\<close>

definition listen_fresh :: "env \<Rightarrow> bool" where
  "listen_fresh E \<longleftrightarrow> (\<forall>h d i. listen_at E h d = Inr i \<longrightarrow> listeners h i = None)"

section \<open>The state of the enclave's process\<close>

record rt =
  held :: "lock set"
  evqs :: "event_data_queue list"
  recqs :: "obj list list"
  history :: history

definition with_lock :: "lock \<Rightarrow> ('z rt_scheme, 'a) prog \<Rightarrow> ('z rt_scheme, 'a) prog" where
  "with_lock l m = (\<lambda>w.
     if l \<in> held w then (Inl (Undef (LockedTwice l (held w))), w)
     else (case m (w\<lparr>held := insert l (held w)\<rparr>) of
             (r, u) \<Rightarrow> (r, u\<lparr>held := held u - {l}\<rparr>)))"

text \<open>A call to the outside: the answer is read from \<open>env\<close>, the call enters the history.\<close>

definition ext_result :: "(history \<Rightarrow> 'a lib) \<Rightarrow> ('a \<Rightarrow> ext_call) \<Rightarrow> ('z rt_scheme, 'a) prog" where
  "ext_result query entry = (\<lambda>w.
     case query (history w) of
       Inr x \<Rightarrow> (Inr x, w\<lparr>history := entry x # history w\<rparr>)
     | Inl m \<Rightarrow> (Inl (Raised m), w\<lparr>history := Refused m # history w\<rparr>))"

definition listen :: "env \<Rightarrow> event_descr \<Rightarrow> ('z rt_scheme, cb_id) prog" where
  "listen E d = ext_result (\<lambda>h. listen_at E h d) (Listened d)"

definition cancel :: "env \<Rightarrow> cb_id \<Rightarrow> ('z rt_scheme, unit) prog" where
  "cancel E i = ext_result (\<lambda>h. cancel_at E h i) (\<lambda>_. Cancelled i)"

definition add_emitter :: "env \<Rightarrow> emitter \<Rightarrow> ('z rt_scheme, unit) prog" where
  "add_emitter E e = ext_result (\<lambda>h. emitter_at E h e) (\<lambda>_. EmitterAdded e)"

definition sized_send :: "env \<Rightarrow> sock \<Rightarrow> bytes \<Rightarrow> ('z rt_scheme, unit) prog" where
  "sized_send E s m = ext_result (\<lambda>h. send_at E h s m) (\<lambda>_. Sent s m)"

definition log_msg :: "log_level \<Rightarrow> string \<Rightarrow> string \<Rightarrow> ('z rt_scheme, unit) prog" where
  "log_msg l name m = updates (\<lambda>w. w\<lparr>history := Logged l name m # history w\<rparr>)"

definition ask :: "(history \<Rightarrow> 'a) \<Rightarrow> ('z rt_scheme, 'a) prog" where
  "ask f = reads (\<lambda>w. f (history w))"

section \<open>How the primitives run\<close>

lemma with_lock_run [prog_run]:
  "l \<notin> held w \<Longrightarrow> with_lock l m w =
     (fst (m (w\<lparr>held := insert l (held w)\<rparr>)),
      (snd (m (w\<lparr>held := insert l (held w)\<rparr>)))
        \<lparr>held := held (snd (m (w\<lparr>held := insert l (held w)\<rparr>))) - {l}\<rparr>)"
  by (simp add: with_lock_def case_prod_beta)

lemma with_lock_twice: "l \<in> held w \<Longrightarrow> with_lock l m w = (Inl (Undef (LockedTwice l (held w))), w)"
  by (simp add: with_lock_def)

lemma ext_result_run [prog_run]:
  "ext_result q entry w =
     (case q (history w) of
        Inr x \<Rightarrow> (Inr x, w\<lparr>history := entry x # history w\<rparr>)
      | Inl m \<Rightarrow> (Inl (Raised m), w\<lparr>history := Refused m # history w\<rparr>))"
  by (simp add: ext_result_def)

lemmas ext_defs = listen_def cancel_def add_emitter_def sized_send_def

lemma log_msg_run [prog_run]: "log_msg l n m w = (Inr (), w\<lparr>history := Logged l n m # history w\<rparr>)"
  by (simp add: log_msg_def)

lemma ask_run [prog_run]: "ask f w = (Inr (f (history w)), w)"
  by (simp add: ask_def)

lemma ext_call_ok [simp]:
  "listen_at E (history w) d = Inr i \<Longrightarrow>
     listen E d w = (Inr i, w\<lparr>history := Listened d i # history w\<rparr>)"
  "cancel_at E (history w) j = Inr () \<Longrightarrow>
     cancel E j w = (Inr (), w\<lparr>history := Cancelled j # history w\<rparr>)"
  "emitter_at E (history w) e = Inr () \<Longrightarrow>
     add_emitter E e w = (Inr (), w\<lparr>history := EmitterAdded e # history w\<rparr>)"
  "send_at E (history w) s m = Inr () \<Longrightarrow>
     sized_send E s m w = (Inr (), w\<lparr>history := Sent s m # history w\<rparr>)"
  by (simp_all add: ext_defs ext_result_def)

text \<open>The closures of the components run inside the block processing thread, which holds the mutex of
the monitor and no other.\<close>

lemma only_monitor_held [simp]:
  "held w \<subseteq> {MonitorMutex} \<Longrightarrow> l \<noteq> MonitorMutex \<Longrightarrow> l \<notin> held w"
  by blast

section \<open>Guarantees of the primitives\<close>

text \<open>
  A frame relation on enclave states that ignores which mutexes are held and is respected by the
  growth of the history with entries of a kind \<open>K\<close>. Everything below the component methods
  respects it, so a method does whenever its own assignments do.
\<close>

locale rt_frame = frame_relation R
  for R :: "'z rt_scheme \<Rightarrow> 'z rt_scheme \<Rightarrow> bool" +
  fixes K :: "ext_call \<Rightarrow> bool"
  assumes frame_held: "R w (w\<lparr>held := H\<rparr>)"
    and frame_history: "K c \<Longrightarrow> R w (w\<lparr>history := c # history w\<rparr>)"
    and frame_logged: "K (Logged l n m)"
    and frame_refused: "K (Refused e)"
begin

lemma guar_with_lock: "guar R m \<Longrightarrow> guar R (with_lock l m)"
proof (rule guarI)
  fix s r t
  assume m: "guar R m" and run: "with_lock l m s = (r, t)"
  show "R s t"
  proof (cases "l \<in> held s")
    case True
    with run show ?thesis by (simp add: with_lock_twice frame_refl)
  next
    case False
    define s' where "s' = s\<lparr>held := insert l (held s)\<rparr>"
    define u where "u = snd (m s')"
    have "R s s'" by (simp add: s'_def frame_held)
    moreover have "R s' u" using m by (simp add: guar_def u_def)
    moreover have "t = u\<lparr>held := held u - {l}\<rparr>"
      using run False by (simp add: with_lock_run s'_def u_def)
    then have "R u t" by (simp add: frame_held)
    ultimately show ?thesis by (blast intro: frame_trans)
  qed
qed

lemma guar_ext_result: "(\<And>x. K (entry x)) \<Longrightarrow> guar R (ext_result q entry)"
  by (auto simp: guar_def ext_result_def frame_refl frame_history frame_refused
      split: sum.split)

lemma guar_log: "guar R (log_msg l n m)"
  by (simp add: guar_def log_msg_def frame_history frame_logged)

lemma guar_ask: "guar R (ask f)"
  by (simp add: ask_def guar_pure)

lemmas guar_rt = guar_pure guar_bnd guar_try_catch guar_for_each guar_with_lock guar_log guar_ask

end

text \<open>Lock discipline: a method gives back every mutex it took, however it ends.\<close>

definition balanced :: "('z rt_scheme, 'a) prog \<Rightarrow> bool" where
  "balanced m \<longleftrightarrow> guar (\<lambda>s t. held t = held s) m"

interpretation held_frame: frame_relation "\<lambda>s t. held t = held s"
  by unfold_locales simp_all

named_theorems balanced_rules
  \<open>lock discipline of every primitive and method\<close>

lemma balanced_pure [balanced_rules]:
  "balanced (ret x)" "balanced (raise m)" "balanced (undef m)" "balanced (lift_res r)"
  "balanced (lib q')" "balanced (reads g)" "balanced (ask f)" "balanced (log_msg l n k)" "balanced (ext_result q e)"
  by (simp_all add: balanced_def held_frame.guar_pure ask_def)
    (auto simp: guar_def log_msg_def ext_result_def split: sum.split)

lemma balanced_ext [balanced_rules]:
  "balanced (listen E d)" "balanced (cancel E i)" "balanced (add_emitter E e)"
  "balanced (sized_send E s b)"
  by (simp_all add: ext_defs balanced_pure)

lemma balanced_comb [balanced_rules]:
  "balanced m \<Longrightarrow> (\<And>x. balanced (f x)) \<Longrightarrow> balanced (bnd m f)"
  "balanced m \<Longrightarrow> (\<And>e. balanced (h e)) \<Longrightarrow> balanced (try_catch m h)"
  "(\<And>y. balanced (g y)) \<Longrightarrow> balanced (for_each ys g)"
  by (simp_all add: balanced_def held_frame.guar_bnd held_frame.guar_try_catch
      held_frame.guar_for_each)

lemma balanced_updates [balanced_rules]: "(\<And>s. held (g s) = held s) \<Longrightarrow> balanced (updates g)"
  by (simp add: balanced_def guar_def)

lemma balanced_with_lock [balanced_rules]: "balanced m \<Longrightarrow> balanced (with_lock l m)"
  by (auto simp: balanced_def guar_def with_lock_def case_prod_beta)

lemma balancedD: "balanced m \<Longrightarrow> m s = (r, t) \<Longrightarrow> held t = held s"
  unfolding balanced_def by (rule guarD)

section \<open>A concrete outside\<close>

text \<open>
  One well-behaved outside, on which the properties are instantiated: identifiers are never reused,
  calls succeed, an ABI word is the next 32 bytes, an ABI byte string is the rest, and a message is
  written as its length. It shows that the hypotheses on \<open>env\<close> can hold together.
\<close>

fun fresh_id :: "history \<Rightarrow> cb_id" where
  "fresh_id [] = 0"
| "fresh_id (Listened d i # h) = max (Suc i) (fresh_id h)"
| "fresh_id (_ # h) = fresh_id h"

lemma listeners_below: "listeners h i = Some d \<Longrightarrow> i < fresh_id h"
  by (induction h rule: listeners.induct) (auto split: if_splits)

definition example_env :: env where
  "example_env =
     \<lparr>listen_at = (\<lambda>h d. Inr (fresh_id h)),
      cancel_at = (\<lambda>h i. Inr ()),
      alive_at = (\<lambda>h. True),
      emitter_at = (\<lambda>h e. Inr ()),
      send_at = (\<lambda>h s m. Inr ()),
      sec_state_at = (\<lambda>h. \<lparr>genesis_hash = [1], checkpoint_hash = [2], checkpoint_iter = 6,
                           other_fields = []\<rparr>),
      phase_at = (\<lambda>h. BootstrapI),
      bootstrap_end_at = (\<lambda>h. 100),
      setup_at = (\<lambda>h n. Inr ()),
      info_at = (\<lambda>h n. Inr ''00''),
      app_cert_at = (\<lambda>h c k. Inr ''PEM''),
      x509_from_pem = (\<lambda>p. Inr []),
      cert_update_at = (\<lambda>h c b. Inr ()),
      handler_at = (\<lambda>h n f. Inr ()),
      parse_config = (\<lambda>b. Inr b),
      monitor_at = (\<lambda>h c a t. Inr ()),
      refresh_at = (\<lambda>h n s. Inr ()),
      ocall_receipts_at = (\<lambda>h n. (SGX_SUCCESS, SGX_SUCCESS, [])),
      ocall_latest_at = (\<lambda>h. (SGX_SUCCESS, SGX_SUCCESS, 120)),
      ocall_send_at = (\<lambda>h t. (SGX_SUCCESS, SGX_SUCCESS, replicate 32 5)),
      check_sgx = (\<lambda>s r. if s = SGX_SUCCESS \<and> r = SGX_SUCCESS then Inr () else Inl ''sgx''),
      abi_bytes = (\<lambda>b. Inr (b, [])),
      abi_word = (\<lambda>b. if length b < 32 then Inl ''abi'' else Inr (take 32 b, drop 32 b)),
      keccak256 = (\<lambda>s. replicate 32 (of_nat (length s))),
      hex_encode = (\<lambda>b. ''hex''),
      rlp_write = (\<lambda>v. Inr [9]),
      rlp_write_sec = (\<lambda>v. Inr [8]),
      rlp_parse = (\<lambda>b. Inr (ODict [''publisher'' \<mapsto> OBytes b, ''contract'' \<mapsto> OBytes b,
                                  ''topics'' \<mapsto> OList []])),
      simple_rlp_parse = (\<lambda>b. Inr (OList [])),
      dict_at = (\<lambda>v k. case v of ODict m \<Rightarrow> (case m k of Some x \<Rightarrow> Inr x | None \<Rightarrow> Inl ''key'')
                                | _ \<Rightarrow> Inl ''type''),
      as_bytes = (\<lambda>v. case v of OBytes b \<Rightarrow> Inr b | _ \<Rightarrow> Inl ''type''),
      as_list = (\<lambda>v. case v of OList xs \<Rightarrow> Inr xs | _ \<Rightarrow> Inl ''type''),
      receipts_mgr = (\<lambda>xs. Inr ())\<rparr>"

lemma example_env_simps [simp]:
  "listen_at example_env h d = Inr (fresh_id h)" "cancel_at example_env h i = Inr ()"
  "alive_at example_env h" "emitter_at example_env h em = Inr ()" "send_at example_env h s m = Inr ()"
  "sec_state_at example_env h = \<lparr>genesis_hash = [1], checkpoint_hash = [2], checkpoint_iter = 6,
     other_fields = []\<rparr>"
  "phase_at example_env h = BootstrapI" "bootstrap_end_at example_env h = 100"
  "setup_at example_env h n = Inr ()" "info_at example_env h n = Inr ''00''"
  "app_cert_at example_env h n k = Inr ''PEM''" "x509_from_pem example_env pem = Inr []"
  "cert_update_at example_env h n b = Inr ()" "handler_at example_env h n hdl = Inr ()"
  "parse_config example_env b = Inr b" "monitor_at example_env h b a t = Inr ()"
  "refresh_at example_env h n64 start = Inr ()"
  "ocall_receipts_at example_env h n64 = (SGX_SUCCESS, SGX_SUCCESS, [])"
  "ocall_latest_at example_env h = (SGX_SUCCESS, SGX_SUCCESS, 120)"
  "ocall_send_at example_env h t = (SGX_SUCCESS, SGX_SUCCESS, replicate 32 5)"
  "check_sgx example_env st rv = (if st = SGX_SUCCESS \<and> rv = SGX_SUCCESS then Inr () else Inl ''sgx'')"
  "abi_bytes example_env b = Inr (b, [])"
  "abi_word example_env b = (if length b < 32 then Inl ''abi'' else Inr (take 32 b, drop 32 b))"
  "hex_encode example_env b = ''hex''" "rlp_write example_env v = Inr [9]"
  "rlp_write_sec example_env sec = Inr [8]"
  "rlp_parse example_env b = Inr (ODict [''publisher'' \<mapsto> OBytes b, ''contract'' \<mapsto> OBytes b,
     ''topics'' \<mapsto> OList []])"
  "simple_rlp_parse example_env b = Inr (OList [])"
  "as_bytes example_env (OBytes b) = Inr b" "as_list example_env (OList xs) = Inr xs"
  "receipts_mgr example_env xs = Inr ()"
  "dict_at example_env (ODict f) k = (case f k of Some x \<Rightarrow> Inr x | None \<Rightarrow> Inl ''key'')"
  by (simp_all add: example_env_def)

lemma example_listen_fresh: "listen_fresh example_env"
  by (auto simp: listen_fresh_def example_env_def) (metis listeners_below not_None_eq less_irrefl)

end
