(* ===== verification/SharedQueues.thy ===== *)
theory SharedQueues
  imports Runtime
begin

text \<open>
  The queues shared between the block processing thread, which appends, and the heartbeat thread,
  which takes everything: \<^verbatim>\<open>struct ThreadedEventQueue\<close> (Trusted/Pubsub/SubscriberService.hpp) and
  \<^verbatim>\<open>struct ThreadedReceiptQueue\<close> (Trusted/ReceiptSubscriber.hpp). A queue is known by the
  \<^verbatim>\<open>shared_ptr\<close> to it, here an index into the heap; every access but one is under its mutex.

  The contract that the handlers and the emitters rely on is the locale \<open>mailbox\<close>, interpreted on
  both kinds of queue; its lemma says that whatever the interleaving of appends and takes, on
  however many queues, each element is taken once, in the order of the appends.
\<close>

section \<open>ThreadedEventQueue\<close>

definition event_queue_at :: "qref \<Rightarrow> ('z rt_scheme, event_data_queue) prog" where
  "event_queue_at q = (\<lambda>w.
     if q < length (evqs w) then (Inr (evqs w ! q), w) else (Inl (Undef (BadCall ''dangling queue'')), w))"

definition set_event_queue :: "qref \<Rightarrow> event_data_queue \<Rightarrow> ('z rt_scheme, unit) prog" where
  "set_event_queue q xs = updates (\<lambda>w. w\<lparr>evqs := (evqs w)[q := xs]\<rparr>)"

text \<open>\<^verbatim>\<open>std::make_shared<ThreadedEventQueue>()\<close>\<close>

definition new_event_queue :: "('z rt_scheme, qref) prog" where
  "new_event_queue = (\<lambda>w. (Inr (length (evqs w)), w\<lparr>evqs := evqs w @ [[]]\<rparr>))"

definition event_queue_push :: "qref \<Rightarrow> event_data \<Rightarrow> ('z rt_scheme, unit) prog" where
  "event_queue_push q d =
     with_lock (EventQueueMutex q)
       (bnd (event_queue_at q) (\<lambda>xs. set_event_queue q (xs @ [d])))"

text \<open>\<open>outEvQueue = std::move(m_eventQueue); m_eventQueue = EventDataQueue();\<close>\<close>

definition event_queue_drain :: "qref \<Rightarrow> ('z rt_scheme, event_data_queue) prog" where
  "event_queue_drain q =
     with_lock (EventQueueMutex q)
       (bnd (event_queue_at q) (\<lambda>xs. bnd (set_event_queue q []) (\<lambda>_. ret xs)))"

section \<open>ThreadedReceiptQueue\<close>

definition receipt_queue_at :: "qref \<Rightarrow> ('z rt_scheme, obj list) prog" where
  "receipt_queue_at q = (\<lambda>w.
     if q < length (recqs w) then (Inr (recqs w ! q), w) else (Inl (Undef (BadCall ''dangling queue'')), w))"

definition set_receipt_queue :: "qref \<Rightarrow> obj list \<Rightarrow> ('z rt_scheme, unit) prog" where
  "set_receipt_queue q xs = updates (\<lambda>w. w\<lparr>recqs := (recqs w)[q := xs]\<rparr>)"

definition new_receipt_queue :: "('z rt_scheme, qref) prog" where
  "new_receipt_queue = (\<lambda>w. (Inr (length (recqs w)), w\<lparr>recqs := recqs w @ [[]]\<rparr>))"

definition receipt_queue_push :: "qref \<Rightarrow> obj \<Rightarrow> ('z rt_scheme, unit) prog" where
  "receipt_queue_push q d =
     with_lock (ReceiptQueueMutex q)
       (bnd (receipt_queue_at q) (\<lambda>xs. set_receipt_queue q (xs @ [d])))"

definition receipt_queue_drain :: "qref \<Rightarrow> ('z rt_scheme, obj list) prog" where
  "receipt_queue_drain q =
     with_lock (ReceiptQueueMutex q)
       (bnd (receipt_queue_at q) (\<lambda>xs. bnd (set_receipt_queue q []) (\<lambda>_. ret xs)))"

section \<open>How they run\<close>

lemma insert_Diff_held [simp]: "l \<notin> H \<Longrightarrow> insert l H - {l} = H"
  by simp

lemma new_event_queue_run [prog_run]:
  "new_event_queue w = (Inr (length (evqs w)), w\<lparr>evqs := evqs w @ [[]]\<rparr>)"
  by (simp add: new_event_queue_def)

lemma new_receipt_queue_run [prog_run]:
  "new_receipt_queue w = (Inr (length (recqs w)), w\<lparr>recqs := recqs w @ [[]]\<rparr>)"
  by (simp add: new_receipt_queue_def)

lemma event_queue_push_run [prog_run]:
  "EventQueueMutex q \<notin> held w \<Longrightarrow> q < length (evqs w) \<Longrightarrow>
     event_queue_push q d w = (Inr (), w\<lparr>evqs := (evqs w)[q := evqs w ! q @ [d]]\<rparr>)"
  by (simp add: event_queue_push_def prog_run event_queue_at_def set_event_queue_def)

lemma event_queue_drain_run [prog_run]:
  "EventQueueMutex q \<notin> held w \<Longrightarrow> q < length (evqs w) \<Longrightarrow>
     event_queue_drain q w = (Inr (evqs w ! q), w\<lparr>evqs := (evqs w)[q := []]\<rparr>)"
  by (simp add: event_queue_drain_def prog_run event_queue_at_def set_event_queue_def)

lemma receipt_queue_push_run [prog_run]:
  "ReceiptQueueMutex q \<notin> held w \<Longrightarrow> q < length (recqs w) \<Longrightarrow>
     receipt_queue_push q d w = (Inr (), w\<lparr>recqs := (recqs w)[q := recqs w ! q @ [d]]\<rparr>)"
  by (simp add: receipt_queue_push_def prog_run receipt_queue_at_def set_receipt_queue_def)

lemma receipt_queue_drain_run [prog_run]:
  "ReceiptQueueMutex q \<notin> held w \<Longrightarrow> q < length (recqs w) \<Longrightarrow>
     receipt_queue_drain q w = (Inr (recqs w ! q), w\<lparr>recqs := (recqs w)[q := []]\<rparr>)"
  by (simp add: receipt_queue_drain_def prog_run receipt_queue_at_def set_receipt_queue_def)

lemma balanced_queue_at [balanced_rules]:
  "balanced (event_queue_at q)" "balanced (receipt_queue_at q)"
  "balanced new_event_queue" "balanced new_receipt_queue"
  "balanced (set_event_queue q xs)" "balanced (set_receipt_queue q ys)"
  by (simp_all add: balanced_def guar_def event_queue_at_def receipt_queue_at_def
      new_event_queue_def new_receipt_queue_def set_event_queue_def set_receipt_queue_def)

lemma balanced_queues [balanced_rules]:
  "balanced (event_queue_push q d)" "balanced (event_queue_drain q)"
  "balanced (receipt_queue_push q r)" "balanced (receipt_queue_drain q)"
  unfolding event_queue_push_def event_queue_drain_def receipt_queue_push_def receipt_queue_drain_def
  by (intro balanced_rules)+

section \<open>The mailbox contract\<close>

datatype 'a mail_op = Put qref 'a | Take qref

text \<open>\<open>mail_run\<close> runs a sequence of operations and returns what each \<open>Take\<close> gave, in order.\<close>

fun mail_run :: "(qref \<Rightarrow> 'a \<Rightarrow> ('s, unit) prog) \<Rightarrow> (qref \<Rightarrow> ('s, 'a list) prog) \<Rightarrow>
    'a mail_op list \<Rightarrow> ('s, (qref \<times> 'a list) list) prog" where
  "mail_run put get [] = ret []"
| "mail_run put get (Put q x # ops) = bnd (put q x) (\<lambda>_. mail_run put get ops)"
| "mail_run put get (Take q # ops) =
     bnd (get q) (\<lambda>xs. bnd (mail_run put get ops) (\<lambda>bs. ret ((q, xs) # bs)))"

fun op_queue :: "'a mail_op \<Rightarrow> qref" where
  "op_queue (Put q x) = q"
| "op_queue (Take q) = q"

fun puts_to :: "qref \<Rightarrow> 'a mail_op list \<Rightarrow> 'a list" where
  "puts_to q [] = []"
| "puts_to q (Put p x # ops) = (if p = q then x # puts_to q ops else puts_to q ops)"
| "puts_to q (Take p # ops) = puts_to q ops"

definition taken_from :: "qref \<Rightarrow> (qref \<times> 'a list) list \<Rightarrow> 'a list" where
  "taken_from q bs = concat (map snd (filter (\<lambda>b. fst b = q) bs))"

locale mailbox =
  fixes usable :: "'s \<Rightarrow> qref \<Rightarrow> bool"
    and contents :: "'s \<Rightarrow> qref \<Rightarrow> 'a list"
    and put :: "qref \<Rightarrow> 'a \<Rightarrow> ('s, unit) prog"
    and get :: "qref \<Rightarrow> ('s, 'a list) prog"
  assumes put_ok: "usable s q \<Longrightarrow> \<exists>t. put q x s = (Inr (), t) \<and> usable t = usable s
      \<and> contents t = (contents s)(q := contents s q @ [x])"
    and get_ok: "usable s q \<Longrightarrow> \<exists>t. get q s = (Inr (contents s q), t) \<and> usable t = usable s
      \<and> contents t = (contents s)(q := [])"
begin

lemma mail_conserved:
  assumes "\<And>m. m \<in> set ops \<Longrightarrow> usable s (op_queue m)"
  shows "\<exists>bs t. mail_run put get ops s = (Inr bs, t) \<and> usable t = usable s \<and>
    (\<forall>q. taken_from q bs @ contents t q = contents s q @ puts_to q ops)"
  using assms
proof (induction ops arbitrary: s)
  case Nil
  then show ?case by (simp add: taken_from_def)
next
  case (Cons m ops)
  show ?case
  proof (cases m)
    case (Put p x)
    with Cons.prems have "usable s p" by force
    then obtain s' where s': "put p x s = (Inr (), s')" "usable s' = usable s"
        "contents s' = (contents s)(p := contents s p @ [x])"
      using put_ok by blast
    with Cons.prems have "\<And>m. m \<in> set ops \<Longrightarrow> usable s' (op_queue m)" by simp
    from Cons.IH [OF this] s' Put show ?thesis by (auto simp: bnd_def)
  next
    case (Take p)
    with Cons.prems have "usable s p" by force
    then obtain s' where s': "get p s = (Inr (contents s p), s')" "usable s' = usable s"
        "contents s' = (contents s)(p := [])"
      using get_ok by blast
    with Cons.prems have "\<And>m. m \<in> set ops \<Longrightarrow> usable s' (op_queue m)" by simp
    from Cons.IH [OF this] obtain bs t where t: "mail_run put get ops s' = (Inr bs, t)"
        "usable t = usable s'"
        "\<And>q. taken_from q bs @ contents t q = contents s' q @ puts_to q ops"
      by blast
    with s' Take have "mail_run put get (m # ops) s = (Inr ((p, contents s p) # bs), t)"
      by (simp add: bnd_def)
    moreover have "taken_from q ((p, contents s p) # bs) @ contents t q
        = contents s q @ puts_to q (m # ops)" for q
      using t(3) [of q] s'(3) Take by (simp add: taken_from_def)
    ultimately show ?thesis using t(2) s'(2) by auto
  qed
qed

text \<open>In particular what is taken comes out in the order it was put in: a prefix of it.\<close>

lemma mail_in_order:
  assumes "\<And>m. m \<in> set ops \<Longrightarrow> usable s (op_queue m)" and "contents s q = []"
    and "mail_run put get ops s = (Inr bs, t)"
  shows "\<exists>later. puts_to q ops = taken_from q bs @ later \<and> later = contents t q"
  using mail_conserved [OF assms(1)] assms(2,3) by force

end

section \<open>The emitter contract\<close>

text \<open>
  An emitter empties its queue \<open>q\<close> and sends one message that \<open>carries\<close> what was in it; when it
  throws it has sent nothing, what it took is lost, and something outside is not \<open>healthy\<close>. \<open>idle\<close> is the
  state of a thread that holds no mutex. \<open>feed_run\<close> interleaves appends, to any queue, with beats of the
  emitter.
\<close>

datatype 'a feed_op = Feed qref 'a | Beat

fun feeds_to :: "qref \<Rightarrow> 'a feed_op list \<Rightarrow> 'a list" where
  "feeds_to q [] = []"
| "feeds_to q (Feed p x # ops) = (if p = q then x # feeds_to q ops else feeds_to q ops)"
| "feeds_to q (Beat # ops) = feeds_to q ops"

text \<open>What the beats have to send: \<open>batches q xs ops\<close> has for each beat the elements put into \<open>q\<close> since the
beat before, the first one also those that were there (\<open>xs\<close>), and \<open>unsent\<close> is what comes after the last.\<close>

fun batches :: "qref \<Rightarrow> 'a list \<Rightarrow> 'a feed_op list \<Rightarrow> 'a list list" where
  "batches q xs [] = []"
| "batches q xs (Feed p x # ops) = batches q (if p = q then xs @ [x] else xs) ops"
| "batches q xs (Beat # ops) = xs # batches q [] ops"

fun unsent :: "qref \<Rightarrow> 'a list \<Rightarrow> 'a feed_op list \<Rightarrow> 'a list" where
  "unsent q xs [] = xs"
| "unsent q xs (Feed p x # ops) = unsent q (if p = q then xs @ [x] else xs) ops"
| "unsent q xs (Beat # ops) = unsent q [] ops"

text \<open>Nothing is lost and nothing is doubled: the batches and what is left are all that was put in.\<close>

lemma batches_all: "xs @ feeds_to q ops = concat (batches q xs ops) @ unsent q xs ops"
  by (induction q xs ops rule: batches.induct) auto

lemma batches_length: "length (batches q xs ops) = length (filter (\<lambda>op. op = Beat) ops)"
  by (induction q xs ops rule: batches.induct) auto

fun feed_step :: "(qref \<Rightarrow> 'a \<Rightarrow> ('s, unit) prog) \<Rightarrow> ('s, unit) prog \<Rightarrow> 'a feed_op \<Rightarrow> ('s, unit) prog" where
  "feed_step put emit (Feed p x) = put p x"
| "feed_step put emit Beat = emit"

definition feed_run ::
    "(qref \<Rightarrow> 'a \<Rightarrow> ('s, unit) prog) \<Rightarrow> ('s, unit) prog \<Rightarrow> 'a feed_op list \<Rightarrow> ('s, unit) prog" where
  "feed_run put emit ops = for_each ops (feed_step put emit)"

locale queue_emitter = mailbox usable contents put get
  for usable :: "'s \<Rightarrow> qref \<Rightarrow> bool" and contents :: "'s \<Rightarrow> qref \<Rightarrow> 'a list"
    and put :: "qref \<Rightarrow> 'a \<Rightarrow> ('s, unit) prog" and get :: "qref \<Rightarrow> ('s, 'a list) prog" +
  fixes idle :: "'s \<Rightarrow> bool" and sent :: "'s \<Rightarrow> bytes list" and carries :: "bytes \<Rightarrow> 'a list \<Rightarrow> bool"
    and q :: qref and emit :: "('s, unit) prog" and healthy :: bool
  assumes put_frame: "put p x s = (r, t) \<Longrightarrow> sent t = sent s \<and> idle t = idle s"
    and emit_sends: "idle s \<Longrightarrow> usable s q \<Longrightarrow> emit s = (Inr (), t) \<Longrightarrow> idle t \<and> usable t = usable s
      \<and> contents t = (contents s)(q := []) \<and> (\<exists>m. sent t = sent s @ [m] \<and> carries m (contents s q))"
    and emit_throws: "idle s \<Longrightarrow> usable s q \<Longrightarrow> emit s = (Inl e, t) \<Longrightarrow> sent t = sent s \<and> \<not> healthy"
begin

lemma stream_of_beats:
  assumes "idle s" "usable s q" and "\<And>p x. Feed p x \<in> set ops \<Longrightarrow> usable s p"
    and "feed_run put emit ops s = (r, t)"
  shows "\<exists>ms. sent t = sent s @ ms \<and>
    list_all2 carries ms (take (length ms) (batches q (contents s q) ops)) \<and>
    (r = Inr () \<longrightarrow> length ms = length (batches q (contents s q) ops) \<and> contents t q = unsent q (contents s q) ops) \<and>
    (r \<noteq> Inr () \<longrightarrow> length ms < length (batches q (contents s q) ops) \<and> \<not> healthy)"
  using assms
proof (induction ops arbitrary: s)
  case Nil
  then show ?case by (auto simp: feed_run_def)
next
  case (Cons op ops)
  from Cons.prems(4) have run: "bnd (feed_step put emit op) (\<lambda>_. feed_run put emit ops) s = (r, t)"
    by (simp add: feed_run_def)
  show ?case
  proof (cases op)
    case (Feed p x)
    with Cons.prems(3) [of p x] have "usable s p" by simp
    then obtain u where u: "put p x s = (Inr (), u)" "usable u = usable s"
        "contents u = (contents s)(p := contents s p @ [x])"
      using put_ok by blast
    with put_frame have frame: "sent u = sent s" "idle u = idle s" by blast+
    from run u(1) Feed have rest: "feed_run put emit ops u = (r, t)" by simp
    have "idle u" "usable u q" using u frame Cons.prems(1,2) by simp_all
    moreover have "usable u p'" if "Feed p' y \<in> set ops" for p' y
      using Cons.prems(3) [of p' y] that u(2) by simp
    ultimately show ?thesis using Cons.IH [OF _ _ _ rest] u(3) frame(1) Feed by (cases "p = q") simp_all
  next
    case Beat
    show ?thesis
    proof (cases "emit s")
      case (Pair res u)
      show ?thesis
      proof (cases res)
        case (Inl e)
        with run Pair Beat have "t = u" "r = Inl e" by simp_all
        moreover have "sent u = sent s" "\<not> healthy" using emit_throws Cons.prems(1,2) Pair Inl by blast+
        ultimately show ?thesis using Beat by (intro exI [of _ "[]"]) simp
      next
        case (Inr v)
        then have emit: "emit s = (Inr (), u)" using Pair by simp
        with emit_sends Cons.prems(1,2) obtain m where u: "idle u" "usable u = usable s"
            "contents u = (contents s)(q := [])" "sent u = sent s @ [m]" "carries m (contents s q)"
          by blast
        from run emit Beat have rest: "feed_run put emit ops u = (r, t)" by simp
        have "idle u" "usable u q" using u Cons.prems(2) by simp_all
        moreover have "usable u p'" if "Feed p' y \<in> set ops" for p' y
          using Cons.prems(3) [of p' y] that u(2) by simp
        ultimately obtain ms where ms: "sent t = sent u @ ms"
            "list_all2 carries ms (take (length ms) (batches q [] ops))"
            "r = Inr () \<longrightarrow> length ms = length (batches q [] ops) \<and> contents t q = unsent q [] ops"
            "r \<noteq> Inr () \<longrightarrow> length ms < length (batches q [] ops) \<and> \<not> healthy"
          using Cons.IH [OF _ _ _ rest] u(3) by auto
        with u Beat show ?thesis by (intro exI [of _ "m # ms"]) simp
      qed
    qed
  qed
qed

end

section \<open>Both kinds of queue are mailboxes\<close>

definition event_queue_usable :: "'z rt_scheme \<Rightarrow> qref \<Rightarrow> bool" where
  "event_queue_usable w q \<longleftrightarrow> q < length (evqs w) \<and> EventQueueMutex q \<notin> held w"

definition event_queue_contents :: "'z rt_scheme \<Rightarrow> qref \<Rightarrow> event_data list" where
  "event_queue_contents w q = (if q < length (evqs w) then evqs w ! q else [])"

definition receipt_queue_usable :: "'z rt_scheme \<Rightarrow> qref \<Rightarrow> bool" where
  "receipt_queue_usable w q \<longleftrightarrow> q < length (recqs w) \<and> ReceiptQueueMutex q \<notin> held w"

definition receipt_queue_contents :: "'z rt_scheme \<Rightarrow> qref \<Rightarrow> obj list" where
  "receipt_queue_contents w q = (if q < length (recqs w) then recqs w ! q else [])"

interpretation event_mail: mailbox event_queue_usable event_queue_contents
    event_queue_push event_queue_drain
proof
  fix s :: "'z rt_scheme" and q x
  assume "event_queue_usable s q"
  then show "\<exists>t. event_queue_push q x s = (Inr (), t) \<and> event_queue_usable t = event_queue_usable s
      \<and> event_queue_contents t = (event_queue_contents s)(q := event_queue_contents s q @ [x])"
    and "\<exists>t. event_queue_drain q s = (Inr (event_queue_contents s q), t)
      \<and> event_queue_usable t = event_queue_usable s
      \<and> event_queue_contents t = (event_queue_contents s)(q := [])"
    by (auto simp: prog_run event_queue_usable_def event_queue_contents_def fun_eq_iff
        nth_list_update)
qed

interpretation receipt_mail: mailbox receipt_queue_usable receipt_queue_contents
    receipt_queue_push receipt_queue_drain
proof
  fix s :: "'z rt_scheme" and q x
  assume "receipt_queue_usable s q"
  then show "\<exists>t. receipt_queue_push q x s = (Inr (), t) \<and> receipt_queue_usable t = receipt_queue_usable s
      \<and> receipt_queue_contents t = (receipt_queue_contents s)(q := receipt_queue_contents s q @ [x])"
    and "\<exists>t. receipt_queue_drain q s = (Inr (receipt_queue_contents s q), t)
      \<and> receipt_queue_usable t = receipt_queue_usable s
      \<and> receipt_queue_contents t = (receipt_queue_contents s)(q := [])"
    by (auto simp: prog_run receipt_queue_usable_def receipt_queue_contents_def fun_eq_iff
        nth_list_update)
qed

end
