(* ===== verification/SubscriberService.thy ===== *)
theory SubscriberService
  imports SharedQueues "HOL-Library.Sublist"
begin

text \<open>
  \<^verbatim>\<open>class SubscriberService\<close> of Trusted/Pubsub/SubscriberService.hpp: the store of publishers, event
  managers and past events, its three event handlers and the descriptions under which they are
  registered with the EventManager. The store is the record \<open>pubsub_store\<close>; in the source it is one
  \<^verbatim>\<open>shared_ptr\<close> captured by every handler, here the field \<open>svc\<close> of the state.

  The lemmas give what each handler does on every branch, the lock discipline, and the relation
  \<open>past_grows\<close>: no handler removes a publisher, an event manager or a recorded event.
\<close>

section \<open>State\<close>

record pubsub_store =
  pubsub_cont_addr :: bytes
  deploy_ev_topic :: bytes
  reg_ev_topic :: bytes
  notify_ev_topic :: bytes
  is_deployed :: bool
  ev_mgr_addr_map :: "bytes \<Rightarrow> bytes option"
  past_event_store :: "bytes \<Rightarrow> qref option"

record sub_world = rt +
  svc :: pubsub_store

definition pubsub_service_store :: "env \<Rightarrow> bytes \<Rightarrow> string \<Rightarrow> string \<Rightarrow> string \<Rightarrow> pubsub_store" where
  "pubsub_service_store E addr deploy_sign reg_sign notify_sign =
     \<lparr>pubsub_cont_addr = addr,
      deploy_ev_topic = keccak256 E deploy_sign,
      reg_ev_topic = keccak256 E reg_sign,
      notify_ev_topic = keccak256 E notify_sign,
      is_deployed = False,
      ev_mgr_addr_map = Map.empty,
      past_event_store = Map.empty\<rparr>"

definition store_logger :: string where
  "store_logger = ''PubsubServiceStore''"

text \<open>\<^verbatim>\<open>ContractAddr()\<close>: the value-initialised array.\<close>

definition zero_addr :: bytes where
  "zero_addr = replicate 20 0"

definition update_svc :: "(pubsub_store \<Rightarrow> pubsub_store) \<Rightarrow> ('z sub_world_scheme, unit) prog" where
  "update_svc f = updates (\<lambda>w. w\<lparr>svc := f (svc w)\<rparr>)"

text \<open>\<^verbatim>\<open>unordered_map::emplace\<close>: a key that is present keeps its value.\<close>

definition emplace :: "'k \<Rightarrow> 'v \<Rightarrow> ('k \<Rightarrow> 'v option) \<Rightarrow> ('k \<Rightarrow> 'v option)" where
  "emplace k v m = (case m k of None \<Rightarrow> m(k \<mapsto> v) | Some _ \<Rightarrow> m)"

section \<open>Lookups\<close>

definition get_event_mgr_addr :: "bytes \<Rightarrow> ('z sub_world_scheme, bytes) prog" where
  "get_event_mgr_addr publisher =
     with_lock EvMgrAddrMapMutex
       (reads (\<lambda>w. case ev_mgr_addr_map (svc w) publisher of
                     None \<Rightarrow> zero_addr
                   | Some a \<Rightarrow> a))"

definition get_notify_event_topic :: "('z sub_world_scheme, bytes) prog" where
  "get_notify_event_topic = reads (\<lambda>w. notify_ev_topic (svc w))"

text \<open>The queue is copied under the mutex of the store; its own mutex is not taken.\<close>

definition get_past_events :: "bytes \<Rightarrow> ('z sub_world_scheme, event_data_queue) prog" where
  "get_past_events ev_mgr_addr =
     with_lock PastEventStoreMutex
       (bnd (reads (\<lambda>w. past_event_store (svc w) ev_mgr_addr)) (\<lambda>it.
          case it of
            None \<Rightarrow> ret []
          | Some q \<Rightarrow> event_queue_at q))"

section \<open>Notify event (past store)\<close>

definition notify_past_event_handler :: "env \<Rightarrow> header \<Rightarrow> log_entry \<Rightarrow> ('z sub_world_scheme, unit) prog" where
  "notify_past_event_handler E hdr log =
     bnd (lib (abi_bytes E (log_data log))) (\<lambda>(ev_msg, _).
     bnd (with_lock PastEventStoreMutex
            (reads (\<lambda>w. past_event_store (svc w) (contract_addr log)))) (\<lambda>it.
     case it of
       None \<Rightarrow> log_msg Error store_logger
                ''Past event store not found for given event manager address''
     | Some q \<Rightarrow>
         bnd (event_queue_push q [raw_number hdr, ev_msg]) (\<lambda>_.
         log_msg Debug store_logger
           (''Event Manager @'' @ hex_encode E (contract_addr log) @
            '' emit an event at block #'' @ to_string (number hdr)))))"

definition build_notify_past_event_descr :: "bytes \<Rightarrow> pubsub_store \<Rightarrow> event_descr" where
  "build_notify_past_event_descr ev_mgr_addr st =
     \<lparr>ed_addr = ev_mgr_addr, ed_topics = [notify_ev_topic st], ed_callback = CbNotifyPast\<rparr>"

section \<open>Registration event\<close>

definition reg_event_handler :: "env \<Rightarrow> header \<Rightarrow> log_entry \<Rightarrow> ('z sub_world_scheme, unit) prog" where
  "reg_event_handler E hdr log =
     bnd (lib (abi_word E (log_data log))) (\<lambda>(pub_addr_abi, rest).
     bnd (lib (abi_word E rest)) (\<lambda>(ev_mgr_addr_abi, _).
     bnd (lift_res (copy_to_array 12 20 pub_addr_abi)) (\<lambda>pub_addr.
     bnd (lift_res (copy_to_array 12 20 ev_mgr_addr_abi)) (\<lambda>ev_mgr_addr.
     bnd (with_lock EvMgrAddrMapMutex
            (update_svc (\<lambda>st. st\<lparr>ev_mgr_addr_map := (ev_mgr_addr_map st)(pub_addr \<mapsto> ev_mgr_addr)\<rparr>))) (\<lambda>_.
     bnd (with_lock PastEventStoreMutex
            (bnd new_event_queue (\<lambda>q.
             update_svc (\<lambda>st. st\<lparr>past_event_store := emplace ev_mgr_addr q (past_event_store st)\<rparr>)))) (\<lambda>_.
     bnd (ask (alive_at E)) (\<lambda>alive.
     bnd (if alive then
            bnd (reads svc) (\<lambda>st.
            bnd (listen E (build_notify_past_event_descr ev_mgr_addr st)) (\<lambda>_. ret ()))
          else ret ()) (\<lambda>_.
     log_msg Info store_logger
       (''Publisher @'' @ hex_encode E pub_addr @ '' registered with event manager @'' @
        hex_encode E ev_mgr_addr @ '' at block #'' @ to_string (number hdr))))))))))"

definition build_reg_event_descr :: "pubsub_store \<Rightarrow> event_descr" where
  "build_reg_event_descr st =
     \<lparr>ed_addr = pubsub_cont_addr st, ed_topics = [reg_ev_topic st], ed_callback = CbReg\<rparr>"

section \<open>Deployment event\<close>

definition deploy_event_handler :: "env \<Rightarrow> header \<Rightarrow> cb_id \<Rightarrow> ('z sub_world_scheme, unit) prog" where
  "deploy_event_handler E hdr cb =
     bnd (update_svc (\<lambda>st. st\<lparr>is_deployed := True\<rparr>)) (\<lambda>_.
     bnd (log_msg Info store_logger
            (''Pub-Sub service contract is deployed at block #'' @ to_string (number hdr))) (\<lambda>_.
     bnd (ask (alive_at E)) (\<lambda>alive.
     if alive then
       bnd (cancel E cb) (\<lambda>_.
       bnd (reads svc) (\<lambda>st.
       bnd (listen E (build_reg_event_descr st)) (\<lambda>_. ret ())))
     else ret ())))"

definition address_to_abi_address :: "bytes \<Rightarrow> bytes" where
  "address_to_abi_address addr = replicate 12 0 @ addr"

definition build_deploy_event_descr :: "pubsub_store \<Rightarrow> event_descr" where
  "build_deploy_event_descr st =
     \<lparr>ed_addr = pubsub_cont_addr st,
      ed_topics = [deploy_ev_topic st, address_to_abi_address (pubsub_cont_addr st)],
      ed_callback = CbDeploy\<rparr>"

definition start_service :: "env \<Rightarrow> ('z sub_world_scheme, unit) prog" where
  "start_service E = bnd (reads svc) (\<lambda>st. bnd (listen E (build_deploy_event_descr st)) (\<lambda>_. ret ()))"

section \<open>What the library calls promise\<close>

text \<open>\<^verbatim>\<open>AbiParser<Bytes, AbiSize<32> >\<close> returns 32 bytes when it returns.\<close>

definition abi_word_sized :: "env \<Rightarrow> bool" where
  "abi_word_sized E \<longleftrightarrow> (\<forall>bs v rest. abi_word E bs = Inr (v, rest) \<longrightarrow> length v = 32)"

lemma abi_word_sizedD: "abi_word_sized E \<Longrightarrow> abi_word E bs = Inr (v, rest) \<Longrightarrow> length v = 32"
  unfolding abi_word_sized_def by blast

section \<open>How the methods run\<close>

lemma emplace_simps [simp]:
  "m k = None \<Longrightarrow> emplace k v m = m(k \<mapsto> v)"
  "m k = Some u \<Longrightarrow> emplace k v m = m"
  by (simp_all add: emplace_def)

lemma emplace_apply: "emplace k v m k' = (if k' = k \<and> m k = None then Some v else m k')"
  by (auto simp: emplace_def split: option.splits)

lemma get_event_mgr_addr_run [prog_run]:
  "EvMgrAddrMapMutex \<notin> held w \<Longrightarrow>
     get_event_mgr_addr p w =
       (Inr (case ev_mgr_addr_map (svc w) p of None \<Rightarrow> zero_addr | Some a \<Rightarrow> a), w)"
  by (simp add: get_event_mgr_addr_def prog_run)

lemma get_notify_event_topic_run [prog_run]:
  "get_notify_event_topic w = (Inr (notify_ev_topic (svc w)), w)"
  by (simp add: get_notify_event_topic_def)

text \<open>Every recorded reference points into the heap.\<close>

definition past_refs_valid :: "'z sub_world_scheme \<Rightarrow> bool" where
  "past_refs_valid w \<longleftrightarrow> (\<forall>a q. past_event_store (svc w) a = Some q \<longrightarrow> q < length (evqs w))"

definition past_events :: "'z sub_world_scheme \<Rightarrow> bytes \<Rightarrow> event_data_queue" where
  "past_events w a = (case past_event_store (svc w) a of None \<Rightarrow> [] | Some q \<Rightarrow> evqs w ! q)"

lemma get_past_events_run [prog_run]:
  "PastEventStoreMutex \<notin> held w \<Longrightarrow> past_refs_valid w \<Longrightarrow>
     get_past_events a w = (Inr (past_events w a), w)"
  by (auto simp: get_past_events_def prog_run past_events_def past_refs_valid_def
      event_queue_at_def split: option.split)

lemma notify_past_event_handler_run:
  assumes "abi_bytes E (log_data log) = Inr (msg, rest)" "held w \<subseteq> {MonitorMutex}"
    and "past_event_store (svc w) (contract_addr log) = Some q" "q < length (evqs w)"
  shows "notify_past_event_handler E hdr log w =
    (Inr (), w\<lparr>evqs := (evqs w)[q := evqs w ! q @ [[raw_number hdr, msg]]],
       history := Logged Debug store_logger
         (''Event Manager @'' @ hex_encode E (contract_addr log) @
          '' emit an event at block #'' @ to_string (number hdr)) # history w\<rparr>)"
  using assms by (simp add: notify_past_event_handler_def prog_run)

lemma notify_past_event_handler_unknown:
  assumes "abi_bytes E (log_data log) = Inr (msg, rest)" "held w \<subseteq> {MonitorMutex}"
    and "past_event_store (svc w) (contract_addr log) = None"
  shows "notify_past_event_handler E hdr log w =
    (Inr (), w\<lparr>history := Logged Error store_logger
        ''Past event store not found for given event manager address'' # history w\<rparr>)"
  using assms by (simp add: notify_past_event_handler_def prog_run)

lemma notify_past_event_handler_malformed:
  assumes "abi_bytes E (log_data log) = Inl e"
  shows "notify_past_event_handler E hdr log w = (Inl (Raised e), w)"
  using assms by (simp add: notify_past_event_handler_def prog_run)

text \<open>The registration handler: the state it leaves, and the two ways it fails early.\<close>

definition registered_state ::
    "env \<Rightarrow> header \<Rightarrow> bytes \<Rightarrow> bytes \<Rightarrow> cb_id option \<Rightarrow> 'z sub_world_scheme \<Rightarrow> 'z sub_world_scheme" where
  "registered_state E hdr pub ev cb w =
     w\<lparr>svc := (svc w)\<lparr>ev_mgr_addr_map := (ev_mgr_addr_map (svc w))(pub \<mapsto> ev),
                     past_event_store := emplace ev (length (evqs w)) (past_event_store (svc w))\<rparr>,
       evqs := evqs w @ [[]],
       history :=
         Logged Info store_logger
           (''Publisher @'' @ hex_encode E pub @ '' registered with event manager @'' @
            hex_encode E ev @ '' at block #'' @ to_string (number hdr)) #
         (case cb of
            None \<Rightarrow> history w
          | Some i \<Rightarrow> Listened (build_notify_past_event_descr ev (svc w)) i # history w)\<rparr>"

lemma build_descr_update [simp]:
  "build_notify_past_event_descr a (st\<lparr>ev_mgr_addr_map := m\<rparr>) = build_notify_past_event_descr a st"
  "build_notify_past_event_descr a (st\<lparr>past_event_store := s\<rparr>) = build_notify_past_event_descr a st"
  "build_reg_event_descr (st\<lparr>is_deployed := d\<rparr>) = build_reg_event_descr st"
  by (simp_all add: build_notify_past_event_descr_def build_reg_event_descr_def)

lemma reg_event_handler_run:
  assumes "abi_word E (log_data log) = Inr (pa, rest)" "abi_word E rest = Inr (ea, rest')"
    and "length pa = 32" "length ea = 32" "held w \<subseteq> {MonitorMutex}"
    and "alive_at E (history w)"
    and "listen_at E (history w) (build_notify_past_event_descr (drop 12 ea) (svc w)) = Inr i"
  shows "reg_event_handler E hdr log w =
    (Inr (), registered_state E hdr (drop 12 pa) (drop 12 ea) (Some i) w)"
  using assms
  by (simp add: reg_event_handler_def prog_run copy_to_array_def update_svc_def registered_state_def
      listen_def)

lemma reg_event_handler_dead:
  assumes "abi_word E (log_data log) = Inr (pa, rest)" "abi_word E rest = Inr (ea, rest')"
    and "length pa = 32" "length ea = 32" "held w \<subseteq> {MonitorMutex}"
    and "\<not> alive_at E (history w)"
  shows "reg_event_handler E hdr log w =
    (Inr (), registered_state E hdr (drop 12 pa) (drop 12 ea) None w)"
  using assms
  by (simp add: reg_event_handler_def prog_run copy_to_array_def update_svc_def registered_state_def)

lemma reg_event_handler_malformed:
  "abi_word E (log_data log) = Inl e \<Longrightarrow> reg_event_handler E hdr log w = (Inl (Raised e), w)"
  "abi_word E (log_data log) = Inr (pa, rest) \<Longrightarrow> abi_word E rest = Inl e \<Longrightarrow>
     reg_event_handler E hdr log w = (Inl (Raised e), w)"
  by (simp_all add: reg_event_handler_def prog_run)

definition deployed_log :: "header \<Rightarrow> ext_call" where
  "deployed_log hdr = Logged Info store_logger
     (''Pub-Sub service contract is deployed at block #'' @ to_string (number hdr))"

lemma deploy_event_handler_run:
  assumes "alive_at E (deployed_log hdr # history w)"
    and "cancel_at E (deployed_log hdr # history w) cb = Inr ()"
    and "listen_at E (Cancelled cb # deployed_log hdr # history w)
           (build_reg_event_descr (svc w)) = Inr i"
  shows "deploy_event_handler E hdr cb w =
    (Inr (), w\<lparr>svc := (svc w)\<lparr>is_deployed := True\<rparr>,
       history := Listened (build_reg_event_descr (svc w)) i # Cancelled cb #
         deployed_log hdr # history w\<rparr>)"
  using assms
  by (simp add: deploy_event_handler_def prog_run update_svc_def listen_def cancel_def deployed_log_def)

section \<open>Lock discipline, and what never shrinks\<close>

lemma balanced_update_svc [balanced_rules]: "balanced (update_svc f)"
  by (simp add: update_svc_def balanced_def guar_def)

lemma balanced_subscriber [balanced_rules]:
  "balanced (get_event_mgr_addr p)" "balanced get_notify_event_topic" "balanced (get_past_events a)"
  "balanced (notify_past_event_handler E hdr log)" "balanced (reg_event_handler E hdr log)"
  "balanced (deploy_event_handler E hdr cb)" "balanced (start_service E)"
  unfolding get_event_mgr_addr_def get_notify_event_topic_def get_past_events_def
    notify_past_event_handler_def reg_event_handler_def deploy_event_handler_def start_service_def
  by (auto intro!: balanced_rules split: prod.split option.split)

definition past_grows :: "'z sub_world_scheme \<Rightarrow> 'z sub_world_scheme \<Rightarrow> bool" where
  "past_grows w u \<longleftrightarrow>
     pubsub_cont_addr (svc u) = pubsub_cont_addr (svc w) \<and>
     deploy_ev_topic (svc u) = deploy_ev_topic (svc w) \<and>
     reg_ev_topic (svc u) = reg_ev_topic (svc w) \<and>
     notify_ev_topic (svc u) = notify_ev_topic (svc w) \<and>
     (is_deployed (svc w) \<longrightarrow> is_deployed (svc u)) \<and>
     dom (ev_mgr_addr_map (svc w)) \<subseteq> dom (ev_mgr_addr_map (svc u)) \<and>
     past_event_store (svc w) \<subseteq>\<^sub>m past_event_store (svc u) \<and>
     length (evqs w) \<le> length (evqs u) \<and>
     (\<forall>q < length (evqs w). prefix (evqs w ! q) (evqs u ! q))"

lemma past_growsI:
  assumes "svc u = svc w" "length (evqs w) \<le> length (evqs u)"
    and "\<And>q. q < length (evqs w) \<Longrightarrow> prefix (evqs w ! q) (evqs u ! q)"
  shows "past_grows w u"
  using assms by (simp add: past_grows_def)

interpretation past_frame: rt_frame past_grows "\<lambda>_. True"
proof
  show "past_grows w w" for w :: "'z sub_world_scheme"
    by (simp add: past_grows_def)
  show "past_grows w v" if "past_grows w u" "past_grows u v" for w u v :: "'z sub_world_scheme"
    using that unfolding past_grows_def
    by (auto intro: map_le_trans prefix_order.trans order.strict_trans2)
qed (simp_all add: past_grows_def)

lemma past_grows_queue_ops:
  "guar past_grows (event_queue_at q)" "guar past_grows new_event_queue"
  "guar past_grows (event_queue_push q d)"
  by (auto simp: guar_def event_queue_at_def new_event_queue_def event_queue_push_def
      set_event_queue_def with_lock_def bnd_def past_grows_def nth_append nth_list_update
      split: prod.split)

lemma past_grows_update_svc:
  assumes "\<And>st. pubsub_cont_addr (f st) = pubsub_cont_addr st"
    "\<And>st. deploy_ev_topic (f st) = deploy_ev_topic st" "\<And>st. reg_ev_topic (f st) = reg_ev_topic st"
    "\<And>st. notify_ev_topic (f st) = notify_ev_topic st" "\<And>st. is_deployed st \<Longrightarrow> is_deployed (f st)"
    "\<And>st. dom (ev_mgr_addr_map st) \<subseteq> dom (ev_mgr_addr_map (f st))"
    "\<And>st. past_event_store st \<subseteq>\<^sub>m past_event_store (f st)"
  shows "guar past_grows (update_svc f)"
  using assms by (simp add: guar_def update_svc_def past_grows_def)

lemma emplace_extends: "m \<subseteq>\<^sub>m emplace k v m"
  by (auto simp: map_le_def emplace_apply)

lemmas past_grows_rules =
  past_frame.guar_rt past_grows_queue_ops past_grows_update_svc past_frame.guar_ext_result

lemma past_grows_handlers:
  "guar past_grows (notify_past_event_handler E hdr log)"
  "guar past_grows (reg_event_handler E hdr log)"
  "guar past_grows (deploy_event_handler E hdr cb)"
  "guar past_grows (start_service E)"
  unfolding notify_past_event_handler_def reg_event_handler_def deploy_event_handler_def
    start_service_def ext_defs
  by (auto intro!: past_grows_rules emplace_extends split: prod.split option.split)

lemma past_grows_events:
  assumes "past_grows w u" "past_refs_valid w"
  shows "prefix (past_events w a) (past_events u a)"
proof (cases "past_event_store (svc w) a")
  case None
  then show ?thesis by (simp add: past_events_def)
next
  case (Some q)
  with assms have "past_event_store (svc u) a = Some q" "q < length (evqs w)"
    by (auto simp: past_grows_def past_refs_valid_def map_le_def dom_def)
  with assms Some show ?thesis by (simp add: past_events_def past_grows_def)
qed

section \<open>A concrete service\<close>

text \<open>A service whose contract is deployed, with one event manager \<open>2..2\<close> that has one past event.\<close>

definition example_store :: pubsub_store where
  "example_store =
     (pubsub_service_store example_env (replicate 20 7) ''deploy'' ''reg'' ''notify'')
       \<lparr>is_deployed := True, ev_mgr_addr_map := [replicate 20 1 \<mapsto> replicate 20 2],
        past_event_store := [replicate 20 2 \<mapsto> 0]\<rparr>"

definition example_world :: sub_world where
  "example_world = \<lparr>held = {MonitorMutex}, evqs = [[[[4], [5, 6]]]], recqs = [],
     history = [Listened (build_notify_past_event_descr (replicate 20 2) example_store) 0],
     svc = example_store\<rparr>"

definition example_log :: log_entry where
  "example_log = \<lparr>contract_addr = replicate 20 2, log_topics = [],
     log_data = (replicate 12 0 @ replicate 20 1) @ (replicate 12 0 @ replicate 20 3)\<rparr>"

definition example_header :: header where
  "example_header = \<lparr>raw_number = [7], number = 7\<rparr>"

lemma example_abi_word_sized: "abi_word_sized example_env"
  by (auto simp: abi_word_sized_def example_env_def split: if_splits)

lemma example_world_wf:
  "held example_world \<subseteq> {MonitorMutex}" "past_refs_valid example_world"
  by (simp_all add: example_world_def example_store_def past_refs_valid_def pubsub_service_store_def)

section \<open>Properties\<close>

text \<open>Two managers never share a queue.\<close>

definition past_refs_distinct :: "'z sub_world_scheme \<Rightarrow> bool" where
  "past_refs_distinct w \<longleftrightarrow> (\<forall>a b q. past_event_store (svc w) a = Some q \<longrightarrow>
     past_event_store (svc w) b = Some q \<longrightarrow> a = b)"

lemma past_refs_validD:
  "past_refs_valid w \<Longrightarrow> past_event_store (svc w) a = Some q \<Longrightarrow> q < length (evqs w)"
  by (simp add: past_refs_valid_def)

lemma registered_state_simps [simp]:
  "held (registered_state E hdr pub ev cb w) = held w"
  "evqs (registered_state E hdr pub ev cb w) = evqs w @ [[]]"
  "ev_mgr_addr_map (svc (registered_state E hdr pub ev cb w)) = (ev_mgr_addr_map (svc w))(pub \<mapsto> ev)"
  "past_event_store (svc (registered_state E hdr pub ev cb w))
     = emplace ev (length (evqs w)) (past_event_store (svc w))"
  by (simp_all add: registered_state_def)

lemma registered_state_valid:
  "past_refs_valid w \<Longrightarrow> past_refs_valid (registered_state E hdr pub ev cb w)"
  by (auto simp: past_refs_valid_def emplace_apply less_Suc_eq split: if_splits)

lemma registered_state_distinct:
  "past_refs_valid w \<Longrightarrow> past_refs_distinct w \<Longrightarrow>
     past_refs_distinct (registered_state E hdr pub ev cb w)"
  by (fastforce simp: past_refs_distinct_def emplace_apply dest: past_refs_validD split: if_splits)

lemma registered_state_events:
  assumes "past_refs_valid w"
  shows "past_events (registered_state E hdr pub ev cb w) a = past_events w a"
  using assms
  by (auto simp: past_events_def emplace_apply past_refs_valid_def nth_append split: option.split)

text \<open>C14: after the handler of a registration event has processed an event with the two address
words of a publisher and its event manager, looking up that publisher gives that manager, every
other publisher is looked up as before, no past event of any manager has changed, and the manager
is listened to for its notify event.\<close>

theorem registration_lookup:
  assumes "abi_word E (log_data log) = Inr (pub_word, rest)"
    and "abi_word E rest = Inr (mgr_word, rest')"
    and "abi_word_sized E" "held w \<subseteq> {MonitorMutex}" "past_refs_valid w" "alive_at E (history w)"
    and "listen_at E (history w) (build_notify_past_event_descr (drop 12 mgr_word) (svc w)) = Inr i"
  shows "\<exists>u. reg_event_handler E hdr log w = (Inr (), u)
    \<and> (\<forall>p. get_event_mgr_addr p u =
          (if p = drop 12 pub_word then Inr (drop 12 mgr_word) else fst (get_event_mgr_addr p w), u))
    \<and> (\<forall>a. get_past_events a u = (fst (get_past_events a w), u))
    \<and> listeners (history u) =
        (listeners (history w))(i \<mapsto> \<lparr>ed_addr = drop 12 mgr_word,
           ed_topics = [notify_ev_topic (svc w)], ed_callback = CbNotifyPast\<rparr>)"
proof -
  let ?u = "registered_state E hdr (drop 12 pub_word) (drop 12 mgr_word) (Some i) w"
  have "length pub_word = 32" "length mgr_word = 32"
    using assms(1,2) abi_word_sizedD [OF assms(3)] by blast+
  then have run: "reg_event_handler E hdr log w = (Inr (), ?u)"
    using assms by (simp add: reg_event_handler_run)
  have "listeners (history ?u) = (listeners (history w))(i \<mapsto> \<lparr>ed_addr = drop 12 mgr_word,
      ed_topics = [notify_ev_topic (svc w)], ed_callback = CbNotifyPast\<rparr>)"
    by (simp add: registered_state_def build_notify_past_event_descr_def)
  moreover have "get_past_events a ?u = (fst (get_past_events a w), ?u)" for a
    using assms(4,5) by (simp add: prog_run registered_state_valid registered_state_events)
  moreover have "get_event_mgr_addr p ?u =
      (if p = drop 12 pub_word then Inr (drop 12 mgr_word) else fst (get_event_mgr_addr p w), ?u)" for p
    using assms(4) by (simp add: prog_run)
  ultimately show ?thesis using run by blast
qed

theorem registration_lookup_witness:
  "\<exists>u. reg_event_handler example_env example_header example_log example_world = (Inr (), u)
    \<and> fst (get_event_mgr_addr (replicate 20 1) u) = Inr (replicate 20 3)"
proof -
  have "\<exists>u. reg_event_handler example_env example_header example_log example_world = (Inr (), u)
    \<and> (\<forall>p. get_event_mgr_addr p u =
          (if p = drop 12 (replicate 12 0 @ replicate 20 1)
           then Inr (drop 12 (replicate 12 0 @ replicate 20 3))
           else fst (get_event_mgr_addr p example_world), u))
    \<and> (\<forall>a. get_past_events a u = (fst (get_past_events a example_world), u))
    \<and> listeners (history u) =
        (listeners (history example_world))(1 \<mapsto>
          \<lparr>ed_addr = drop 12 (replicate 12 0 @ replicate 20 3),
           ed_topics = [notify_ev_topic (svc example_world)], ed_callback = CbNotifyPast\<rparr>)"
    by (rule registration_lookup [where rest = "replicate 12 0 @ replicate 20 3" and rest' = "[]"])
      (use example_abi_word_sized example_world_wf in
        \<open>simp_all add: example_env_def example_log_def example_world_def\<close>)
  then show ?thesis by auto
qed

text \<open>The ABI form of an address, which the deployment listener compares and the registration handler
decodes, is 32 bytes from which that decoding gives the address back; and a word of 32 bytes is the ABI
form of what is decoded from it exactly when its first 12 bytes are zero.\<close>

theorem abi_address_roundtrip:
  assumes "length addr = 20" "length word = 32"
  shows "length (address_to_abi_address addr) = 32 \<and>
    copy_to_array 12 20 (address_to_abi_address addr) = Inr addr \<and>
    (\<exists>a. copy_to_array 12 20 word = Inr a \<and> length a = 20 \<and>
       (address_to_abi_address a = word \<longleftrightarrow> take 12 word = replicate 12 0))"
proof -
  have "replicate 12 0 @ drop 12 word = word \<longleftrightarrow> take 12 word = replicate 12 0"
    by (metis append_take_drop_id append_same_eq)
  with assms show ?thesis by (simp add: address_to_abi_address_def)
qed

theorem abi_address_roundtrip_witness:
  "copy_to_array 12 20 (address_to_abi_address (replicate 20 7)) = Inr (replicate 20 7) \<and>
   (\<exists>a. copy_to_array 12 20 (replicate 32 7) = Inr a \<and> length a = 20)"
  using abi_address_roundtrip [of "replicate 20 7" "replicate 32 7"] by auto

end
