(* ===== verification/TrustedHostBlockService.thy ===== *)
theory TrustedHostBlockService
  imports Runtime
begin

text \<open>
  \<^verbatim>\<open>class HostBlockService\<close> of Trusted/HostBlockService.hpp: the enclave's view of the host, three
  OCALLs. The host is not trusted, so the fields \<open>ocall_..._at\<close> of \<open>env\<close> may answer anything: the
  status of the call itself, the status the host function returned, and the output buffers.
  \<open>check_sgx\<close> is the macro \<^verbatim>\<open>DECENTENCLAVE_SGX_OCALL_CHECK_ERROR_E_R\<close>, which throws unless both
  statuses are \<^verbatim>\<open>SGX_SUCCESS\<close> (\<open>checks_sgx\<close>).
\<close>

definition get_receipts_rlp_by_num :: "env \<Rightarrow> u64 \<Rightarrow> ('z rt_scheme, obj) prog" where
  "get_receipts_rlp_by_num E block_num =
     bnd (ask (\<lambda>h. ocall_receipts_at E h block_num)) (\<lambda>(status, retval, buf).
     bnd (updates (\<lambda>w. w\<lparr>history := ReceiptsFetched block_num # history w\<rparr>)) (\<lambda>_.
     bnd (lib (check_sgx E status retval)) (\<lambda>_.
     lib (simple_rlp_parse E buf))))"

definition get_latest_block_num :: "env \<Rightarrow> ('z rt_scheme, u64) prog" where
  "get_latest_block_num E =
     bnd (ask (ocall_latest_at E)) (\<lambda>(status, retval, num).
     bnd (updates (\<lambda>w. w\<lparr>history := LatestFetched # history w\<rparr>)) (\<lambda>_.
     bnd (lib (check_sgx E status retval)) (\<lambda>_.
     ret num)))"

definition send_raw_transaction :: "env \<Rightarrow> bytes \<Rightarrow> ('z rt_scheme, bytes) prog" where
  "send_raw_transaction E txn =
     bnd (ask (\<lambda>h. ocall_send_at E h txn)) (\<lambda>(status, retval, txn_hash).
     bnd (updates (\<lambda>w. w\<lparr>history := TransactionSent txn # history w\<rparr>)) (\<lambda>_.
     bnd (lib (check_sgx E status retval)) (\<lambda>_.
     ret txn_hash)))"

definition checks_sgx :: "env \<Rightarrow> bool" where
  "checks_sgx E \<longleftrightarrow>
     (\<forall>status retval. (check_sgx E status retval = Inr ()) = (status = SGX_SUCCESS \<and> retval = SGX_SUCCESS))"

lemma checks_sgxD:
  "checks_sgx E \<Longrightarrow> check_sgx E SGX_SUCCESS SGX_SUCCESS = Inr ()"
  by (simp add: checks_sgx_def)

lemma checks_sgx_throws:
  assumes "checks_sgx E" "status \<noteq> SGX_SUCCESS \<or> retval \<noteq> SGX_SUCCESS"
  obtains m where "check_sgx E status retval = Inl m"
  using assms by (cases "check_sgx E status retval") (auto simp: checks_sgx_def)

lemma get_latest_block_num_run [prog_run]:
  "get_latest_block_num E w =
     (case ocall_latest_at E (history w) of (status, retval, num) \<Rightarrow>
        (map_sum id (\<lambda>_. num) (of_lib (check_sgx E status retval)),
         w\<lparr>history := LatestFetched # history w\<rparr>))"
  by (auto simp: get_latest_block_num_def prog_run split: prod.split sum.split)

lemma send_raw_transaction_run [prog_run]:
  "send_raw_transaction E txn w =
     (case ocall_send_at E (history w) txn of (status, retval, txn_hash) \<Rightarrow>
        (map_sum id (\<lambda>_. txn_hash) (of_lib (check_sgx E status retval)),
         w\<lparr>history := TransactionSent txn # history w\<rparr>))"
  by (auto simp: send_raw_transaction_def prog_run split: prod.split sum.split)

lemma get_receipts_rlp_by_num_run [prog_run]:
  "get_receipts_rlp_by_num E n w =
     (case ocall_receipts_at E (history w) n of (status, retval, buf) \<Rightarrow>
        (bind_res (of_lib (check_sgx E status retval)) (\<lambda>_. of_lib (simple_rlp_parse E buf)),
         w\<lparr>history := ReceiptsFetched n # history w\<rparr>))"
  by (auto simp: get_receipts_rlp_by_num_def prog_run split: prod.split sum.split)

lemma balanced_host [balanced_rules]:
  "balanced (get_receipts_rlp_by_num E n)" "balanced (get_latest_block_num E)"
  "balanced (send_raw_transaction E t)"
  unfolding get_receipts_rlp_by_num_def get_latest_block_num_def send_raw_transaction_def
  by (auto intro!: balanced_rules split: prod.split)

context rt_frame
begin

lemma guar_host:
  assumes "\<And>n. K (ReceiptsFetched n)" "K LatestFetched"
  shows "guar R (get_receipts_rlp_by_num E n)" "guar R (get_latest_block_num E)"
  unfolding get_receipts_rlp_by_num_def get_latest_block_num_def
  using assms by (auto intro!: guar_rt guar_updates frame_history split: prod.split)

end

end
