(* ===== verification/BlockchainMgr.thy ===== *)
theory BlockchainMgr
  imports SubscriberService TrustedHostBlockService
begin

text \<open>
  \<^verbatim>\<open>class BlockchainMgr\<close> of Trusted/BlockchainMgr.hpp: it owns the eclipse monitor, hands it every
  block header under \<open>MonitorMutex\<close>, and reacts to the monitor's two callbacks. The monitor is a
  library: \<^verbatim>\<open>EclipseMonitor::Update\<close> is the parameter \<open>upd\<close>, which gets the two callbacks and the
  header, and \<^verbatim>\<open>EventManager::CheckEvents\<close> the parameter \<open>chk\<close>, which gets the header and the function
  that fetches receipts, and runs callbacks of registered listeners. What is read of the monitor
  (its phase, the end of its first phase, its security state) are fields of \<open>env\<close>.
\<close>

record enclave = sub_world +
  last_chkpt_iter :: u64
  last_validated_blk_num :: bytes

type_synonym 'z enclave_prog = "('z enclave_scheme, unit) prog"
type_synonym 'z check_events = "header \<Rightarrow> (u64 \<Rightarrow> ('z enclave_scheme, obj list) prog) \<Rightarrow> 'z enclave_prog"
type_synonym 'z monitor_update =
  "(header \<Rightarrow> 'z enclave_prog) \<Rightarrow> (header \<Rightarrow> 'z enclave_prog) \<Rightarrow> bytes \<Rightarrow> 'z enclave_prog"

definition mgr_logger :: string where
  "mgr_logger = ''BlockchainMgr''"

definition refresh_bootstrap_plan :: "env \<Rightarrow> u64 \<Rightarrow> u64 option \<Rightarrow> ('z rt_scheme, unit) prog" where
  "refresh_bootstrap_plan E latest start_num =
     ext_result (\<lambda>h. refresh_at E h latest start_num) (\<lambda>_. PlanRefreshed latest start_num)"

section \<open>Construction\<close>

text \<open>The state has the members of one manager; when its constructor throws they are those of the manager
that was there before, if any.\<close>

definition or_as_before :: "'z enclave_prog \<Rightarrow> 'z enclave_prog" where
  "or_as_before m = (\<lambda>w.
     case m w of
       (Inr x, u) \<Rightarrow> (Inr x, u)
     | (Inl e, u) \<Rightarrow> (Inl e, u\<lparr>svc := svc w, last_chkpt_iter := last_chkpt_iter w,
         last_validated_blk_num := last_validated_blk_num w\<rparr>))"

lemma or_as_before_run [prog_run]:
  "or_as_before m w =
     (case m w of
        (Inr x, u) \<Rightarrow> (Inr x, u)
      | (Inl e, u) \<Rightarrow> (Inl e, u\<lparr>svc := svc w, last_chkpt_iter := last_chkpt_iter w,
          last_validated_blk_num := last_validated_blk_num w\<rparr>))"
  by (simp add: or_as_before_def)

lemma balanced_or_as_before [balanced_rules]:
  assumes "balanced m"
  shows "balanced (or_as_before m)"
  unfolding balanced_def
proof (rule guarI)
  fix w r u
  assume run: "or_as_before m w = (r, u)"
  obtain q v where m: "m w = (q, v)" by fastforce
  have "held v = held w" using assms m by (rule balancedD)
  with run m show "held u = held w" by (cases q) (auto simp: or_as_before_run)
qed

definition blockchain_mgr :: "env \<Rightarrow> bytes \<Rightarrow> u64 \<Rightarrow> bytes \<Rightarrow> string \<Rightarrow> pubsub_store \<Rightarrow> 'z enclave_prog" where
  "blockchain_mgr E config start_block_num sync_addr sync_sign sub_svc =
     or_as_before (
     bnd (ext_result (\<lambda>h. monitor_at E h config sync_addr (keccak256 E sync_sign))
            (\<lambda>_. MonitorCreated config sync_addr (keccak256 E sync_sign))) (\<lambda>_.
     bnd (updates (\<lambda>w. w\<lparr>last_chkpt_iter := 0, svc := sub_svc, last_validated_blk_num := []\<rparr>)) (\<lambda>_.
     bnd (get_latest_block_num E) (\<lambda>latest_blk_num.
     bnd (refresh_bootstrap_plan E latest_blk_num (Some start_block_num)) (\<lambda>_.
     start_service E)))))"

section \<open>Reading the state\<close>

definition get_monitor_sec_state :: "env \<Rightarrow> ('z enclave_scheme, sec_state) prog" where
  "get_monitor_sec_state E = with_lock MonitorMutex (ask (sec_state_at E))"

definition get_last_validated_blk_num :: "('z enclave_scheme, bytes) prog" where
  "get_last_validated_blk_num = with_lock MonitorMutex (reads last_validated_blk_num)"

section \<open>The callbacks of the monitor\<close>

text \<open>A \<^verbatim>\<open>ReceiptsMgr\<close> is known by the list it is constructed from, unless its constructor throws.\<close>

definition on_header_validated :: "'z check_events \<Rightarrow> env \<Rightarrow> header \<Rightarrow> 'z enclave_prog" where
  "on_header_validated chk E hdr =
     bnd (updates (\<lambda>w. w\<lparr>last_validated_blk_num := raw_number hdr\<rparr>)) (\<lambda>_.
     bnd (chk hdr (\<lambda>blk_num. bnd (get_receipts_rlp_by_num E blk_num) (\<lambda>rlp. bnd (lib (as_list E rlp)) (\<lambda>receipts.
       bnd (lib (receipts_mgr E receipts)) (\<lambda>_. ret receipts))))) (\<lambda>_.
     bnd (ask (phase_at E)) (\<lambda>ph.
     case ph of
       BootstrapI \<Rightarrow>
         bnd (ask (bootstrap_end_at E)) (\<lambda>end_num.
         if number hdr = end_num then
           bnd (get_latest_block_num E) (\<lambda>latest. refresh_bootstrap_plan E latest None)
         else ret ())
     | BootstrapII \<Rightarrow>
         bnd (get_latest_block_num E) (\<lambda>latest. refresh_bootstrap_plan E latest None)
     | _ \<Rightarrow> ret ())))"

definition phase_str :: "phase \<Rightarrow> string" where
  "phase_str ph =
     (if ph = BootstrapI then ''BootstrapII''
      else if ph = BootstrapII then ''BootstrapII''
      else if ph = Sync then ''Sync''
      else ''Runtime'')"

definition status_message :: "env \<Rightarrow> phase \<Rightarrow> sec_state \<Rightarrow> string" where
  "status_message E ph sec =
     ''Current Eclipse Monitor Status:'' @ [CHR 0x0A] @
     [CHR 0x09] @ ''Phase:                '' @ phase_str ph @ '';'' @ [CHR 0x0A] @
     [CHR 0x09] @ ''Genesis Hash:         '' @ hex_encode E (genesis_hash sec) @ '';'' @ [CHR 0x0A] @
     [CHR 0x09] @ ''Checkpoint Hash:      '' @ hex_encode E (checkpoint_hash sec) @ '';'' @ [CHR 0x0A] @
     [CHR 0x09] @ ''Checkpoint Iteration: '' @ to_string (checkpoint_iter sec) @ '';'' @ [CHR 0x0A]"

definition log_monitor_status :: "env \<Rightarrow> 'z enclave_prog" where
  "log_monitor_status E =
     bnd (ask (phase_at E)) (\<lambda>ph.
     bnd (ask (sec_state_at E)) (\<lambda>sec.
     log_msg Info mgr_logger (status_message E ph sec)))"

definition on_header_confirmed :: "env \<Rightarrow> header \<Rightarrow> 'z enclave_prog" where
  "on_header_confirmed E hdr =
     bnd (ask (sec_state_at E)) (\<lambda>sec.
     bnd (reads last_chkpt_iter) (\<lambda>last.
     bnd (if last \<noteq> checkpoint_iter sec then
            bnd (updates (\<lambda>w. w\<lparr>last_chkpt_iter := checkpoint_iter sec\<rparr>)) (\<lambda>_.
            bnd (ask (phase_at E)) (\<lambda>ph.
            case ph of
              BootstrapI \<Rightarrow> ret (checkpoint_iter sec mod 3 = 0)
            | _ \<Rightarrow> ret True))
          else ret False) (\<lambda>log_status.
     if log_status then log_monitor_status E else ret ())))"

definition append_block ::
    "'z monitor_update \<Rightarrow> 'z check_events \<Rightarrow> env \<Rightarrow> bytes \<Rightarrow> 'z enclave_prog" where
  "append_block upd chk E header_rlp =
     with_lock MonitorMutex (upd (on_header_validated chk E) (on_header_confirmed E) header_rlp)"

section \<open>What the monitor may do\<close>

text \<open>
  The two library routines that call back. They reach the state of this process only by running
  the closures they were given, and steps of their own, which are visible as \<open>MonitorStepped\<close> in
  the history that \<open>env\<close> answers from. An exception of a closure ends the routine, or is swallowed
  when the flag of the call says so; at the end the routine may throw on its own account. Which
  calls are made may depend on everything.
\<close>

datatype monitor_act = StepsOnItsOwn nat | Validates bool header | Confirms bool header

definition swallow :: "bool \<Rightarrow> ('s, unit) prog \<Rightarrow> ('s, unit) prog" where
  "swallow b m = (if b then try_catch m (\<lambda>_. ret ()) else m)"

definition own_step :: "nat \<Rightarrow> ('z rt_scheme, unit) prog" where
  "own_step n = updates (\<lambda>w. w\<lparr>history := MonitorStepped n # history w\<rparr>)"

fun monitor_call :: "(header \<Rightarrow> 'z enclave_prog) \<Rightarrow> (header \<Rightarrow> 'z enclave_prog) \<Rightarrow> monitor_act \<Rightarrow> 'z enclave_prog" where
  "monitor_call v c (StepsOnItsOwn n) = own_step n"
| "monitor_call v c (Validates b hdr) = swallow b (v hdr)"
| "monitor_call v c (Confirms b hdr) = swallow b (c hdr)"

definition then_throws :: "string option \<Rightarrow> ('s, unit) prog" where
  "then_throws what = (case what of None \<Rightarrow> ret () | Some m \<Rightarrow> raise m)"

definition runs_callbacks :: "'z monitor_update \<Rightarrow> bool" where
  "runs_callbacks upd \<longleftrightarrow> (\<forall>v c rlp w. \<exists>calls what.
     upd v c rlp w = bnd (for_each calls (monitor_call v c)) (\<lambda>_. then_throws what) w)"

text \<open>\<open>CheckEvents\<close> runs closures of current listeners, on logs of the contract listened to.\<close>

datatype check_act = ChecksOnItsOwn nat | Fetches u64 | Invokes bool cb_id log_entry

definition log_matches :: "event_descr \<Rightarrow> log_entry \<Rightarrow> bool" where
  "log_matches d log \<longleftrightarrow> contract_addr log = ed_addr d \<and> take (length (ed_topics d)) (log_topics log) = ed_topics d"

type_synonym 'z listener_runner = "cb_id \<Rightarrow> callback \<Rightarrow> header \<Rightarrow> log_entry \<Rightarrow> 'z enclave_prog"

definition call_listener :: "'z listener_runner \<Rightarrow> header \<Rightarrow> cb_id \<Rightarrow> log_entry \<Rightarrow> 'z enclave_prog" where
  "call_listener run hdr i log = (\<lambda>w.
     case listeners (history w) i of
       None \<Rightarrow> (Inr (), w)
     | Some d \<Rightarrow> if log_matches d log then run i (ed_callback d) hdr log w else (Inr (), w))"

fun check_call :: "'z listener_runner \<Rightarrow> header \<Rightarrow> (u64 \<Rightarrow> ('z enclave_scheme, obj list) prog) \<Rightarrow>
    check_act \<Rightarrow> 'z enclave_prog" where
  "check_call run hdr getter (ChecksOnItsOwn n) = own_step n"
| "check_call run hdr getter (Fetches n) = bnd (getter n) (\<lambda>_. ret ())"
| "check_call run hdr getter (Invokes b i log) = swallow b (call_listener run hdr i log)"

definition runs_listeners :: "'z listener_runner \<Rightarrow> 'z check_events \<Rightarrow> bool" where
  "runs_listeners run chk \<longleftrightarrow> (\<forall>hdr getter w. \<exists>calls what.
     chk hdr getter w = bnd (for_each calls (check_call run hdr getter)) (\<lambda>_. then_throws what) w)"

section \<open>How the methods run\<close>

lemma on_header_confirmed_run:
  "on_header_confirmed E hdr w =
     (let sec = sec_state_at E (history w); ph = phase_at E (history w);
          u = w\<lparr>last_chkpt_iter := checkpoint_iter sec\<rparr>
      in if last_chkpt_iter w = checkpoint_iter sec then (Inr (), w)
         else if ph = BootstrapI \<and> checkpoint_iter sec mod 3 \<noteq> 0 then (Inr (), u)
         else (Inr (), u\<lparr>history := Logged Info mgr_logger (status_message E ph sec) # history w\<rparr>))"
  by (auto simp: on_header_confirmed_def log_monitor_status_def prog_run Let_def split: phase.split)

lemma on_header_confirmed_iter:
  "last_chkpt_iter (snd (on_header_confirmed E hdr w)) = checkpoint_iter (sec_state_at E (history w))"
  by (simp add: on_header_confirmed_run Let_def)

definition plan_is_refreshed :: "env \<Rightarrow> header \<Rightarrow> history \<Rightarrow> bool" where
  "plan_is_refreshed E hdr h \<longleftrightarrow>
     phase_at E h = BootstrapI \<and> number hdr = bootstrap_end_at E h \<or> phase_at E h = BootstrapII"

definition receipts_getter :: "env \<Rightarrow> u64 \<Rightarrow> ('z enclave_scheme, obj list) prog" where
  "receipts_getter E = (\<lambda>blk_num. bnd (get_receipts_rlp_by_num E blk_num) (\<lambda>rlp. bnd (lib (as_list E rlp)) (\<lambda>receipts.
       bnd (lib (receipts_mgr E receipts)) (\<lambda>_. ret receipts))))"

lemma on_header_validated_alt:
  "on_header_validated chk E hdr =
     bnd (updates (\<lambda>w. w\<lparr>last_validated_blk_num := raw_number hdr\<rparr>)) (\<lambda>_.
     bnd (chk hdr (receipts_getter E)) (\<lambda>_.
     bnd (ask (plan_is_refreshed E hdr)) (\<lambda>refresh.
     if refresh then bnd (get_latest_block_num E) (\<lambda>latest. refresh_bootstrap_plan E latest None)
     else ret ())))"
proof -
  have pointwise: "bnd (ask (phase_at E)) (\<lambda>ph.
     case ph of
       BootstrapI \<Rightarrow>
         bnd (ask (bootstrap_end_at E)) (\<lambda>end_num.
         if number hdr = end_num then
           bnd (get_latest_block_num E) (\<lambda>latest. refresh_bootstrap_plan E latest None)
         else ret ())
     | BootstrapII \<Rightarrow>
         bnd (get_latest_block_num E) (\<lambda>latest. refresh_bootstrap_plan E latest None)
     | _ \<Rightarrow> ret ()) w =
    bnd (ask (plan_is_refreshed E hdr)) (\<lambda>refresh.
     if refresh then bnd (get_latest_block_num E) (\<lambda>latest. refresh_bootstrap_plan E latest None)
     else ret ()) w" for w :: "'a enclave_scheme"
    by (auto simp: bnd_run ask_run plan_is_refreshed_def split: phase.split)
  show ?thesis
    unfolding on_header_validated_def receipts_getter_def ext [OF pointwise] by (rule refl)
qed

lemma balanced_own_step [balanced_rules]: "balanced (own_step n)"
  by (simp add: own_step_def balanced_updates)

lemma balanced_swallow [balanced_rules]: "balanced m \<Longrightarrow> balanced (swallow b m)"
  by (simp add: swallow_def balanced_rules)

lemma balanced_then_throws [balanced_rules]: "balanced (then_throws what)"
  by (simp add: then_throws_def balanced_rules split: option.split)

lemma balanced_call_listener [balanced_rules]:
  "(\<And>c log. balanced (run i c hdr log)) \<Longrightarrow> balanced (call_listener run hdr i log)"
  by (auto simp: balanced_def guar_def call_listener_def split: option.split)

lemma balanced_check_call:
  "(\<And>i c log. balanced (run i c hdr log)) \<Longrightarrow> (\<And>n. balanced (getter n)) \<Longrightarrow>
     balanced (check_call run hdr getter call)"
  by (cases call) (auto intro!: balanced_rules)

lemma balanced_runs_listeners:
  assumes chk: "runs_listeners run chk" and run: "\<And>i c log. balanced (run i c hdr log)"
    and getter: "\<And>n. balanced (getter n)"
  shows "balanced (chk hdr getter)"
  unfolding balanced_def
proof (rule guarI)
  fix s r t
  assume "chk hdr getter s = (r, t)"
  moreover obtain calls what where "chk hdr getter s =
      bnd (for_each calls (check_call run hdr getter)) (\<lambda>_. then_throws what) s"
    using chk unfolding runs_listeners_def by blast
  moreover have "balanced (check_call run hdr getter call)" for call
    using run getter by (rule balanced_check_call)
  ultimately show "held t = held s"
    by (metis balancedD balanced_comb(1,3) balanced_then_throws)
qed

lemma balanced_refresh [balanced_rules]: "balanced (refresh_bootstrap_plan E n s)"
  by (simp add: refresh_bootstrap_plan_def balanced_rules)

lemma balanced_receipts_getter [balanced_rules]: "balanced (receipts_getter E n)"
  unfolding receipts_getter_def by (intro balanced_rules)

lemma balanced_on_header_validated:
  assumes "balanced (chk hdr (receipts_getter E))"
  shows "balanced (on_header_validated chk E hdr)"
  unfolding on_header_validated_alt by (intro balanced_rules assms) (auto intro!: balanced_rules)

lemma balanced_on_header_confirmed: "balanced (on_header_confirmed E hdr)"
  unfolding on_header_confirmed_def log_monitor_status_def
  by (intro balanced_rules) (auto intro!: balanced_rules split: phase.split)

lemma balanced_runs_callbacks:
  assumes upd: "runs_callbacks upd" and v: "\<And>hdr. balanced (v hdr)" and c: "\<And>hdr. balanced (c hdr)"
  shows "balanced (upd v c rlp)"
  unfolding balanced_def
proof (rule guarI)
  fix s r t
  assume "upd v c rlp s = (r, t)"
  moreover obtain calls what where "upd v c rlp s =
      bnd (for_each calls (monitor_call v c)) (\<lambda>_. then_throws what) s"
    using upd unfolding runs_callbacks_def by blast
  moreover have "balanced (monitor_call v c call)" for call
    using v c by (cases call) (auto intro!: balanced_rules)
  ultimately show "held t = held s"
    by (metis balancedD balanced_comb(1,3) balanced_then_throws)
qed

text \<open>The monitor's mutex, and every other, is given back when a block has been processed, however
the monitor, its callbacks and the listeners end.\<close>

lemma append_block_returns_locks:
  assumes "runs_callbacks upd" "runs_listeners run chk"
    and "\<And>i c hdr log. balanced (run i c hdr log)"
  shows "held (snd (append_block upd chk E header_rlp w)) = held w"
proof -
  have "balanced (chk hdr (receipts_getter E))" for hdr
    using assms(2,3) by (rule balanced_runs_listeners) (rule balanced_receipts_getter)
  then have "balanced (on_header_validated chk E hdr)" for hdr
    by (rule balanced_on_header_validated)
  from balanced_runs_callbacks [OF assms(1) this balanced_on_header_confirmed]
  have "balanced (append_block upd chk E header_rlp)"
    unfolding append_block_def by (rule balanced_with_lock)
  then show ?thesis by (auto simp: balanced_def guar_def)
qed

section \<open>A concrete manager\<close>

text \<open>A thread that holds no mutex, on the service of \<open>example_store\<close>, after block 7.\<close>

definition example_enclave :: enclave where
  "example_enclave =
     \<lparr>held = {}, evqs = [[[[4], [5, 6]]]], recqs = [],
      history = [Listened (build_notify_past_event_descr (replicate 20 2) example_store) 0],
      svc = example_store, last_chkpt_iter = 5, last_validated_blk_num = [7]\<rparr>"

lemma example_enclave_wf [simp]:
  "held example_enclave = {}" "past_refs_valid example_enclave" "past_refs_distinct example_enclave"
  by (simp_all add: example_enclave_def example_store_def past_refs_valid_def past_refs_distinct_def
      pubsub_service_store_def)

lemma example_enclave_simps [simp]:
  "evqs example_enclave = [[[[4], [5, 6]]]]" "recqs example_enclave = []"
  "history example_enclave = [Listened (build_notify_past_event_descr (replicate 20 2) example_store) 0]"
  "ev_mgr_addr_map (svc example_enclave) = [replicate 20 1 \<mapsto> replicate 20 2]"
  "past_event_store (svc example_enclave) = [replicate 20 2 \<mapsto> 0]"
  by (simp_all add: example_enclave_def example_store_def)

text \<open>The status message tells two phases of the monitor apart unless they are the two bootstrap
phases, which it reports under one name.\<close>

lemma status_phase_ambiguous:
  "status_message E ph sec = status_message E ph' sec \<longleftrightarrow>
     ph = ph' \<or> ph \<in> {BootstrapI, BootstrapII} \<and> ph' \<in> {BootstrapI, BootstrapII}"
  by (cases ph; cases ph') (simp_all add: status_message_def phase_str_def)

section \<open>Properties\<close>

definition confirms_or_steps :: "monitor_act \<Rightarrow> bool" where
  "confirms_or_steps a \<longleftrightarrow> (case a of Validates b hdr \<Rightarrow> False | _ \<Rightarrow> True)"

definition status_logs :: "history \<Rightarrow> nat" where
  "status_logs h = length (filter (\<lambda>c. \<exists>m. c = Logged Info mgr_logger m) h)"

lemma status_logs_simps [simp]:
  "status_logs (MonitorStepped n # h) = status_logs h"
  "status_logs (Logged Info mgr_logger m # h) = Suc (status_logs h)"
  by (simp_all add: status_logs_def)

lemma settled_confirms:
  assumes "\<And>h. checkpoint_iter (sec_state_at E h) = k" "last_chkpt_iter w = k"
    and "list_all confirms_or_steps acts"
  shows "\<exists>t. for_each acts (monitor_call v (on_header_confirmed E)) w = (Inr (), t) \<and>
    status_logs (history t) = status_logs (history w)"
  using assms(2,3)
proof (induction acts arbitrary: w)
  case Nil
  then show ?case by simp
next
  case (Cons a acts)
  have "\<exists>u. monitor_call v (on_header_confirmed E) a w = (Inr (), u) \<and> last_chkpt_iter u = k \<and>
      status_logs (history u) = status_logs (history w)"
    using Cons.prems assms(1)
    by (cases a) (auto simp: confirms_or_steps_def own_step_def swallow_def on_header_confirmed_run Let_def)
  then obtain u where u: "monitor_call v (on_header_confirmed E) a w = (Inr (), u)" "last_chkpt_iter u = k"
      "status_logs (history u) = status_logs (history w)" by blast
  with Cons.IH [OF u(2)] Cons.prems(2) show ?case by auto
qed

text \<open>While the checkpoint iteration of the monitor stays the same, any sequence of confirmed
headers, with steps of the monitor between them, logs the status once at the most.\<close>

theorem status_logged_once:
  assumes "\<And>h. checkpoint_iter (sec_state_at E h) = k" "list_all confirms_or_steps acts"
  shows "\<exists>t. for_each acts (monitor_call v (on_header_confirmed E)) w = (Inr (), t) \<and>
    status_logs (history t) \<le> Suc (status_logs (history w))"
  using assms(2)
proof (induction acts arbitrary: w)
  case Nil
  then show ?case by simp
next
  case (Cons a acts)
  show ?case
  proof (cases a)
    case (StepsOnItsOwn n)
    with Cons.IH [of "w\<lparr>history := MonitorStepped n # history w\<rparr>"] Cons.prems show ?thesis
      by (simp add: own_step_def)
  next
    case (Validates b hdr)
    with Cons.prems show ?thesis by (simp add: confirms_or_steps_def)
  next
    case (Confirms b hdr)
    have "\<exists>u. monitor_call v (on_header_confirmed E) a w = (Inr (), u) \<and> last_chkpt_iter u = k \<and>
        status_logs (history u) \<le> Suc (status_logs (history w))"
      using Confirms assms(1) by (cases b) (auto simp: swallow_def on_header_confirmed_run try_catch_def Let_def)
    then obtain u where u: "monitor_call v (on_header_confirmed E) a w = (Inr (), u)"
        "last_chkpt_iter u = k" "status_logs (history u) \<le> Suc (status_logs (history w))" by blast
    obtain t where "for_each acts (monitor_call v (on_header_confirmed E)) u = (Inr (), t)"
        "status_logs (history t) = status_logs (history u)"
      using settled_confirms [OF assms(1) u(2)] Cons.prems by auto
    with u show ?thesis by auto
  qed
qed

theorem status_logged_once_witness:
  "\<exists>t. for_each [Confirms False example_header, StepsOnItsOwn 1, Confirms False example_header]
      (monitor_call (\<lambda>_. ret ()) (on_header_confirmed example_env)) example_enclave = (Inr (), t) \<and>
    status_logs (history t) \<le> Suc (status_logs (history example_enclave))"
  by (rule status_logged_once [where k = 6]) (simp_all add: confirms_or_steps_def)

text \<open>A header is validated: its number is recorded and the events are checked, and then, provided
the check and the two host calls do not throw, the bootstrap plan is refreshed, to the latest block
number of the host and without a start block, exactly at the end of the first bootstrap phase and on
every block of the second.\<close>

theorem validated_header_refreshes:
  assumes "chk hdr (receipts_getter E) (w\<lparr>last_validated_blk_num := raw_number hdr\<rparr>) = (Inr (), u)"
    and "ocall_latest_at E (history u) = (status, retval, latest)" "check_sgx E status retval = Inr ()"
    and "refresh_at E (LatestFetched # history u) latest None = Inr ()"
  shows "on_header_validated chk E hdr w =
    (Inr (), if phase_at E (history u) = BootstrapI \<and> number hdr = bootstrap_end_at E (history u) \<or>
                phase_at E (history u) = BootstrapII
             then u\<lparr>history := PlanRefreshed latest None # LatestFetched # history u\<rparr> else u)"
  using assms
  by (simp add: on_header_validated_alt prog_run plan_is_refreshed_def refresh_bootstrap_plan_def)

theorem validated_header_refreshes_witness:
  "history (snd (on_header_validated (\<lambda>hdr getter. own_step 4) example_env
      (example_header\<lparr>number := 100\<rparr>) example_enclave)) =
    PlanRefreshed 120 None # LatestFetched # MonitorStepped 4 # history example_enclave"
proof -
  let ?chk = "\<lambda>hdr getter. own_step 4" and ?hdr = "example_header\<lparr>number := 100\<rparr>"
  let ?u = "example_enclave\<lparr>last_validated_blk_num := [7], history := MonitorStepped 4 # history example_enclave\<rparr>"
  have "on_header_validated ?chk example_env ?hdr example_enclave =
    (Inr (), if phase_at example_env (history ?u) = BootstrapI \<and>
                number ?hdr = bootstrap_end_at example_env (history ?u) \<or>
                phase_at example_env (history ?u) = BootstrapII
             then ?u\<lparr>history := PlanRefreshed 120 None # LatestFetched # history ?u\<rparr> else ?u)"
    by (rule validated_header_refreshes [where status = SGX_SUCCESS and retval = SGX_SUCCESS])
      (simp_all add: own_step_def example_header_def)
  then show ?thesis by simp
qed

lemma manager_rejected:
  assumes "blockchain_mgr E config start_num sync_addr sync_sign st w = (Inl e, u)"
  shows "(\<exists>what. e = Raised what) \<and> listeners (history u) = listeners (history w) \<and> (\<exists>h. u = w\<lparr>history := h\<rparr>)"
  using assms
  by (cases w) (auto simp: blockchain_mgr_def prog_run refresh_bootstrap_plan_def start_service_def listen_def
      of_lib_def split: sum.splits prod.splits)

text \<open>C29: constructing the manager, whatever the monitor, the host and the event manager answer, either
returns, and then it has fetched the host's latest block number once, given the monitor a plan from the
configured block up to that number, and added exactly one listener, for the deployment of the configured
contract, with the service in the state it was given; or it throws and has added no listener and changed
nothing else.\<close>

theorem manager_constructed:
  assumes "blockchain_mgr E config start_num sync_addr sync_sign st w = (r, u)"
  defines "created \<equiv> MonitorCreated config sync_addr (keccak256 E sync_sign)"
  shows "r = Inr () \<and>
      (\<exists>status retval latest i. ocall_latest_at E (created # history w) = (status, retval, latest) \<and>
        u = w\<lparr>last_chkpt_iter := 0, svc := st, last_validated_blk_num := [],
          history := Listened \<lparr>ed_addr = pubsub_cont_addr st,
              ed_topics = [deploy_ev_topic st, address_to_abi_address (pubsub_cont_addr st)],
              ed_callback = CbDeploy\<rparr> i #
            PlanRefreshed latest (Some start_num) # LatestFetched # created # history w\<rparr>) \<or>
    (\<exists>what. r = Inl (Raised what)) \<and> listeners (history u) = listeners (history w) \<and>
      (\<exists>h. u = w\<lparr>history := h\<rparr>)"
proof (cases r)
  case (Inl e)
  with manager_rejected assms(1) show ?thesis by simp
next
  case (Inr x)
  with assms(1) show ?thesis unfolding created_def
    by (auto simp: blockchain_mgr_def prog_run refresh_bootstrap_plan_def start_service_def listen_def
        build_deploy_event_descr_def of_lib_def split: sum.splits prod.splits)
qed

theorem manager_constructed_witness:
  "\<exists>i. listeners (history (snd (blockchain_mgr example_env [] 8 [] ''s'' example_store
     (example_enclave\<lparr>history := []\<rparr>)))) = [i \<mapsto> build_deploy_event_descr example_store]"
proof -
  let ?run = "blockchain_mgr example_env [] 8 [] ''s'' example_store (example_enclave\<lparr>history := []\<rparr>)"
  have "fst ?run = Inr ()"
    by (simp add: blockchain_mgr_def prog_run refresh_bootstrap_plan_def start_service_def listen_def)
  then obtain u where run: "?run = (Inr (), u)" by (metis prod.collapse)
  from manager_constructed [OF run] obtain latest i where
      "u = example_enclave\<lparr>last_chkpt_iter := 0, svc := example_store, last_validated_blk_num := [],
         history := [Listened (build_deploy_event_descr example_store) i, PlanRefreshed latest (Some 8),
           LatestFetched, MonitorCreated [] [] (keccak256 example_env ''s'')]\<rparr>"
    by (auto simp: build_deploy_event_descr_def)
  with run show ?thesis by (intro exI [of _ i]) simp
qed

end
