(* ===== verification/SubscriberHandler.thy ===== *)
theory SubscriberHandler
  imports BlockchainMgr
begin

text \<open>
  Trusted/Pubsub/SubscriberHandler.hpp: the handler that queues the events of one subscription, the
  heartbeat emitter that sends the queue, and the handler of a subscription request.

  A socket is passed by reference to the request handler, which moves it into the emitter when it
  succeeds: the result says what is left in the caller's pointer. The arguments of
  \<^verbatim>\<open>BuildEmittedMsg(...)\<close> are evaluated from left to right here; C++ leaves their order open, and
  \<open>HandlerSteps\<close> shows that it makes no difference.
\<close>

definition notify_event_handler ::
    "env \<Rightarrow> qref \<Rightarrow> string \<Rightarrow> header \<Rightarrow> log_entry \<Rightarrow> ('z rt_scheme, unit) prog" where
  "notify_event_handler E q logger hdr log =
     bnd (lib (abi_bytes E (log_data log))) (\<lambda>(ev_msg, _).
     bnd (event_queue_push q [raw_number hdr, ev_msg]) (\<lambda>_.
     log_msg Debug logger (''Emit an event at block #'' @ to_string (number hdr))))"

definition build_notify_event_descr :: "env \<Rightarrow> bytes \<Rightarrow> bytes \<Rightarrow> qref \<Rightarrow> event_descr" where
  "build_notify_event_descr E ev_mgr_addr notify_topic q =
     \<lparr>ed_addr = ev_mgr_addr, ed_topics = [notify_topic],
      ed_callback = CbNotify q (''Event Manager @'' @ hex_encode E ev_mgr_addr)\<rparr>"

definition emitted_dict :: "bytes \<Rightarrow> bytes \<Rightarrow> event_data_queue \<Rightarrow> obj" where
  "emitted_dict sec blk_num evs =
     ODict [''SecState'' \<mapsto> OBytes sec,
            ''LatestBlkNum'' \<mapsto> OBytes blk_num,
            ''Events'' \<mapsto> OList (map event_data_obj evs)]"

definition build_emitted_msg :: "env \<Rightarrow> bytes \<Rightarrow> bytes \<Rightarrow> event_data_queue \<Rightarrow> bytes lib" where
  "build_emitted_msg E sec blk_num evs = rlp_write E (emitted_dict sec blk_num evs)"

definition emitter_handler :: "env \<Rightarrow> sock \<Rightarrow> qref \<Rightarrow> cb_id \<Rightarrow> 'z enclave_prog" where
  "emitter_handler E s q listen_id =
     try_catch
       (bnd (event_queue_drain q) (\<lambda>out.
        bnd (get_monitor_sec_state E) (\<lambda>sec.
        bnd (lib (rlp_write_sec E sec)) (\<lambda>sec_rlp.
        bnd get_last_validated_blk_num (\<lambda>blk_num.
        bnd (lib (build_emitted_msg E sec_rlp blk_num out)) (\<lambda>msg.
        sized_send E s msg))))))
       (\<lambda>what. bnd (cancel E listen_id) (\<lambda>_. raise what))"

section \<open>The subscription request\<close>

definition subreq_logger :: string where
  "subreq_logger = ''DecentEthereum::Trusted::PubSub::SubReq''"

text \<open>The parts of \<^verbatim>\<open>SubReq\<close> as the source numbers them.\<close>

definition subreq_lookup :: "env \<Rightarrow> bytes \<Rightarrow> ('z enclave_scheme, bytes \<times> bytes) prog" where
  "subreq_lookup E msg =
     bnd (lib (rlp_parse E msg)) (\<lambda>content.
     bnd (lib (dict_at E content ''publisher'')) (\<lambda>pub_obj.
     bnd (lib (as_bytes E pub_obj)) (\<lambda>pub_addr.
     bnd (get_event_mgr_addr pub_addr) (\<lambda>ev_mgr_addr.
     ret (pub_addr, ev_mgr_addr)))))"

definition subreq_listen :: "env \<Rightarrow> bytes \<Rightarrow> ('z enclave_scheme, qref \<times> cb_id) prog" where
  "subreq_listen E ev_mgr_addr =
     bnd (log_msg Debug subreq_logger (''Subscribing to event manager @'' @ hex_encode E ev_mgr_addr)) (\<lambda>_.
     bnd new_event_queue (\<lambda>q.
     bnd get_notify_event_topic (\<lambda>topic.
     bnd (listen E (build_notify_event_descr E ev_mgr_addr topic q)) (\<lambda>listen_id.
     ret (q, listen_id)))))"

definition subreq_respond :: "env \<Rightarrow> sock \<Rightarrow> bytes \<Rightarrow> 'z enclave_prog" where
  "subreq_respond E s ev_mgr_addr =
     bnd (get_monitor_sec_state E) (\<lambda>sec.
     bnd (lib (rlp_write_sec E sec)) (\<lambda>sec_rlp.
     bnd get_last_validated_blk_num (\<lambda>blk_num.
     bnd (get_past_events ev_mgr_addr) (\<lambda>past.
     bnd (lib (build_emitted_msg E sec_rlp blk_num past)) (\<lambda>msg.
     sized_send E s msg)))))"

definition sub_req :: "env \<Rightarrow> sock \<Rightarrow> bytes \<Rightarrow> ('z enclave_scheme, sock option) prog" where
  "sub_req E s msg =
     bnd (subreq_lookup E msg) (\<lambda>(pub_addr, ev_mgr_addr).
     if ev_mgr_addr = zero_addr then
       bnd (log_msg Error subreq_logger
              (''Failed to find the event manager for publisher @'' @ hex_encode E pub_addr)) (\<lambda>_.
       ret (Some s))
     else
       bnd (subreq_listen E ev_mgr_addr) (\<lambda>(q, listen_id).
       bnd (subreq_respond E s ev_mgr_addr) (\<lambda>_.
       bnd (add_emitter E (EventEmitter s q listen_id)) (\<lambda>_.
       bnd (log_msg Debug subreq_logger ''Received a subscribe request'') (\<lambda>_.
       ret None)))))"

section \<open>How the emitter runs\<close>

lemma notify_event_handler_run:
  assumes "abi_bytes E (log_data log) = Inr (msg, rest)" "held w \<subseteq> {MonitorMutex}" "q < length (evqs w)"
  shows "notify_event_handler E q logger hdr log w =
    (Inr (), w\<lparr>evqs := (evqs w)[q := evqs w ! q @ [[raw_number hdr, msg]]],
       history := Logged Debug logger (''Emit an event at block #'' @ to_string (number hdr)) # history w\<rparr>)"
  using assms by (simp add: notify_event_handler_def prog_run)

lemma get_monitor_sec_state_run [prog_run]:
  "MonitorMutex \<notin> held w \<Longrightarrow> get_monitor_sec_state E w = (Inr (sec_state_at E (history w)), w)"
  by (simp add: get_monitor_sec_state_def prog_run)

lemma get_last_validated_blk_num_run [prog_run]:
  "MonitorMutex \<notin> held w \<Longrightarrow> get_last_validated_blk_num w = (Inr (last_validated_blk_num w), w)"
  by (simp add: get_last_validated_blk_num_def prog_run)

text \<open>The message made of a queue's content in a given state.\<close>

definition emitted_msg :: "env \<Rightarrow> event_data_queue \<Rightarrow> 'z enclave_scheme \<Rightarrow> bytes lib" where
  "emitted_msg E evs w =
     (case rlp_write_sec E (sec_state_at E (history w)) of
        Inl e \<Rightarrow> Inl e
      | Inr sec \<Rightarrow> build_emitted_msg E sec (last_validated_blk_num w) evs)"

text \<open>What \<open>emitter_handler\<close> does after the queue is drained, when something has thrown.\<close>

definition gives_up :: "env \<Rightarrow> cb_id \<Rightarrow> string \<Rightarrow> ('z rt_scheme, unit) prog" where
  "gives_up E i what = bnd (cancel E i) (\<lambda>_. raise what)"

lemma gives_up_run:
  "gives_up E i what w =
     (case cancel_at E (history w) i of
        Inr _ \<Rightarrow> (Inl (Raised what), w\<lparr>history := Cancelled i # history w\<rparr>)
      | Inl m \<Rightarrow> (Inl (Raised m), w\<lparr>history := Refused m # history w\<rparr>))"
  by (simp add: gives_up_def prog_run cancel_def split: sum.split)

lemma emitter_handler_run:
  assumes "MonitorMutex \<notin> held w" "event_queue_usable w q"
  defines "u \<equiv> w\<lparr>evqs := (evqs w)[q := []]\<rparr>"
  shows "emitter_handler E s q i w =
    (case emitted_msg E (evqs w ! q) w of
       Inl e \<Rightarrow> gives_up E i e u
     | Inr m \<Rightarrow>
         (case send_at E (history w) s m of
            Inr _ \<Rightarrow> (Inr (), u\<lparr>history := Sent s m # history w\<rparr>)
          | Inl e \<Rightarrow> gives_up E i e (u\<lparr>history := Refused e # history w\<rparr>)))"
  using assms(1,2)
  by (auto simp: emitter_handler_def prog_run event_queue_usable_def u_def emitted_msg_def gives_up_def
      sized_send_def split: sum.split)

lemma gives_up_frame:
  "gives_up E i e w = (r, t) \<Longrightarrow> messages s (history t) = messages s (history w)"
  by (auto simp: gives_up_run split: sum.splits)

text \<open>\<open>carries_events E m evs\<close>: the message is the encoding of a dictionary whose events are \<open>evs\<close>.\<close>

definition carries_events :: "env \<Rightarrow> bytes \<Rightarrow> event_data_queue \<Rightarrow> bool" where
  "carries_events E m evs \<longleftrightarrow>
     (\<exists>sec blk_num. rlp_write E (emitted_dict sec blk_num evs) = Inr m)"

lemma emitted_msg_carries: "emitted_msg E evs w = Inr m \<Longrightarrow> carries_events E m evs"
  by (auto simp: emitted_msg_def build_emitted_msg_def carries_events_def split: sum.splits)

text \<open>An outside in which messages can be written and sent.\<close>

definition sends_well :: "env \<Rightarrow> sock \<Rightarrow> bool" where
  "sends_well E s \<longleftrightarrow> (\<forall>sec. \<exists>b. rlp_write_sec E sec = Inr b) \<and> (\<forall>v. \<exists>b. rlp_write E v = Inr b) \<and>
     (\<forall>h m. send_at E h s m = Inr ())"

lemma sends_wellD:
  "sends_well E s \<Longrightarrow> rlp_write_sec E sec \<noteq> Inl e" "sends_well E s \<Longrightarrow> rlp_write E v \<noteq> Inl e"
  "sends_well E s \<Longrightarrow> send_at E h s m = Inr ()"
  unfolding sends_well_def by (metis Inl_Inr_False)+

lemma emitted_msg_well: "sends_well E s \<Longrightarrow> emitted_msg E evs w \<noteq> Inl e"
  by (auto simp: emitted_msg_def build_emitted_msg_def sends_wellD split: sum.split)

interpretation event_emitter: queue_emitter event_queue_usable event_queue_contents
    event_queue_push event_queue_drain "\<lambda>w. held w = {}" "\<lambda>w. messages s (history w)"
    "carries_events E" q "emitter_handler E s q i" "sends_well E s" for E s q i
proof
  fix w t :: "'z enclave_scheme" and p x r
  assume push: "event_queue_push p x w = (r, t)"
  have "balanced (event_queue_push p x)" by (rule balanced_queues)
  with push have "held t = held w" by (rule balancedD [rotated])
  moreover have "history t = history w"
    using push by (auto simp: event_queue_push_def with_lock_def bnd_def event_queue_at_def
        set_event_queue_def split: if_splits)
  ultimately show "messages s (history t) = messages s (history w) \<and> (held t = {}) = (held w = {})"
    by simp
next
  fix w t :: "'z enclave_scheme"
  assume idle: "held w = {}" and usable: "event_queue_usable w q"
  then have q: "q < length (evqs w)" by (simp add: event_queue_usable_def)
  {
    assume "emitter_handler E s q i w = (Inr (), t)"
    with idle usable obtain m where "emitted_msg E (evqs w ! q) w = Inr m"
        "t = w\<lparr>evqs := (evqs w)[q := []], history := Sent s m # history w\<rparr>"
      by (auto simp: emitter_handler_run gives_up_run split: sum.splits)
    with idle q show "held t = {} \<and> event_queue_usable t = event_queue_usable w
        \<and> event_queue_contents t = (event_queue_contents w)(q := [])
        \<and> (\<exists>m. messages s (history t) = messages s (history w) @ [m]
          \<and> carries_events E m (event_queue_contents w q))"
      by (auto simp: event_queue_usable_def event_queue_contents_def fun_eq_iff nth_list_update
          emitted_msg_carries)
  next
    fix e
    assume "emitter_handler E s q i w = (Inl e, t)"
    with idle usable show "messages s (history t) = messages s (history w) \<and> \<not> sends_well E s"
      by (auto simp: emitter_handler_run emitted_msg_well sends_wellD split: sum.splits
          dest!: gives_up_frame [where s = s])
  }
qed

section \<open>How a subscription request runs\<close>

definition publisher_of :: "env \<Rightarrow> bytes \<Rightarrow> bytes lib" where
  "publisher_of E msg =
     (case rlp_parse E msg of
        Inl e \<Rightarrow> Inl e
      | Inr content \<Rightarrow>
          (case dict_at E content ''publisher'' of Inl e \<Rightarrow> Inl e | Inr v \<Rightarrow> as_bytes E v))"

definition event_mgr_of :: "pubsub_store \<Rightarrow> bytes \<Rightarrow> bytes" where
  "event_mgr_of st p = (case ev_mgr_addr_map st p of None \<Rightarrow> zero_addr | Some a \<Rightarrow> a)"

lemma subreq_lookup_run [prog_run]:
  "held w = {} \<Longrightarrow> subreq_lookup E msg w =
     (map_sum id (\<lambda>p. (p, event_mgr_of (svc w) p)) (of_lib (publisher_of E msg)), w)"
  by (auto simp: subreq_lookup_def publisher_of_def event_mgr_of_def prog_run split: sum.split)

definition subscribing_log :: "env \<Rightarrow> bytes \<Rightarrow> ext_call" where
  "subscribing_log E a = Logged Debug subreq_logger (''Subscribing to event manager @'' @ hex_encode E a)"

lemma subreq_listen_run [prog_run]:
  "subreq_listen E a w =
     (let d = build_notify_event_descr E a (notify_ev_topic (svc w)) (length (evqs w));
          h = subscribing_log E a # history w; u = w\<lparr>evqs := evqs w @ [[]]\<rparr>
      in case listen_at E h d of
           Inl e \<Rightarrow> (Inl (Raised e), u\<lparr>history := Refused e # h\<rparr>)
         | Inr i \<Rightarrow> (Inr (length (evqs w), i), u\<lparr>history := Listened d i # h\<rparr>))"
  by (simp add: subreq_listen_def subscribing_log_def prog_run listen_def Let_def split: sum.split)

lemma subreq_respond_run [prog_run]:
  "held w = {} \<Longrightarrow> past_refs_valid w \<Longrightarrow>
     subreq_respond E s a w =
       (case emitted_msg E (past_events w a) w of
          Inl e \<Rightarrow> (Inl (Raised e), w)
        | Inr m \<Rightarrow> sized_send E s m w)"
  by (auto simp: subreq_respond_def prog_run emitted_msg_def split: sum.split)

lemma past_history [simp]:
  "past_events (w\<lparr>history := h\<rparr>) = past_events w"
  "past_refs_valid (w\<lparr>history := h\<rparr>) = past_refs_valid w"
  by (simp_all add: past_events_def past_refs_valid_def fun_eq_iff split: option.split)

lemma past_new_queue [simp]:
  assumes "past_refs_valid w"
  shows "past_refs_valid (w\<lparr>evqs := evqs w @ qs\<rparr>)"
    and "past_events (w\<lparr>evqs := evqs w @ qs\<rparr>) = past_events w"
  using assms
  by (auto simp: past_refs_valid_def past_events_def nth_append fun_eq_iff split: option.split
      intro: trans_less_add1)

lemma balanced_handler [balanced_rules]:
  "balanced (get_monitor_sec_state E)" "balanced get_last_validated_blk_num"
  "balanced (notify_event_handler E q logger hdr log)" "balanced (emitter_handler E s q i)"
  unfolding get_monitor_sec_state_def get_last_validated_blk_num_def notify_event_handler_def
    emitter_handler_def
  by (auto intro!: balanced_rules split: prod.split)

lemma balanced_sub_req [balanced_rules]:
  "balanced (subreq_lookup E msg)" "balanced (subreq_listen E a)" "balanced (subreq_respond E s a)"
  "balanced (sub_req E s msg)"
  unfolding subreq_lookup_def subreq_listen_def subreq_respond_def sub_req_def
  by (auto intro!: balanced_rules split: prod.split)

text \<open>A subscription to a publisher without an event manager only writes an error to the log: no
listener, no queue, no emitter, nothing sent, and the caller keeps its socket.\<close>

lemma unknown_publisher_refused:
  assumes "publisher_of E msg = Inr pub" "held w = {}" "ev_mgr_addr_map (svc w) pub = None"
  shows "sub_req E s msg w =
    (Inr (Some s), w\<lparr>history := Logged Error subreq_logger
       (''Failed to find the event manager for publisher @'' @ hex_encode E pub) # history w\<rparr>)"
  using assms by (simp add: sub_req_def prog_run event_mgr_of_def)

lemma example_publisher_of: "publisher_of example_env msg = Inr msg"
  by (simp add: publisher_of_def)

section \<open>Properties\<close>

text \<open>C18: a subscription to a registered publisher is answered with the past events of its manager, at
the state of the monitor, and leaves a new empty queue that both the new listener for the manager's
notify events and the new heartbeat emitter of the caller's socket refer to; the service and all
other queues are as before, and the caller's socket is gone into the emitter.\<close>

theorem subscription_accepted:
  fixes w :: "'z enclave_scheme" and i :: cb_id
  assumes "publisher_of E msg = Inr pub" "held w = {}" "past_refs_valid w"
    and "ev_mgr_addr_map (svc w) pub = Some a" "a \<noteq> zero_addr"
  defines "q \<equiv> length (evqs w)"
  defines "d \<equiv> build_notify_event_descr E a (notify_ev_topic (svc w)) q"
  defines "h \<equiv> Listened d i # subscribing_log E a # history w"
  assumes "listen_at E (subscribing_log E a # history w) d = Inr i"
    and "rlp_write_sec E (sec_state_at E h) = Inr sec"
    and "rlp_write E (emitted_dict sec (last_validated_blk_num w) (past_events w a)) = Inr m"
    and "send_at E h s m = Inr ()" "emitter_at E (Sent s m # h) (EventEmitter s q i) = Inr ()"
  shows "sub_req E s msg w = (Inr None, w\<lparr>evqs := evqs w @ [[]], history :=
    Logged Debug subreq_logger ''Received a subscribe request'' #
    EmitterAdded (EventEmitter s q i) # Sent s m # h\<rparr>)"
  using assms
  by (simp add: sub_req_def prog_run event_mgr_of_def emitted_msg_def build_emitted_msg_def Let_def)

theorem subscription_accepted_witness:
  "fst (sub_req example_env 3 (replicate 20 1) example_enclave) = Inr None \<and>
   messages 3 (history (snd (sub_req example_env 3 (replicate 20 1) example_enclave))) = [[9]]"
proof -
  have "zero_addr \<noteq> replicate 20 2" by (simp add: zero_addr_def)
  then show ?thesis
    by (subst (1 2) subscription_accepted [where a = "replicate 20 2" and i = 1 and m = "[9]" and sec = "[8]",
        OF example_publisher_of])
      (simp_all add: example_enclave_wf,
       simp_all add: example_env_def example_enclave_def subscribing_log_def)
qed

text \<open>C32: when the reply to an accepted subscription cannot be sent, the request fails and the listener
that was registered for it stays registered, with no emitter to empty its queue: nothing cancels it.\<close>

theorem failed_reply_keeps_listener:
  fixes w :: "'z enclave_scheme" and i :: cb_id
  assumes "publisher_of E msg = Inr pub" "held w = {}" "past_refs_valid w"
    and "ev_mgr_addr_map (svc w) pub = Some a" "a \<noteq> zero_addr"
  defines "q \<equiv> length (evqs w)"
  defines "d \<equiv> build_notify_event_descr E a (notify_ev_topic (svc w)) q"
  defines "h \<equiv> Listened d i # subscribing_log E a # history w"
  assumes "listen_at E (subscribing_log E a # history w) d = Inr i"
    and "rlp_write_sec E (sec_state_at E h) = Inr sec"
    and "rlp_write E (emitted_dict sec (last_validated_blk_num w) (past_events w a)) = Inr m"
    and "send_at E h s m = Inl e"
  shows "\<exists>u. sub_req E s msg w = (Inl (Raised e), u) \<and> listeners (history u) i = Some d
    \<and> history u = Refused e # h"
  using assms
  by (simp add: sub_req_def prog_run event_mgr_of_def emitted_msg_def build_emitted_msg_def Let_def
      sized_send_def)

theorem failed_reply_keeps_listener_witness:
  "\<exists>u d. sub_req (example_env\<lparr>send_at := \<lambda>h s m. Inl ''closed''\<rparr>) 3 (replicate 20 1) example_enclave
      = (Inl (Raised ''closed''), u) \<and> listeners (history u) 1 = Some d"
proof -
  let ?E = "example_env\<lparr>send_at := \<lambda>h s m. Inl ''closed''\<rparr>"
  have "publisher_of ?E (replicate 20 1) = Inr (replicate 20 1)"
    by (simp add: publisher_of_def example_env_def)
  moreover have "replicate 20 2 \<noteq> zero_addr" by (simp add: zero_addr_def)
  ultimately show ?thesis
    using failed_reply_keeps_listener [of ?E "replicate 20 1" "replicate 20 1" example_enclave
        "replicate 20 2" 1 "[8]" "[9]" 3 "''closed''"]
    by (simp add: example_enclave_wf)
      (simp add: example_env_def example_enclave_def subscribing_log_def, blast)
qed

text \<open>C10: however the block thread's appends and the heartbeats interleave, every heartbeat sends one
message, and it carries exactly the events put into the queue since the heartbeat before (\<open>batches\<close>), in
order; what came after the last heartbeat is in the queue. So each event is sent once, in the message of
the first heartbeat after it. The stream ends at a heartbeat that fails, which needs a message that cannot
be written or sent; the messages until then are those of the heartbeats before.\<close>

theorem event_stream_exact:
  assumes "held w = {}" "event_queue_usable w q"
    and "\<And>p x. Feed p x \<in> set ops \<Longrightarrow> event_queue_usable w p"
    and "feed_run event_queue_push (emitter_handler E s q i) ops w = (r, t)"
  defines "due \<equiv> batches q (event_queue_contents w q) ops"
  shows "event_queue_contents w q @ feeds_to q ops = concat due @ unsent q (event_queue_contents w q) ops \<and>
    length due = length (filter (\<lambda>op. op = Beat) ops) \<and>
    (\<exists>ms. messages s (history t) = messages s (history w) @ ms \<and>
      list_all2 (carries_events E) ms (take (length ms) due) \<and>
      (r = Inr () \<longrightarrow> length ms = length due \<and> event_queue_contents t q = unsent q (event_queue_contents w q) ops) \<and>
      (r \<noteq> Inr () \<longrightarrow> length ms < length due \<and> \<not> sends_well E s))"
  unfolding due_def batches_all [symmetric] batches_length
  using event_emitter.stream_of_beats [OF assms(1-4)] by (simp add: batches_length)

text \<open>C31: a heartbeat that fails sends nothing, cancels the listener of its subscription and passes the
exception on; the events it had taken from the queue are in no queue any more.\<close>

theorem failed_beat_cancels:
  assumes "held w = {}" "event_queue_usable w q" "\<And>h. cancel_at E h i = Inr ()"
    and "emitter_handler E s q i w = (Inl e, t)"
  shows "listeners (history t) = (listeners (history w))(i := None) \<and>
    messages s (history t) = messages s (history w) \<and> (\<exists>what. e = Raised what) \<and>
    event_queue_contents t = (event_queue_contents w)(q := [])"
  using assms
  by (auto simp: emitter_handler_run gives_up_run event_queue_contents_def event_queue_usable_def fun_eq_iff
      nth_list_update split: sum.splits)

lemma example_event_queue: "event_queue_usable example_enclave 0"
    "event_queue_contents example_enclave 0 = [[[4], [5, 6]]]"
  by (simp_all add: example_enclave_def event_queue_usable_def event_queue_contents_def)

text \<open>Two events around a heartbeat: the message carries the one before and the first one.\<close>

theorem event_stream_exact_witness:
  "\<exists>t m. feed_run event_queue_push (emitter_handler example_env 3 0 0)
      [Feed 0 [[8]], Beat, Feed 0 [[9]]] example_enclave = (Inr (), t) \<and>
    messages 3 (history t) = [m] \<and> carries_events example_env m [[[4], [5, 6]], [[8]]] \<and>
    event_queue_contents t 0 = [[[9]]]"
proof -
  let ?ops = "[Feed 0 [[8]], Beat, Feed 0 [[9 :: byte]]] :: event_data feed_op list"
  obtain r t where run: "feed_run event_queue_push (emitter_handler example_env 3 0 0) ?ops example_enclave = (r, t)"
    by fastforce
  have well: "sends_well example_env 3" by (simp add: sends_well_def)
  have feeds: "event_queue_usable example_enclave p" if "Feed p x \<in> set ?ops" for p x
    using that example_event_queue(1) by auto
  let ?due = "batches 0 (event_queue_contents example_enclave 0) ?ops"
  have "\<exists>ms. messages 3 (history t) = messages 3 (history example_enclave) @ ms \<and>
      list_all2 (carries_events example_env) ms (take (length ms) ?due) \<and>
      (r = Inr () \<longrightarrow> length ms = length ?due \<and>
        event_queue_contents t 0 = unsent 0 (event_queue_contents example_enclave 0) ?ops) \<and>
      (r \<noteq> Inr () \<longrightarrow> length ms < length ?due \<and> \<not> sends_well example_env 3)"
    using event_stream_exact [OF example_enclave_wf(1) example_event_queue(1) _ run] feeds by blast
  then obtain ms where ms: "messages 3 (history t) = messages 3 (history example_enclave) @ ms"
      "list_all2 (carries_events example_env) ms (take (length ms) [[[[4], [5, 6]], [[8]]]])"
      "r = Inr ()" "length ms = 1" "event_queue_contents t 0 = [[[9]]]"
    using well by (auto simp: example_event_queue)
  then obtain m where "ms = [m]" by (cases ms) auto
  with run ms show ?thesis by auto
qed

theorem failed_beat_cancels_witness:
  "\<exists>t. emitter_handler (example_env\<lparr>send_at := \<lambda>h s m. Inl ''closed''\<rparr>) 3 0 0 example_enclave
      = (Inl (Raised ''closed''), t) \<and> listeners (history t) 0 = None"
proof -
  let ?E = "example_env\<lparr>send_at := \<lambda>h s m. Inl ''closed''\<rparr>"
  let ?t = "snd (emitter_handler ?E 3 0 0 example_enclave)"
  have run: "emitter_handler ?E 3 0 0 example_enclave = (Inl (Raised ''closed''), ?t)"
    by (simp add: emitter_handler_run example_event_queue emitted_msg_def build_emitted_msg_def
        gives_up_run)
  have "\<And>h. cancel_at ?E h 0 = Inr ()" by simp
  from failed_beat_cancels [OF example_enclave_wf(1) example_event_queue(1) this run] run
  show ?thesis by auto
qed

end
