(* ===== verification/ReceiptSubscriber.thy ===== *)
theory ReceiptSubscriber
  imports SubscriberHandler
begin

text \<open>
  Trusted/ReceiptSubscriber.hpp: subscriptions to the receipts of any contract. The event handler
  copies a log entry into the queue of the subscription, the emitter sends the queue with each
  heartbeat, and the request handler checks the contract address and the topics it was given.
\<close>

definition receipt_obj :: "header \<Rightarrow> log_entry \<Rightarrow> obj" where
  "receipt_obj hdr log =
     OList [OBytes (raw_number hdr), OList (map OBytes (log_topics log)), OBytes (log_data log)]"

definition subscribed_receipt_handler ::
    "qref \<Rightarrow> string \<Rightarrow> header \<Rightarrow> log_entry \<Rightarrow> ('z rt_scheme, unit) prog" where
  "subscribed_receipt_handler q logger hdr log =
     bnd (receipt_queue_push q (receipt_obj hdr log)) (\<lambda>_.
     log_msg Debug logger (''Emit an event at block #'' @ to_string (number hdr)))"

definition build_subscribed_event_descr :: "env \<Rightarrow> bytes \<Rightarrow> bytes list \<Rightarrow> qref \<Rightarrow> event_descr" where
  "build_subscribed_event_descr E cont_addr topics q =
     \<lparr>ed_addr = cont_addr, ed_topics = topics,
      ed_callback = CbReceipt q (''Receipt from '' @ hex_encode E cont_addr)\<rparr>"

definition receipts_dict :: "bytes \<Rightarrow> bytes \<Rightarrow> obj list \<Rightarrow> obj" where
  "receipts_dict sec blk_num recs =
     ODict [''SecState'' \<mapsto> OBytes sec,
            ''LatestBlkNum'' \<mapsto> OBytes blk_num,
            ''Receipts'' \<mapsto> OList recs]"

definition subscribed_receipt_emitter :: "env \<Rightarrow> sock \<Rightarrow> qref \<Rightarrow> cb_id \<Rightarrow> 'z enclave_prog" where
  "subscribed_receipt_emitter E s q listen_id =
     try_catch
       (bnd (receipt_queue_drain q) (\<lambda>out.
        bnd (get_monitor_sec_state E) (\<lambda>sec.
        bnd (lib (rlp_write_sec E sec)) (\<lambda>sec_rlp.
        bnd get_last_validated_blk_num (\<lambda>blk_num.
        bnd (lib (rlp_write E (receipts_dict sec_rlp blk_num out))) (\<lambda>msg.
        sized_send E s msg))))))
       (\<lambda>what. bnd (cancel E listen_id) (\<lambda>_. raise what))"

section \<open>The subscription request\<close>

definition receipt_logger :: string where
  "receipt_logger = ''DecentEthereum::Trusted::ReceiptSubReq''"

text \<open>The loop over the topics: \<open>None\<close> is its early return on a topic of the wrong length.\<close>

fun read_topics :: "env \<Rightarrow> obj list \<Rightarrow> bytes list option lib" where
  "read_topics E [] = Inr (Some [])"
| "read_topics E (t # ts) =
     (case as_bytes E t of
        Inl e \<Rightarrow> Inl e
      | Inr topic \<Rightarrow>
          if length topic \<noteq> 32 then Inr None
          else (case read_topics E ts of
                  Inl e \<Rightarrow> Inl e
                | Inr None \<Rightarrow> Inr None
                | Inr (Some topics) \<Rightarrow> Inr (Some (topic # topics))))"

definition receipt_sub_req :: "env \<Rightarrow> sock \<Rightarrow> bytes \<Rightarrow> ('z enclave_scheme, sock option) prog" where
  "receipt_sub_req E s msg =
     bnd (lib (rlp_parse E msg)) (\<lambda>content.
     bnd (lib (dict_at E content ''contract'')) (\<lambda>con_obj.
     bnd (lib (as_bytes E con_obj)) (\<lambda>con_addr.
     if length con_addr \<noteq> 20 then
       bnd (log_msg Error receipt_logger ''The length of the given contract address is invalid'') (\<lambda>_.
       ret (Some s))
     else
       bnd (lib (dict_at E content ''topics'')) (\<lambda>topics_obj.
       bnd (lib (as_list E topics_obj)) (\<lambda>topic_objs.
       bnd (lib (read_topics E topic_objs)) (\<lambda>read.
       case read of
         None \<Rightarrow>
           bnd (log_msg Error receipt_logger ''The length of the given topic is invalid'') (\<lambda>_.
           ret (Some s))
       | Some topics \<Rightarrow>
           bnd (log_msg Debug receipt_logger
                  (''Subscribing to receipts from contract @'' @ hex_encode E con_addr)) (\<lambda>_.
           bnd new_receipt_queue (\<lambda>q.
           bnd (listen E (build_subscribed_event_descr E con_addr topics q)) (\<lambda>listen_id.
           bnd (add_emitter E (ReceiptEmitter s q listen_id)) (\<lambda>_.
           bnd (log_msg Debug receipt_logger ''Received a subscribe request'') (\<lambda>_.
           ret None)))))))))))"

section \<open>How the emitter runs\<close>

lemma subscribed_receipt_handler_run:
  assumes "held w \<subseteq> {MonitorMutex}" "q < length (recqs w)"
  shows "subscribed_receipt_handler q logger hdr log w =
    (Inr (), w\<lparr>recqs := (recqs w)[q := recqs w ! q @ [receipt_obj hdr log]],
       history := Logged Debug logger (''Emit an event at block #'' @ to_string (number hdr)) # history w\<rparr>)"
  using assms by (simp add: subscribed_receipt_handler_def prog_run)

definition receipts_msg :: "env \<Rightarrow> obj list \<Rightarrow> 'z enclave_scheme \<Rightarrow> bytes lib" where
  "receipts_msg E recs w =
     (case rlp_write_sec E (sec_state_at E (history w)) of
        Inl e \<Rightarrow> Inl e
      | Inr sec \<Rightarrow> rlp_write E (receipts_dict sec (last_validated_blk_num w) recs))"

lemma subscribed_receipt_emitter_run:
  assumes "MonitorMutex \<notin> held w" "receipt_queue_usable w q"
  defines "u \<equiv> w\<lparr>recqs := (recqs w)[q := []]\<rparr>"
  shows "subscribed_receipt_emitter E s q i w =
    (case receipts_msg E (recqs w ! q) w of
       Inl e \<Rightarrow> gives_up E i e u
     | Inr m \<Rightarrow>
         (case send_at E (history w) s m of
            Inr _ \<Rightarrow> (Inr (), u\<lparr>history := Sent s m # history w\<rparr>)
          | Inl e \<Rightarrow> gives_up E i e (u\<lparr>history := Refused e # history w\<rparr>)))"
  using assms(1,2)
  by (auto simp: subscribed_receipt_emitter_def prog_run receipt_queue_usable_def u_def receipts_msg_def
      gives_up_def sized_send_def split: sum.split)

definition carries_receipts :: "env \<Rightarrow> bytes \<Rightarrow> obj list \<Rightarrow> bool" where
  "carries_receipts E m recs \<longleftrightarrow>
     (\<exists>sec blk_num. rlp_write E (receipts_dict sec blk_num recs) = Inr m)"

lemma receipts_msg_carries: "receipts_msg E recs w = Inr m \<Longrightarrow> carries_receipts E m recs"
  by (auto simp: receipts_msg_def carries_receipts_def split: sum.splits)

lemma receipts_msg_well: "sends_well E s \<Longrightarrow> receipts_msg E recs w \<noteq> Inl e"
  by (auto simp: receipts_msg_def sends_wellD split: sum.split)

interpretation receipt_emitter: queue_emitter receipt_queue_usable receipt_queue_contents
    receipt_queue_push receipt_queue_drain "\<lambda>w. held w = {}" "\<lambda>w. messages s (history w)"
    "carries_receipts E" q "subscribed_receipt_emitter E s q i" "sends_well E s" for E s q i
proof
  fix w t :: "'z enclave_scheme" and p x r
  assume push: "receipt_queue_push p x w = (r, t)"
  have "balanced (receipt_queue_push p x)" by (rule balanced_queues)
  with push have "held t = held w" by (rule balancedD [rotated])
  moreover have "history t = history w"
    using push by (auto simp: receipt_queue_push_def with_lock_def bnd_def receipt_queue_at_def
        set_receipt_queue_def split: if_splits)
  ultimately show "messages s (history t) = messages s (history w) \<and> (held t = {}) = (held w = {})"
    by simp
next
  fix w t :: "'z enclave_scheme"
  assume idle: "held w = {}" and usable: "receipt_queue_usable w q"
  then have q: "q < length (recqs w)" by (simp add: receipt_queue_usable_def)
  {
    assume "subscribed_receipt_emitter E s q i w = (Inr (), t)"
    with idle usable obtain m where "receipts_msg E (recqs w ! q) w = Inr m"
        "t = w\<lparr>recqs := (recqs w)[q := []], history := Sent s m # history w\<rparr>"
      by (auto simp: subscribed_receipt_emitter_run gives_up_run split: sum.splits)
    with idle q show "held t = {} \<and> receipt_queue_usable t = receipt_queue_usable w
        \<and> receipt_queue_contents t = (receipt_queue_contents w)(q := [])
        \<and> (\<exists>m. messages s (history t) = messages s (history w) @ [m]
          \<and> carries_receipts E m (receipt_queue_contents w q))"
      by (auto simp: receipt_queue_usable_def receipt_queue_contents_def fun_eq_iff nth_list_update
          receipts_msg_carries)
  next
    fix e
    assume "subscribed_receipt_emitter E s q i w = (Inl e, t)"
    with idle usable show "messages s (history t) = messages s (history w) \<and> \<not> sends_well E s"
      by (auto simp: subscribed_receipt_emitter_run receipts_msg_well sends_wellD split: sum.splits
          dest!: gives_up_frame [where s = s])
  }
qed

section \<open>How a subscription request runs\<close>

lemma read_topics_Some_iff:
  "read_topics E ts = Inr (Some topics) \<longleftrightarrow>
     list_all2 (\<lambda>t topic. as_bytes E t = Inr topic \<and> length topic = 32) ts topics"
proof (induction ts arbitrary: topics)
  case Nil
  then show ?case by auto
next
  case (Cons t ts)
  show ?case
    by (auto simp: list_all2_Cons1 Cons.IH [symmetric] split: sum.splits option.splits)
qed

lemma read_topics_length: "read_topics E ts = Inr (Some topics) \<Longrightarrow> topic \<in> set topics \<Longrightarrow> length topic = 32"
  by (fastforce simp: read_topics_Some_iff list_all2_conv_all_nth in_set_conv_nth)

lemma read_topics_sized:
  assumes "list_all2 (\<lambda>t topic. as_bytes E t = Inr topic) ts topics"
  shows "read_topics E ts = Inr (if \<forall>topic \<in> set topics. length topic = 32 then Some topics else None)"
  using assms by (induction rule: list_all2_induct) auto

text \<open>The request as read: the contract address, and the topics or the early return on a bad one.\<close>

definition receipt_request :: "env \<Rightarrow> bytes \<Rightarrow> (bytes \<times> bytes list option) lib" where
  "receipt_request E msg =
     (case rlp_parse E msg of Inl e \<Rightarrow> Inl e | Inr content \<Rightarrow>
     (case dict_at E content ''contract'' of Inl e \<Rightarrow> Inl e | Inr con_obj \<Rightarrow>
     (case as_bytes E con_obj of Inl e \<Rightarrow> Inl e | Inr addr \<Rightarrow>
      if length addr \<noteq> 20 then Inr (addr, None) else
     (case dict_at E content ''topics'' of Inl e \<Rightarrow> Inl e | Inr topics_obj \<Rightarrow>
     (case as_list E topics_obj of Inl e \<Rightarrow> Inl e | Inr ts \<Rightarrow>
     (case read_topics E ts of Inl e \<Rightarrow> Inl e | Inr topics \<Rightarrow> Inr (addr, topics)))))))"

definition receipt_sub_listen :: "env \<Rightarrow> sock \<Rightarrow> bytes \<Rightarrow> bytes list \<Rightarrow> ('z enclave_scheme, sock option) prog" where
  "receipt_sub_listen E s addr topics =
     bnd (log_msg Debug receipt_logger (''Subscribing to receipts from contract @'' @ hex_encode E addr)) (\<lambda>_.
     bnd new_receipt_queue (\<lambda>q.
     bnd (listen E (build_subscribed_event_descr E addr topics q)) (\<lambda>listen_id.
     bnd (add_emitter E (ReceiptEmitter s q listen_id)) (\<lambda>_.
     bnd (log_msg Debug receipt_logger ''Received a subscribe request'') (\<lambda>_.
     ret None)))))"

lemma receipt_sub_req_run:
  "receipt_sub_req E s msg w =
     (case receipt_request E msg of
        Inl e \<Rightarrow> (Inl (Raised e), w)
      | Inr (addr, None) \<Rightarrow> (Inr (Some s), w\<lparr>history := Logged Error receipt_logger
          (if length addr \<noteq> 20 then ''The length of the given contract address is invalid''
           else ''The length of the given topic is invalid'') # history w\<rparr>)
      | Inr (addr, Some topics) \<Rightarrow> receipt_sub_listen E s addr topics w)"
  by (simp add: receipt_sub_req_def receipt_request_def receipt_sub_listen_def prog_run
      split: sum.split option.split)

lemma receipt_request_sized:
  assumes "receipt_request E msg = Inr (addr, Some topics)"
  shows "length addr = 20 \<and> (\<forall>topic \<in> set topics. length topic = 32)"
  using assms
  by (auto simp: receipt_request_def read_topics_length split: sum.splits if_splits)

lemma receipt_sub_listen_run:
  "receipt_sub_listen E s addr topics w =
     (let q = length (recqs w); d = build_subscribed_event_descr E addr topics q;
          h = Logged Debug receipt_logger (''Subscribing to receipts from contract @'' @ hex_encode E addr) # history w;
          u = w\<lparr>recqs := recqs w @ [[]]\<rparr>
      in case listen_at E h d of
           Inl e \<Rightarrow> (Inl (Raised e), u\<lparr>history := Refused e # h\<rparr>)
         | Inr i \<Rightarrow>
             (case emitter_at E (Listened d i # h) (ReceiptEmitter s q i) of
                Inl e \<Rightarrow> (Inl (Raised e), u\<lparr>history := Refused e # Listened d i # h\<rparr>)
              | Inr _ \<Rightarrow> (Inr None, u\<lparr>history :=
                  Logged Debug receipt_logger ''Received a subscribe request'' #
                  EmitterAdded (ReceiptEmitter s q i) # Listened d i # h\<rparr>)))"
  by (simp add: receipt_sub_listen_def prog_run listen_def add_emitter_def Let_def split: sum.split)

lemma balanced_receipt [balanced_rules]:
  "balanced (subscribed_receipt_handler q logger hdr log)" "balanced (subscribed_receipt_emitter E s q i)"
  "balanced (receipt_sub_req E s msg)"
  unfolding subscribed_receipt_handler_def subscribed_receipt_emitter_def receipt_sub_req_def
  by (auto intro!: balanced_rules split: option.split)

section \<open>Properties\<close>

text \<open>A request that is refused: an error is logged, nothing else happens, and the socket stays with the caller.\<close>

definition receipt_refused :: "sock \<Rightarrow> 'z enclave_scheme \<Rightarrow> sock option res \<Rightarrow> 'z enclave_scheme \<Rightarrow> bool" where
  "receipt_refused s w r u \<longleftrightarrow>
     r = Inr (Some s) \<and> (\<exists>what. u = w\<lparr>history := Logged Error receipt_logger what # history w\<rparr>)"

lemma receipt_request_checked:
  assumes "rlp_parse E msg = Inr content" "dict_at E content ''contract'' = Inr con_obj"
    and "as_bytes E con_obj = Inr addr" "length addr = 20"
    and "dict_at E content ''topics'' = Inr topics_obj" "as_list E topics_obj = Inr ts"
    and "list_all2 (\<lambda>t topic. as_bytes E t = Inr topic) ts topics"
  shows "receipt_request E msg =
    Inr (addr, if \<forall>topic \<in> set topics. length topic = 32 then Some topics else None)"
  using assms(1-6) read_topics_sized [OF assms(7)] by (simp add: receipt_request_def)

lemma receipt_listens_sized:
  assumes "receipt_sub_req E s msg w = (r, u)"
  shows "\<exists>new. history u = new @ history w \<and> (\<forall>d i. Listened d i \<in> set new \<longrightarrow>
    length (ed_addr d) = 20 \<and> (\<forall>topic \<in> set (ed_topics d). length topic = 32))"
proof (cases "\<exists>addr topics. receipt_request E msg = Inr (addr, Some topics)")
  case True
  then obtain addr topics where req: "receipt_request E msg = Inr (addr, Some topics)" by blast
  with assms have "receipt_sub_listen E s addr topics w = (r, u)" by (simp add: receipt_sub_req_run)
  with receipt_request_sized [OF req] show ?thesis
    by (auto simp: receipt_sub_listen_run Let_def build_subscribed_event_descr_def split: sum.splits)
next
  case False
  with assms show ?thesis by (auto simp: receipt_sub_req_run split: sum.splits option.splits)
qed

text \<open>C20: whatever a client sends, the listeners that a receipt request adds watch an address of 20 bytes
for topics of 32 bytes each. A contract address of another length, and a topic of another length in a
request that can be read, has the request refused: an error is logged, no listener, queue or emitter is
added, and the socket stays with the caller. With all lengths right the request is not refused.\<close>

theorem receipt_listeners_sized:
  assumes "receipt_sub_req E s msg w = (r, u)"
  shows "(\<exists>new. history u = new @ history w \<and> (\<forall>d i. Listened d i \<in> set new \<longrightarrow>
      length (ed_addr d) = 20 \<and> (\<forall>topic \<in> set (ed_topics d). length topic = 32))) \<and>
    (\<forall>content con_obj addr. rlp_parse E msg = Inr content \<longrightarrow> dict_at E content ''contract'' = Inr con_obj \<longrightarrow>
      as_bytes E con_obj = Inr addr \<longrightarrow>
      (length addr \<noteq> 20 \<longrightarrow> receipt_refused s w r u) \<and>
      (\<forall>topics_obj ts topics. length addr = 20 \<longrightarrow> dict_at E content ''topics'' = Inr topics_obj \<longrightarrow>
        as_list E topics_obj = Inr ts \<longrightarrow> list_all2 (\<lambda>t topic. as_bytes E t = Inr topic) ts topics \<longrightarrow>
        (receipt_refused s w r u \<longleftrightarrow> (\<exists>topic \<in> set topics. length topic \<noteq> 32))))"
proof (intro conjI allI impI)
  fix content con_obj addr
  assume req: "rlp_parse E msg = Inr content" "dict_at E content ''contract'' = Inr con_obj"
    "as_bytes E con_obj = Inr addr"
  show "receipt_refused s w r u" if "length addr \<noteq> 20"
    using assms req that by (auto simp: receipt_sub_req_run receipt_request_def receipt_refused_def)
  show "receipt_refused s w r u \<longleftrightarrow> (\<exists>topic \<in> set topics. length topic \<noteq> 32)"
    if "length addr = 20" "dict_at E content ''topics'' = Inr topics_obj" "as_list E topics_obj = Inr ts"
      "list_all2 (\<lambda>t topic. as_bytes E t = Inr topic) ts topics" for topics_obj ts topics
    using assms receipt_request_checked [OF req that]
    by (auto simp: receipt_sub_req_run receipt_sub_listen_run receipt_refused_def Let_def split: if_splits sum.splits)
qed (rule receipt_listens_sized [OF assms])

text \<open>C21: a well-formed receipt request is accepted: one listener for exactly the requested address and
topics, and one emitter, share a new empty queue; nothing is sent, and everything else is as before.\<close>

theorem receipt_subscription_accepted:
  fixes w :: "'z enclave_scheme" and i :: cb_id
  assumes "rlp_parse E msg = Inr content" "dict_at E content ''contract'' = Inr con_obj"
    and "as_bytes E con_obj = Inr addr" "length addr = 20"
    and "dict_at E content ''topics'' = Inr topics_obj" "as_list E topics_obj = Inr ts"
    and "list_all2 (\<lambda>t topic. as_bytes E t = Inr topic \<and> length topic = 32) ts topics"
  defines "d \<equiv> \<lparr>ed_addr = addr, ed_topics = topics,
      ed_callback = CbReceipt (length (recqs w)) (''Receipt from '' @ hex_encode E addr)\<rparr>"
  defines "h \<equiv> Logged Debug receipt_logger (''Subscribing to receipts from contract @'' @ hex_encode E addr) # history w"
  assumes "listen_at E h d = Inr i" "emitter_at E (Listened d i # h) (ReceiptEmitter s (length (recqs w)) i) = Inr ()"
  shows "receipt_sub_req E s msg w = (Inr None, w\<lparr>recqs := recqs w @ [[]], history :=
    Logged Debug receipt_logger ''Received a subscribe request'' #
    EmitterAdded (ReceiptEmitter s (length (recqs w)) i) # Listened d i # h\<rparr>)"
proof -
  have "receipt_request E msg = Inr (addr, Some topics)"
    using assms(1-6) read_topics_Some_iff [THEN iffD2, OF assms(7)]
    by (simp add: receipt_request_def)
  then show ?thesis
    using assms(8-)
    by (simp add: receipt_sub_req_run receipt_sub_listen_run Let_def build_subscribed_event_descr_def)
qed

theorem receipt_listeners_sized_witness:
  "\<exists>what. receipt_sub_req example_env 3 [1, 2] example_enclave =
     (Inr (Some 3), example_enclave\<lparr>history := Logged Error receipt_logger what # history example_enclave\<rparr>)"
proof -
  obtain r u where run: "receipt_sub_req example_env 3 [1, 2] example_enclave = (r, u)" by fastforce
  from receipt_listeners_sized [OF run] have "receipt_refused 3 example_enclave r u" by simp
  with run show ?thesis by (auto simp: receipt_refused_def)
qed

theorem receipt_subscription_accepted_witness:
  "\<exists>d i. receipt_sub_req example_env 3 (replicate 20 4) example_enclave
      = (Inr None, example_enclave\<lparr>recqs := [[]], history :=
        Logged Debug receipt_logger ''Received a subscribe request'' # EmitterAdded (ReceiptEmitter 3 0 i) #
        Listened d i # Logged Debug receipt_logger ''Subscribing to receipts from contract @hex'' #
        history example_enclave\<rparr>)"
  using receipt_subscription_accepted [of example_env "replicate 20 4"
      "ODict [''publisher'' \<mapsto> OBytes (replicate 20 4), ''contract'' \<mapsto> OBytes (replicate 20 4),
         ''topics'' \<mapsto> OList []]" "OBytes (replicate 20 4)" "replicate 20 4" "OList []" "[]" "[]"
      example_enclave _ 3]
  by auto

text \<open>C22: however the block thread's appends and the heartbeats interleave, every heartbeat sends one
message with exactly the receipts put into the queue since the heartbeat before, in order, so that each
receipt is sent once, by the first heartbeat after it; the later ones are in the queue. The stream ends at
a heartbeat that fails, which needs a message that cannot be written or sent.\<close>

theorem receipt_stream_exact:
  assumes "held w = {}" "receipt_queue_usable w q"
    and "\<And>p x. Feed p x \<in> set ops \<Longrightarrow> receipt_queue_usable w p"
    and "feed_run receipt_queue_push (subscribed_receipt_emitter E s q i) ops w = (r, t)"
  defines "due \<equiv> batches q (receipt_queue_contents w q) ops"
  shows "receipt_queue_contents w q @ feeds_to q ops = concat due @ unsent q (receipt_queue_contents w q) ops \<and>
    length due = length (filter (\<lambda>op. op = Beat) ops) \<and>
    (\<exists>ms. messages s (history t) = messages s (history w) @ ms \<and>
      list_all2 (carries_receipts E) ms (take (length ms) due) \<and>
      (r = Inr () \<longrightarrow> length ms = length due \<and> receipt_queue_contents t q = unsent q (receipt_queue_contents w q) ops) \<and>
      (r \<noteq> Inr () \<longrightarrow> length ms < length due \<and> \<not> sends_well E s))"
  unfolding due_def batches_all [symmetric] batches_length
  using receipt_emitter.stream_of_beats [OF assms(1-4)] by (simp add: batches_length)

text \<open>A receipt, and two heartbeats: the second message is empty.\<close>

theorem receipt_stream_exact_witness:
  "\<exists>t m m'. feed_run receipt_queue_push (subscribed_receipt_emitter example_env 3 0 0)
      [Feed 0 (OBytes [8]), Beat, Beat] (example_enclave\<lparr>recqs := [[]]\<rparr>) = (Inr (), t) \<and>
    messages 3 (history t) = [m, m'] \<and> carries_receipts example_env m [OBytes [8]] \<and>
    carries_receipts example_env m' []"
proof -
  let ?ops = "[Feed 0 (OBytes [8]), Beat, Beat] :: obj feed_op list"
  let ?w = "example_enclave\<lparr>recqs := [[]]\<rparr>"
  have usable: "receipt_queue_usable ?w 0" "receipt_queue_contents ?w 0 = []"
    by (simp_all add: receipt_queue_usable_def receipt_queue_contents_def)
  have well: "sends_well example_env 3" by (simp add: sends_well_def)
  obtain r t where run: "feed_run receipt_queue_push (subscribed_receipt_emitter example_env 3 0 0) ?ops ?w = (r, t)"
    by fastforce
  obtain ms where ms: "messages 3 (history t) = messages 3 (history ?w) @ ms"
      "list_all2 (carries_receipts example_env) ms (take (length ms) [[OBytes [8]], []])" "r = Inr ()" "length ms = 2"
    using receipt_stream_exact [OF _ _ _ run] usable well by auto
  then obtain m m' where "ms = [m, m']" by (cases ms; cases "tl ms") auto
  with run ms show ?thesis by auto
qed

end
