(* ===== verification/Transaction.thy ===== *)
theory Transaction
  imports BlockchainMgr
begin

text \<open>
  \<^verbatim>\<open>Transaction::SendRaw\<close> of Trusted/Transaction.hpp: the content of the message is handed to the
  host as it is, and the hash the host answers with is logged; nothing is sent back.
\<close>

definition send_raw :: "env \<Rightarrow> bytes \<Rightarrow> 'z enclave_prog" where
  "send_raw E msg =
     bnd (send_raw_transaction E msg) (\<lambda>txn_hash.
     log_msg Info ''DecentEthereum::Trusted::Transaction::SendRaw''
       (''Transaction with hash: '' @ hex_encode E txn_hash @ '' sent''))"

text \<open>The bytes of the message go to the host unchanged, in one call; the request succeeds exactly
when the host reports success twice, and then logs the hash the host gave; the host's answer changes
nothing else.\<close>

theorem raw_transaction_forwarded:
  assumes "checks_sgx E" "ocall_send_at E (history w) msg = (status, retval, txn_hash)"
  shows "\<exists>r new. send_raw E msg w = (r, w\<lparr>history := new @ TransactionSent msg # history w\<rparr>) \<and>
    (status = SGX_SUCCESS \<and> retval = SGX_SUCCESS \<longrightarrow> r = Inr () \<and>
       new = [Logged Info ''DecentEthereum::Trusted::Transaction::SendRaw''
               (''Transaction with hash: '' @ hex_encode E txn_hash @ '' sent'')]) \<and>
    (\<not> (status = SGX_SUCCESS \<and> retval = SGX_SUCCESS) \<longrightarrow> (\<exists>e. r = Inl (Raised e)) \<and> new = [])"
proof (cases "status = SGX_SUCCESS \<and> retval = SGX_SUCCESS")
  case True
  with assms checks_sgxD [OF assms(1)] show ?thesis by (simp add: send_raw_def prog_run)
next
  case False
  then obtain e where "check_sgx E status retval = Inl e" using checks_sgx_throws [OF assms(1)] by blast
  with False assms show ?thesis by (auto simp: send_raw_def prog_run)
qed

theorem raw_transaction_forwarded_witness:
  "\<exists>r new. send_raw example_env [1, 2] example_enclave =
    (r, example_enclave\<lparr>history := new @ TransactionSent [1, 2] # history example_enclave\<rparr>) \<and> r = Inr ()"
proof -
  have "checks_sgx example_env" by (simp add: checks_sgx_def)
  moreover have "ocall_send_at example_env (history example_enclave) [1, 2]
      = (SGX_SUCCESS, SGX_SUCCESS, replicate 32 5)"
    by simp
  ultimately show ?thesis using raw_transaction_forwarded by blast
qed

lemma balanced_send_raw [balanced_rules]: "balanced (send_raw E msg)"
  unfolding send_raw_def by (intro balanced_rules)

end
