(* ===== verification/EnclaveMain.thy ===== *)
theory EnclaveMain
  imports SubscriberHandler ReceiptSubscriber Transaction
begin

text \<open>
  src/Trusted/Enclave.cpp: the process inside the enclave. \<open>invoke\<close> applies the closures that the
  components hand to the EventManager and \<open>run_emitter\<close> those they hand to the heartbeat; they are
  what the libraries call back. \<open>handle_message\<close> applies the closures registered for messages.
  The global \<^verbatim>\<open>g_blockchainMgr\<close> is null until \<open>init_enclave\<close> has built the manager (\<open>mgr_set\<close>); a
  handler that runs before dereferences a null pointer. The ECALLs turn exceptions into statuses.
\<close>

record process = enclave +
  mgr_set :: bool

section \<open>The closures\<close>

fun invoke :: "env \<Rightarrow> cb_id \<Rightarrow> callback \<Rightarrow> header \<Rightarrow> log_entry \<Rightarrow> ('z sub_world_scheme, unit) prog" where
  "invoke E i CbDeploy hdr log = deploy_event_handler E hdr i"
| "invoke E i CbReg hdr log = reg_event_handler E hdr log"
| "invoke E i CbNotifyPast hdr log = notify_past_event_handler E hdr log"
| "invoke E i (CbNotify q logger) hdr log = notify_event_handler E q logger hdr log"
| "invoke E i (CbReceipt q logger) hdr log = subscribed_receipt_handler q logger hdr log"

fun run_emitter :: "env \<Rightarrow> emitter \<Rightarrow> 'z enclave_prog" where
  "run_emitter E (EventEmitter s q i) = emitter_handler E s q i"
| "run_emitter E (ReceiptEmitter s q i) = subscribed_receipt_emitter E s q i"

section \<open>Message handlers\<close>

definition deref_mgr :: "('z process_scheme, 'a) prog \<Rightarrow> ('z process_scheme, 'a) prog" where
  "deref_mgr m = bnd (reads mgr_set) (\<lambda>ready. if ready then m else undef ''null g_blockchainMgr'')"

definition handle_pubsub_sub_req :: "env \<Rightarrow> sock \<Rightarrow> bytes \<Rightarrow> ('z process_scheme, sock option) prog" where
  "handle_pubsub_sub_req E s msg = deref_mgr (sub_req E s msg)"

definition handle_receipt_sub_req :: "env \<Rightarrow> sock \<Rightarrow> bytes \<Rightarrow> ('z process_scheme, sock option) prog" where
  "handle_receipt_sub_req E s msg = deref_mgr (receipt_sub_req E s msg)"

definition handle_send_raw :: "env \<Rightarrow> sock \<Rightarrow> bytes \<Rightarrow> ('z process_scheme, sock option) prog" where
  "handle_send_raw E s msg = deref_mgr (bnd (send_raw E msg) (\<lambda>_. ret (Some s)))"

fun handle_message :: "env \<Rightarrow> handler \<Rightarrow> sock \<Rightarrow> bytes \<Rightarrow> ('z process_scheme, sock option) prog" where
  "handle_message E PubsubSubHandler s msg = handle_pubsub_sub_req E s msg"
| "handle_message E ReceiptSubHandler s msg = handle_receipt_sub_req E s msg"
| "handle_message E SendRawHandler s msg = handle_send_raw E s msg"

section \<open>Initialisation\<close>

definition setup_step :: "env \<Rightarrow> string \<Rightarrow> ('z rt_scheme, unit) prog" where
  "setup_step E name = ext_result (\<lambda>h. setup_at E h name) (\<lambda>_. SetupDone name)"

definition register_handler :: "env \<Rightarrow> string \<Rightarrow> handler \<Rightarrow> ('z rt_scheme, unit) prog" where
  "register_handler E name f = ext_result (\<lambda>h. handler_at E h name f) (\<lambda>_. HandlerRegistered name f)"

definition global_initialization :: "env \<Rightarrow> ('z rt_scheme, unit) prog" where
  "global_initialization E =
     for_each [''MbedTlsInit'', ''DecentKey_Secp256r1'', ''DecentKey_Secp256k1'',
               ''DecentCert_Secp256r1'', ''DecentCert_Secp256k1''] (setup_step E)"

definition platform_print :: "log_level \<Rightarrow> string \<Rightarrow> ('z rt_scheme, unit) prog" where
  "platform_print l what = log_msg l ''Platform::Print'' what"

definition read_info :: "env \<Rightarrow> string \<Rightarrow> ('z rt_scheme, string) prog" where
  "read_info E name = ext_result (\<lambda>h. info_at E h name) (\<lambda>_. InfoRead name)"

definition print_my_info :: "env \<Rightarrow> ('z rt_scheme, unit) prog" where
  "print_my_info E =
     bnd (read_info E ''PlatformId::GetIdHex'') (\<lambda>platform_id.
     bnd (platform_print Info (''My platform ID is              : '' @ platform_id)) (\<lambda>_.
     bnd (read_info E ''EnclaveIdentity::GetSelfHashHex'') (\<lambda>self_hash.
     bnd (platform_print Info (''My enclave hash is             : '' @ self_hash)) (\<lambda>_.
     bnd (read_info E ''DecentKey_Secp256r1::GetKeySha256Hex'') (\<lambda>secp256r1_fp.
     bnd (read_info E ''DecentKey_Secp256k1::GetKeySha256Hex'') (\<lambda>secp256k1_fp.
     bnd (read_info E ''Keyring::GenHashHex'') (\<lambda>keyring_hash.
     bnd (platform_print Info (''My key fingerprint (SECP256R1) : '' @ secp256r1_fp)) (\<lambda>_.
     bnd (platform_print Info (''My key fingerprint (SECP256K1) : '' @ secp256k1_fp)) (\<lambda>_.
     platform_print Info (''My keyring hash is             : '' @ keyring_hash))))))))))"

definition request_app_cert :: "env \<Rightarrow> string \<Rightarrow> string \<Rightarrow> ('z rt_scheme, unit) prog" where
  "request_app_cert E cert_store key_name =
     bnd (ext_result (\<lambda>h. app_cert_at E h ''DecentServer'' key_name)
            (\<lambda>_. CertRequested ''DecentServer'' key_name)) (\<lambda>pem_chain.
     bnd (lib (x509_from_pem E pem_chain)) (\<lambda>cert.
     ext_result (\<lambda>h. cert_update_at E h cert_store cert) (\<lambda>_. CertUpdated cert_store cert)))"

definition init_enclave :: "env \<Rightarrow> bytes \<Rightarrow> u64 \<Rightarrow> bytes \<Rightarrow> string \<Rightarrow> bytes \<Rightarrow> ('z process_scheme, unit) prog" where
  "init_enclave E config start_blk_num sync_addr sync_sign pubsub_addr =
     bnd (global_initialization E) (\<lambda>_.
     bnd (print_my_info E) (\<lambda>_.
     bnd (request_app_cert E ''DecentCert_Secp256r1'' ''Secp256r1'') (\<lambda>_.
     bnd (request_app_cert E ''DecentCert_Secp256k1'' ''Secp256k1'') (\<lambda>_.
     bnd (blockchain_mgr E config start_blk_num sync_addr sync_sign
            (pubsub_service_store E pubsub_addr
               ''ServiceDeployed(address)''
               ''PublisherRegistered(address,address)''
               ''NotifySubscribers(bytes)'')) (\<lambda>_.
     bnd (updates (\<lambda>w. w\<lparr>mgr_set := True\<rparr>)) (\<lambda>_.
     bnd (setup_step E ''LambdaServerConfig'') (\<lambda>_.
     bnd (register_handler E ''PubSub.Subscribe'' PubsubSubHandler) (\<lambda>_.
     bnd (register_handler E ''Receipt.Subscribe'' ReceiptSubHandler) (\<lambda>_.
     register_handler E ''Transaction.SendRaw'' SendRawHandler)))))))))"

section \<open>ECALLs\<close>

definition recv_block :: "'z process_ext monitor_update \<Rightarrow> 'z process_ext check_events \<Rightarrow> env \<Rightarrow>
    bytes \<Rightarrow> ('z process_scheme, unit) prog" where
  "recv_block upd chk E hdr_rlp = deref_mgr (append_block upd chk E hdr_rlp)"

text \<open>\<open>try { ...; return SGX_SUCCESS; } catch (const std::exception& e) { print; return SGX_ERROR_UNEXPECTED; }\<close>\<close>

definition ecall :: "('z rt_scheme, unit) prog \<Rightarrow> ('z rt_scheme, sgx_status) prog" where
  "ecall m =
     try_catch (bnd m (\<lambda>_. ret SGX_SUCCESS))
       (\<lambda>what. bnd (platform_print Error what) (\<lambda>_. ret SGX_ERROR_UNEXPECTED))"

definition ecall_decent_ethereum_init :: "env \<Rightarrow> bytes \<Rightarrow> u64 \<Rightarrow> bytes \<Rightarrow> string \<Rightarrow> bytes \<Rightarrow>
    ('z process_scheme, sgx_status) prog" where
  "ecall_decent_ethereum_init E in_conf start_blk_num in_sync_addr in_sync_esign in_pubsub_addr =
     ecall
       (bnd (lib (parse_config E in_conf)) (\<lambda>config.
        bnd (lift_res (copy_to_array 0 20 in_sync_addr)) (\<lambda>sync_addr.
        bnd (lift_res (copy_to_array 0 20 in_pubsub_addr)) (\<lambda>pubsub_addr.
        init_enclave E config start_blk_num sync_addr in_sync_esign pubsub_addr))))"

definition ecall_decent_ethereum_recv_block :: "'z process_ext monitor_update \<Rightarrow>
    'z process_ext check_events \<Rightarrow> env \<Rightarrow> bytes \<Rightarrow> ('z process_scheme, sgx_status) prog" where
  "ecall_decent_ethereum_recv_block upd chk E hdr_rlp = ecall (recv_block upd chk E hdr_rlp)"

section \<open>Lock discipline of the closures\<close>

lemma balanced_invoke [balanced_rules]: "balanced (invoke E i c hdr log)"
  by (cases c) (auto intro!: balanced_rules)

lemma balanced_run_emitter [balanced_rules]: "balanced (run_emitter E e)"
  by (cases e) (auto intro!: balanced_rules)

section \<open>Handlers only after the manager\<close>

text \<open>\<open>ready\<close>: a message handler is registered only when the global manager is set. The steps before
the manager is set register none, those after keep it set.\<close>

definition mgr_ready :: "'z process_scheme \<Rightarrow> bool" where
  "mgr_ready w \<longleftrightarrow> (\<forall>name f. HandlerRegistered name f \<in> set (history w) \<longrightarrow> mgr_set w)"

definition no_handler_added :: "'z process_scheme \<Rightarrow> 'z process_scheme \<Rightarrow> bool" where
  "no_handler_added w u \<longleftrightarrow> mgr_set u = mgr_set w \<and>
     (\<forall>name f. HandlerRegistered name f \<in> set (history u) \<longrightarrow> HandlerRegistered name f \<in> set (history w))"

definition not_registration :: "ext_call \<Rightarrow> bool" where
  "not_registration c \<longleftrightarrow> (\<forall>name f. c \<noteq> HandlerRegistered name f)"

interpretation reg_frame: rt_frame no_handler_added not_registration
  by unfold_locales (auto simp: no_handler_added_def not_registration_def)

lemma no_handler_or_as_before:
  assumes "guar no_handler_added m"
  shows "guar no_handler_added (or_as_before m)"
proof (rule guarI)
  fix w r u
  assume run: "or_as_before m w = (r, u)"
  obtain q v where m: "m w = (q, v)" by fastforce
  have "no_handler_added w v" using assms m by (rule guarD)
  with run m show "no_handler_added w u"
    by (cases q) (auto simp: or_as_before_run no_handler_added_def)
qed

lemma no_handler_init:
  "guar no_handler_added (global_initialization E)" "guar no_handler_added (print_my_info E)"
  "guar no_handler_added (request_app_cert E cs key)"
  "guar no_handler_added (blockchain_mgr E config n a s st)"
  "guar no_handler_added (setup_step E name)"
  unfolding global_initialization_def print_my_info_def request_app_cert_def blockchain_mgr_def
    setup_step_def platform_print_def read_info_def start_service_def refresh_bootstrap_plan_def ext_defs
  by (intro no_handler_or_as_before reg_frame.guar_rt reg_frame.guar_ext_result reg_frame.guar_host reg_frame.guar_updates;
      simp add: not_registration_def no_handler_added_def)+

lemma mgr_ready_no_handler:
  "no_handler_added w u \<Longrightarrow> mgr_ready w \<Longrightarrow> mgr_ready u"
  by (auto simp: no_handler_added_def mgr_ready_def)

lemma init_registers:
  fixes w :: "'z process_scheme"
  assumes "init_enclave E config n a s p w = (r, u)" "mgr_ready w"
  shows "mgr_ready u \<and> (r = Inr () \<longrightarrow> mgr_set u \<and>
    {HandlerRegistered ''PubSub.Subscribe'' PubsubSubHandler,
     HandlerRegistered ''Receipt.Subscribe'' ReceiptSubHandler,
     HandlerRegistered ''Transaction.SendRaw'' SendRawHandler} \<subseteq> set (history u))"
proof -
  let ?st = "pubsub_service_store E p ''ServiceDeployed(address)''
      ''PublisherRegistered(address,address)'' ''NotifySubscribers(bytes)''"
  define prelude where "prelude = bnd (global_initialization E) (\<lambda>_. bnd (print_my_info E) (\<lambda>_.
     bnd (request_app_cert E ''DecentCert_Secp256r1'' ''Secp256r1'') (\<lambda>_.
     bnd (request_app_cert E ''DecentCert_Secp256k1'' ''Secp256k1'') (\<lambda>_.
     (blockchain_mgr E config n a s ?st :: ('z process_scheme, unit) prog)))))"
  define rest where "rest = bnd (setup_step E ''LambdaServerConfig'') (\<lambda>_.
     bnd (register_handler E ''PubSub.Subscribe'' PubsubSubHandler) (\<lambda>_.
     bnd (register_handler E ''Receipt.Subscribe'' ReceiptSubHandler) (\<lambda>_.
     (register_handler E ''Transaction.SendRaw'' SendRawHandler :: ('z process_scheme, unit) prog))))"
  have "guar no_handler_added prelude"
    unfolding prelude_def by (intro reg_frame.guar_bnd no_handler_init)
  note frame = this
  have "bnd prelude (\<lambda>_. bnd (updates (\<lambda>w. w\<lparr>mgr_set := True\<rparr>)) (\<lambda>_. rest)) w = (r, u)"
    using assms(1) by (simp add: init_enclave_def prelude_def rest_def bnd_assoc)
  then consider "\<exists>e. r = Inl e" "no_handler_added w u"
    | v where "no_handler_added w v" "rest (v\<lparr>mgr_set := True\<rparr>) = (r, u)"
  proof (cases rule: bnd_cases)
    case (fails e)
    with frame that(1) show thesis by (blast dest: guarD)
  next
    case (goes_on x t)
    with frame that(2) [of t] show thesis by (auto dest: guarD)
  qed
  then show ?thesis
  proof cases
    case 1
    with assms(2) mgr_ready_no_handler show ?thesis by auto
  next
    case 2
    then have "mgr_set u" "r = Inr () \<longrightarrow>
        {HandlerRegistered ''PubSub.Subscribe'' PubsubSubHandler,
         HandlerRegistered ''Receipt.Subscribe'' ReceiptSubHandler,
         HandlerRegistered ''Transaction.SendRaw'' SendRawHandler} \<subseteq> set (history u)"
      by (auto simp: rest_def prog_run setup_step_def register_handler_def split: sum.splits)
    then show ?thesis by (simp add: mgr_ready_def)
  qed
qed

section \<open>Properties\<close>

definition example_process :: process where
  "example_process =
     \<lparr>held = {}, evqs = [], recqs = [], history = [], svc = example_store, last_chkpt_iter = 0,
      last_validated_blk_num = [], mgr_set = False\<rparr>"

text \<open>C25: initialisation registers a message handler only once the global manager is set, so that no
registered handler ever dereferences a null manager; when it returns, all three are registered. This
holds however its steps fail.\<close>

theorem handlers_after_manager:
  assumes "init_enclave E config start_num sync_addr sync_sign pubsub_addr w = (r, u)"
    and "\<forall>name f. HandlerRegistered name f \<notin> set (history w)"
  shows "(\<forall>name f s msg. HandlerRegistered name f \<in> set (history u) \<longrightarrow>
      handle_message E f s msg u =
        (case f of
           PubsubSubHandler \<Rightarrow> sub_req E s msg u
         | ReceiptSubHandler \<Rightarrow> receipt_sub_req E s msg u
         | SendRawHandler \<Rightarrow> bnd (send_raw E msg) (\<lambda>_. ret (Some s)) u)) \<and>
    (r = Inr () \<longrightarrow>
      HandlerRegistered ''PubSub.Subscribe'' PubsubSubHandler \<in> set (history u) \<and>
      HandlerRegistered ''Receipt.Subscribe'' ReceiptSubHandler \<in> set (history u) \<and>
      HandlerRegistered ''Transaction.SendRaw'' SendRawHandler \<in> set (history u))"
proof -
  have "mgr_ready w" using assms(2) by (simp add: mgr_ready_def)
  note init = init_registers [OF assms(1) this]
  have "handle_message E f s msg u =
      (case f of
         PubsubSubHandler \<Rightarrow> sub_req E s msg u
       | ReceiptSubHandler \<Rightarrow> receipt_sub_req E s msg u
       | SendRawHandler \<Rightarrow> bnd (send_raw E msg) (\<lambda>_. ret (Some s)) u)"
    if "HandlerRegistered name f \<in> set (history u)" for name f s msg
    using init that
    by (cases f) (auto simp: mgr_ready_def handle_pubsub_sub_req_def handle_receipt_sub_req_def
        handle_send_raw_def deref_mgr_def bnd_run)
  with init show ?thesis by blast
qed

theorem handlers_after_manager_witness:
  "\<exists>r u. init_enclave example_env [1] 8 (replicate 20 1) ''s'' (replicate 20 2) example_process = (r, u) \<and>
    (\<forall>name f s msg. HandlerRegistered name f \<in> set (history u) \<longrightarrow>
      handle_message example_env f s msg u =
        (case f of
           PubsubSubHandler \<Rightarrow> sub_req example_env s msg u
         | ReceiptSubHandler \<Rightarrow> receipt_sub_req example_env s msg u
         | SendRawHandler \<Rightarrow> bnd (send_raw example_env msg) (\<lambda>_. ret (Some s)) u))"
proof -
  obtain r u where run: "init_enclave example_env [1] 8 (replicate 20 1) ''s'' (replicate 20 2) example_process = (r, u)"
    by fastforce
  from handlers_after_manager [OF run] run show ?thesis
    by (simp add: example_process_def)
qed

end
