(* ===== verification/CriticalSections.thy ===== *)
theory CriticalSections
  imports EnclaveMain
begin

text \<open>
  The methods of the enclave that touch shared state more than once, cut where another thread may run:
  each part below has one critical section or one call of a shared library object, and computes on what
  it has in its own hands otherwise. The lemmas show that the parts, one after another, are the methods
  as \<open>SubscriberService\<close>, \<open>SubscriberHandler\<close> and \<open>ReceiptSubscriber\<close> have them.
\<close>

section \<open>Sending a message\<close>

text \<open>
  What an emitter has taken from its queue, or a request has copied from the store; and the three arguments
  that \<^verbatim>\<open>BuildEmittedMsg\<close> is called with, of which some may not be read yet. C++ leaves open in which order
  the arguments of a call are evaluated.
\<close>

datatype load = Events event_data_queue | Receipts "obj list"

record msg_args =
  arg_sec :: bytes
  arg_num :: bytes
  arg_load :: load

datatype arg = ArgSec | ArgNum | ArgPast

definition unread :: "load \<Rightarrow> msg_args" where
  "unread load = \<lparr>arg_sec = [], arg_num = [], arg_load = load\<rparr>"

definition args_msg :: "env \<Rightarrow> msg_args \<Rightarrow> bytes lib" where
  "args_msg E m =
     (case arg_load m of
        Events evs \<Rightarrow> build_emitted_msg E (arg_sec m) (arg_num m) evs
      | Receipts recs \<Rightarrow> rlp_write E (receipts_dict (arg_sec m) (arg_num m) recs))"

definition sec_section :: "env \<Rightarrow> ('z enclave_scheme, bytes) prog" where
  "sec_section E = bnd (get_monitor_sec_state E) (\<lambda>sec. lib (rlp_write_sec E sec))"

fun read_section :: "env \<Rightarrow> bytes \<Rightarrow> arg \<Rightarrow> msg_args \<Rightarrow> ('z enclave_scheme, msg_args) prog" where
  "read_section E a ArgSec m = bnd (sec_section E) (\<lambda>sec. ret (m\<lparr>arg_sec := sec\<rparr>))"
| "read_section E a ArgNum m = bnd get_last_validated_blk_num (\<lambda>n. ret (m\<lparr>arg_num := n\<rparr>))"
| "read_section E a ArgPast m = bnd (get_past_events a) (\<lambda>past. ret (m\<lparr>arg_load := Events past\<rparr>))"

definition send_section :: "env \<Rightarrow> sock \<Rightarrow> msg_args \<Rightarrow> ('z rt_scheme, unit) prog" where
  "send_section E s m = bnd (lib (args_msg E m)) (sized_send E s)"

fun read_all :: "env \<Rightarrow> bytes \<Rightarrow> arg list \<Rightarrow> msg_args \<Rightarrow> ('z enclave_scheme, msg_args) prog" where
  "read_all E a [] = ret"
| "read_all E a (x # xs) = (\<lambda>m. bnd (read_section E a x m) (read_all E a xs))"

lemma bnd_right: "bnd m ret = m"
  by (rule ext) (simp add: bnd_def split: prod.split sum.split)

lemma args_msg_simps [simp]:
  "args_msg E (m\<lparr>arg_load := Events evs\<rparr>) = build_emitted_msg E (arg_sec m) (arg_num m) evs"
  by (simp add: args_msg_def)

lemma subreq_respond_sections:
  "subreq_respond E s a =
     bnd (read_all E a [ArgSec, ArgNum, ArgPast] (unread (Events []))) (send_section E s)"
  by (simp add: subreq_respond_def sec_section_def send_section_def bnd_assoc bnd_right args_msg_def unread_def
      del: run_simple)

text \<open>The orders of the arguments: of a reply, and of a heartbeat, where a receipt emitter reads in the
order of its statements.\<close>

definition reply_order :: "arg list \<Rightarrow> bool" where
  "reply_order order \<longleftrightarrow> distinct order \<and> set order = {ArgSec, ArgNum, ArgPast}"

fun beat_order :: "emitter \<Rightarrow> arg list \<Rightarrow> bool" where
  "beat_order (EventEmitter s q i) order = (order \<in> {[ArgSec, ArgNum], [ArgNum, ArgSec]})"
| "beat_order (ReceiptEmitter s q i) order = (order = [ArgSec, ArgNum])"

lemma reply_orders:
  assumes "reply_order order"
  shows "order \<in> {[ArgSec, ArgNum, ArgPast], [ArgSec, ArgPast, ArgNum], [ArgNum, ArgSec, ArgPast],
    [ArgNum, ArgPast, ArgSec], [ArgPast, ArgSec, ArgNum], [ArgPast, ArgNum, ArgSec]}"
proof -
  have "length order = 3" using assms distinct_card [of order] by (simp add: reply_order_def)
  then obtain x y z where order: "order = [x, y, z]"
    by (auto simp: numeral_3_eq_3 length_Suc_conv)
  with assms show ?thesis
    by (cases x; cases y; cases z) (auto simp: reply_order_def)
qed

text \<open>A request or a heartbeat that no other thread comes between does the same in every order.\<close>

lemma respond_any_order:
  assumes "held w = {}" "past_refs_valid w" "reply_order order"
  shows "bnd (read_all E a order (unread (Events []))) (send_section E s) w = subreq_respond E s a w"
  using reply_orders [OF assms(3)] assms(1,2)
  by (auto simp: subreq_respond_def sec_section_def send_section_def prog_run args_msg_def unread_def
      split: sum.split)

section \<open>A heartbeat\<close>

fun emitter_sock :: "emitter \<Rightarrow> sock" where
  "emitter_sock (EventEmitter s q i) = s"
| "emitter_sock (ReceiptEmitter s q i) = s"

fun emitter_listener :: "emitter \<Rightarrow> cb_id" where
  "emitter_listener (EventEmitter s q i) = i"
| "emitter_listener (ReceiptEmitter s q i) = i"

fun take_section :: "emitter \<Rightarrow> ('z rt_scheme, load) prog" where
  "take_section (EventEmitter s q i) = bnd (event_queue_drain q) (\<lambda>out. ret (Events out))"
| "take_section (ReceiptEmitter s q i) = bnd (receipt_queue_drain q) (\<lambda>out. ret (Receipts out))"

text \<open>The handler around the whole: \<^verbatim>\<open>catch (...) { Cancel(listenId); throw; }\<close>.\<close>

definition cancelling :: "env \<Rightarrow> emitter \<Rightarrow> ('z rt_scheme, 'a) prog \<Rightarrow> ('z rt_scheme, 'a) prog" where
  "cancelling E e m = try_catch m (\<lambda>what. bnd (cancel E (emitter_listener e)) (\<lambda>_. raise what))"

lemma cancelling_Inr: "cancelling E e m w = (Inr x, u) \<longleftrightarrow> m w = (Inr x, u)"
  by (auto simp: cancelling_def try_catch_def bnd_def split: prod.split sum.split fault.split)

lemma cancelling_then:
  "cancelling E e (bnd m f) = bnd (cancelling E e m) (\<lambda>x. cancelling E e (f x))"
  by (rule ext) (auto simp: cancelling_def try_catch_def bnd_def split: prod.split sum.split fault.split)

lemma run_emitter_sections:
  "run_emitter E e =
     cancelling E e (bnd (take_section e) (\<lambda>load.
     bnd (read_all E [] [ArgSec, ArgNum] (unread load)) (send_section E (emitter_sock e))))"
  by (cases e)
    (simp_all add: emitter_handler_def subscribed_receipt_emitter_def cancelling_def sec_section_def
      send_section_def bnd_assoc bnd_right args_msg_def unread_def del: run_simple)

lemma beat_any_order:
  assumes "held w = {}" "beat_order e order"
  shows "cancelling E e (bnd (read_all E [] order (unread load)) (send_section E (emitter_sock e))) w =
    cancelling E e (bnd (read_all E [] [ArgSec, ArgNum] (unread load)) (send_section E (emitter_sock e))) w"
proof -
  have "bnd (read_all E [] order (unread load)) (send_section E (emitter_sock e)) w =
      bnd (read_all E [] [ArgSec, ArgNum] (unread load)) (send_section E (emitter_sock e)) w"
    using assms
    by (cases e) (auto simp: sec_section_def send_section_def prog_run args_msg_def unread_def split: sum.split)
  then show ?thesis by (simp add: cancelling_def try_catch_def)
qed

section \<open>A receipt request\<close>

definition receipt_listen_section ::
    "env \<Rightarrow> bytes \<Rightarrow> bytes list \<Rightarrow> ('z enclave_scheme, qref \<times> cb_id) prog" where
  "receipt_listen_section E addr topics =
     bnd (log_msg Debug receipt_logger (''Subscribing to receipts from contract @'' @ hex_encode E addr)) (\<lambda>_.
     bnd new_receipt_queue (\<lambda>q.
     bnd (listen E (build_subscribed_event_descr E addr topics q)) (\<lambda>listen_id.
     ret (q, listen_id))))"

text \<open>The end of both requests: the socket goes into the emitter.\<close>

definition attach_section :: "env \<Rightarrow> emitter \<Rightarrow> ('z rt_scheme, sock option) prog" where
  "attach_section E e =
     bnd (add_emitter E e) (\<lambda>_.
     bnd (log_msg Debug (case e of EventEmitter s q i \<Rightarrow> subreq_logger | ReceiptEmitter s q i \<Rightarrow> receipt_logger)
            ''Received a subscribe request'') (\<lambda>_.
     ret None))"

lemma receipt_sub_listen_sections:
  "receipt_sub_listen E s addr topics =
     bnd (receipt_listen_section E addr topics) (\<lambda>(q, i). attach_section E (ReceiptEmitter s q i))"
  by (simp add: receipt_sub_listen_def receipt_listen_section_def attach_section_def bnd_assoc)

section \<open>A subscription request\<close>

lemma sub_req_sections:
  "sub_req E s msg =
     bnd (subreq_lookup E msg) (\<lambda>(pub_addr, ev_mgr_addr).
     if ev_mgr_addr = zero_addr then
       bnd (log_msg Error subreq_logger
              (''Failed to find the event manager for publisher @'' @ hex_encode E pub_addr)) (\<lambda>_.
       ret (Some s))
     else
       bnd (subreq_listen E ev_mgr_addr) (\<lambda>(q, listen_id).
       bnd (subreq_respond E s ev_mgr_addr) (\<lambda>_.
       attach_section E (EventEmitter s q listen_id))))"
  unfolding sub_req_def attach_section_def emitter.case by (rule refl)

section \<open>A registration event\<close>

text \<open>The two addresses of the log entry; reading them has no effect.\<close>

definition reg_addresses :: "env \<Rightarrow> log_entry \<Rightarrow> (bytes \<times> bytes) res" where
  "reg_addresses E log =
     bind_res (of_lib (abi_word E (log_data log))) (\<lambda>(pub_addr_abi, rest).
     bind_res (of_lib (abi_word E rest)) (\<lambda>(ev_mgr_addr_abi, _).
     bind_res (copy_to_array 12 20 pub_addr_abi) (\<lambda>pub_addr.
     bind_res (copy_to_array 12 20 ev_mgr_addr_abi) (\<lambda>ev_mgr_addr.
     Inr (pub_addr, ev_mgr_addr)))))"

definition reg_map_section :: "bytes \<Rightarrow> bytes \<Rightarrow> ('z sub_world_scheme, unit) prog" where
  "reg_map_section pub_addr ev_mgr_addr =
     with_lock EvMgrAddrMapMutex
       (update_svc (\<lambda>st. st\<lparr>ev_mgr_addr_map := (ev_mgr_addr_map st)(pub_addr \<mapsto> ev_mgr_addr)\<rparr>))"

definition reg_store_section :: "bytes \<Rightarrow> ('z sub_world_scheme, unit) prog" where
  "reg_store_section ev_mgr_addr =
     with_lock PastEventStoreMutex
       (bnd new_event_queue (\<lambda>q.
        update_svc (\<lambda>st. st\<lparr>past_event_store := emplace ev_mgr_addr q (past_event_store st)\<rparr>)))"

definition reg_listen_section :: "env \<Rightarrow> header \<Rightarrow> bytes \<Rightarrow> bytes \<Rightarrow> ('z sub_world_scheme, unit) prog" where
  "reg_listen_section E hdr pub_addr ev_mgr_addr =
     bnd (ask (alive_at E)) (\<lambda>alive.
     bnd (if alive then
            bnd (reads svc) (\<lambda>st.
            bnd (listen E (build_notify_past_event_descr ev_mgr_addr st)) (\<lambda>_. ret ()))
          else ret ()) (\<lambda>_.
     log_msg Info store_logger
       (''Publisher @'' @ hex_encode E pub_addr @ '' registered with event manager @'' @
        hex_encode E ev_mgr_addr @ '' at block #'' @ to_string (number hdr))))"

lemma lift_bind:
  "bnd (lift_res (bind_res r f)) g = bnd (lift_res r) (\<lambda>x. bnd (lift_res (f x)) g)"
  by (rule ext) (simp add: bnd_def bind_res_def lift_res_def split: sum.split)

lemma lift_Inr: "lift_res (Inr x) = ret x"
  by (simp add: fun_eq_iff)

lemma lib_lift: "lib q = lift_res (of_lib q)"
  by (simp add: fun_eq_iff)

lemma reg_handler_sections:
  "reg_event_handler E hdr log =
     bnd (lift_res (reg_addresses E log)) (\<lambda>(p, a). bnd (reg_map_section p a) (\<lambda>_.
     bnd (reg_store_section a) (\<lambda>_. reg_listen_section E hdr p a)))"
  unfolding reg_event_handler_def reg_addresses_def reg_map_section_def reg_store_section_def
    reg_listen_section_def lib_lift
  by (simp only: lift_bind lift_Inr bnd_ret case_prod_unfold prod.sel)

lemma reg_addresses_defined:
  assumes "abi_word_sized E"
  shows "\<not> is_undef (reg_addresses E log)"
  using assms
  by (auto simp: reg_addresses_def bind_res_def copy_to_array_def is_undef_Inl dest: abi_word_sizedD
      split: sum.split prod.split)

lemma reg_addresses_sized: "reg_addresses E log = Inr (p, a) \<Longrightarrow> length p = 20 \<and> length a = 20"
  by (auto simp: reg_addresses_def bind_res_Inr_iff dest!: copy_to_array_length)

section \<open>Which mutexes a method waits for\<close>

text \<open>A method waits for a mutex \<open>l\<close> that another thread holds when it comes to lock it, which shows in the
model as the double lock of a thread that holds it already; \<open>blocked m w l H\<close> says so, with \<open>H\<close> the mutexes
that the waiting thread has itself at that moment.\<close>

definition blocked :: "('z rt_scheme, 'a) prog \<Rightarrow> 'z rt_scheme \<Rightarrow> lock \<Rightarrow> lock set \<Rightarrow> bool" where
  "blocked m w l H \<longleftrightarrow> l \<notin> held w \<and> l \<notin> H \<and>
     fst (m (w\<lparr>held := insert l (held w)\<rparr>)) = Inl (Undef (LockedTwice l (insert l H)))"

definition waits_for :: "('z rt_scheme, 'a) prog \<Rightarrow> lock \<Rightarrow> 'z rt_scheme \<Rightarrow> bool" where
  "waits_for m l w \<longleftrightarrow> (\<exists>H. fst (m (w\<lparr>held := insert l (held w)\<rparr>)) = Inl (Undef (LockedTwice l H)))"

lemma copy_waits_for:
  assumes "held w = {}" "past_refs_valid w"
  shows "waits_for (get_past_events a) l w \<longleftrightarrow> l = PastEventStoreMutex"
proof -
  have "past_refs_valid (w\<lparr>held := {l}\<rparr>)" using assms(2) by (simp add: past_refs_valid_def)
  with assms(1) show ?thesis
    by (cases "l = PastEventStoreMutex")
      (simp_all add: waits_for_def get_past_events_run, simp add: get_past_events_def with_lock_twice)
qed

lemma push_waits_for:
  assumes "held w = {}" "q < length (evqs w)"
  shows "waits_for (event_queue_push q x) l w \<longleftrightarrow> l = EventQueueMutex q"
  using assms
  by (cases "l = EventQueueMutex q")
    (simp_all add: waits_for_def event_queue_push_run, simp add: event_queue_push_def with_lock_twice)

end
