(* ===== verification/PubsubSystem.thy ===== *)
theory PubsubSystem
  imports CriticalSections
begin

text \<open>
  The enclave as a system of threads. The block thread processes headers under \<open>MonitorMutex\<close>, the
  heartbeat thread runs the emitters, and every connection has a thread that handles its request.
  \<open>sys_step\<close> is one critical section of one of them, or one call of a library object that several of them
  share, so that any two may be separated by steps of other threads. What a thread has still to do is an
  element of \<open>tasks\<close>: a request after the look-up (\<open>RListen\<close>), after its listener is registered, with what it
  has read for its reply and the arguments still to read (\<open>RRead\<close>), and with only its emitter left to attach
  (\<open>RAttach\<close>); a heartbeat after it has emptied its queue (\<open>BRead\<close>); a registration event between the map of
  publishers, the store of past events and the new listener (\<open>GStore\<close>, \<open>GListen\<close>). C++ does not say in which
  order the arguments of \<^verbatim>\<open>BuildEmittedMsg\<close> are evaluated: a task has an order in it, and the system every
  order. Three things are still one step: a part of a heartbeat that fails and the Cancel of its listener, the
  Cancel and the Listen of the deployment callback, and the look-up of a store (which never changes) and
  the append to it. Nobody waits for a mutex, so that the system also has interleavings that the code
  has not; \<open>Exclusion\<close> has those of the code. \<open>held\<close> is the set of mutexes of the thread that makes the step, so it is empty between steps.

  What is shown: an invariant of all reachable states (\<open>sys_inv\<close>), that no step of a reachable state
  has undefined behaviour, that the sequence of calls a block makes is a sequence of such steps, and
  the order in which a service goes through its states.
\<close>

section \<open>State and steps\<close>

datatype task =
    RListen sock bytes "arg list"
  | RRead sock bytes qref cb_id msg_args "arg list"
  | RAttach emitter
  | BRead emitter msg_args "arg list"
  | GStore header bytes bytes
  | GListen header bytes bytes

record system = process +
  tasks :: "task list"

datatype label =
    Silent
  | Delivers callback header log_entry
  | Opens bytes
  | Drains qref event_data_queue

text \<open>The next part of a task, and what is left to do after it.\<close>

fun task_prog :: "env \<Rightarrow> task \<Rightarrow> ('z enclave_scheme, task list) prog" where
  "task_prog E (RListen s a order) =
     bnd (subreq_listen E a) (\<lambda>(q, i). ret [RRead s a q i (unread (Events [])) order])"
| "task_prog E (RRead s a q i m (x # xs)) = bnd (read_section E a x m) (\<lambda>m'. ret [RRead s a q i m' xs])"
| "task_prog E (RRead s a q i m []) = bnd (send_section E s m) (\<lambda>_. ret [RAttach (EventEmitter s q i)])"
| "task_prog E (RAttach e) = bnd (attach_section E e) (\<lambda>_. ret [])"
| "task_prog E (BRead e m (x # xs)) = bnd (cancelling E e (read_section E [] x m)) (\<lambda>m'. ret [BRead e m' xs])"
| "task_prog E (BRead e m []) = bnd (cancelling E e (send_section E (emitter_sock e) m)) (\<lambda>_. ret [])"
| "task_prog E (GStore hdr p a) = bnd (reg_store_section a) (\<lambda>_. ret [GListen hdr p a])"
| "task_prog E (GListen hdr p a) = bnd (reg_listen_section E hdr p a) (\<lambda>_. ret [])"

text \<open>The closures of the event manager run while the block thread holds the mutex of the monitor.\<close>

fun task_locks :: "task \<Rightarrow> lock set" where
  "task_locks (GStore hdr p a) = {MonitorMutex}"
| "task_locks (GListen hdr p a) = {MonitorMutex}"
| "task_locks _ = {}"

fun task_label :: "task \<Rightarrow> label" where
  "task_label (GStore hdr p a) = Opens a"
| "task_label _ = Silent"

fun take_label :: "emitter \<Rightarrow> load \<Rightarrow> label" where
  "take_label (EventEmitter s q i) (Events evs) = Drains q evs"
| "take_label _ _ = Silent"

definition in_monitor :: "'z rt_scheme \<Rightarrow> 'z rt_scheme" where
  "in_monitor w = w\<lparr>held := {MonitorMutex}\<rparr>"

definition unlocked :: "'z rt_scheme \<Rightarrow> 'z rt_scheme" where
  "unlocked w = w\<lparr>held := {}\<rparr>"

text \<open>\<open>begun ts w\<close>: the tasks \<open>ts\<close> have come up; \<open>followed t r w\<close>: the part \<open>t\<close> has ended with \<open>r\<close>.\<close>

definition begun :: "task list \<Rightarrow> system \<Rightarrow> system" where
  "begun ts w = w\<lparr>tasks := ts @ tasks w\<rparr>"

definition followed :: "task \<Rightarrow> task list res \<Rightarrow> system \<Rightarrow> system" where
  "followed t r w = w\<lparr>tasks := (case r of Inl e \<Rightarrow> [] | Inr ts \<Rightarrow> ts) @ remove1 t (tasks w)\<rparr>"

inductive sys_step :: "env \<Rightarrow> system \<Rightarrow> label \<Rightarrow> system \<Rightarrow> bool" for E where
  step_own: "sys_step E w Silent (snd (own_step n w))"
| step_fetch: "sys_step E w Silent (snd (receipts_getter E n w))"
| step_latest: "sys_step E w Silent (snd (get_latest_block_num E w))"
| step_plan: "sys_step E w Silent (snd (refresh_bootstrap_plan E n start w))"
| step_seen: "sys_step E w Silent (w\<lparr>last_validated_blk_num := raw_number (hdr :: header)\<rparr>)"
| step_confirmed: "sys_step E w Silent (snd (on_header_confirmed E hdr w))"
| step_notify: "listeners (history w) i = Some d \<Longrightarrow> log_matches d log \<Longrightarrow> ed_callback d \<noteq> CbReg \<Longrightarrow>
    sys_step E w (Delivers (ed_callback d) hdr log)
      (unlocked (snd (invoke E i (ed_callback d) hdr log (in_monitor w))))"
| step_reg: "listeners (history w) i = Some d \<Longrightarrow> log_matches d log \<Longrightarrow> ed_callback d = CbReg \<Longrightarrow>
    reg_addresses E log = Inr (p, a) \<Longrightarrow> reg_map_section p a (in_monitor w) = (Inr (), u) \<Longrightarrow>
    sys_step E w (Delivers CbReg hdr log) (begun [GStore hdr p a] (unlocked u))"
| step_reg_malformed: "listeners (history w) i = Some d \<Longrightarrow> log_matches d log \<Longrightarrow> ed_callback d = CbReg \<Longrightarrow>
    reg_addresses E log = Inl e \<Longrightarrow> sys_step E w (Delivers CbReg hdr log) w"
| step_take: "EmitterAdded e \<in> set (history w) \<Longrightarrow> take_section e w = (Inr load, u) \<Longrightarrow> beat_order e order \<Longrightarrow>
    sys_step E w (take_label e load) (begun [BRead e (unread load) order] u)"
| step_lookup: "subreq_lookup E msg w = (Inr (p, a), u) \<Longrightarrow> a \<noteq> zero_addr \<Longrightarrow> reply_order order \<Longrightarrow>
    sys_step E w Silent (begun [RListen s a order] u)"
| step_log: "sys_step E w Silent (snd (log_msg lvl name m w))"
| step_receipt_listen: "receipt_request E msg = Inr (addr, Some topics) \<Longrightarrow>
    receipt_listen_section E addr topics w = (r, u) \<Longrightarrow>
    sys_step E w Silent (begun (case r of Inl e \<Rightarrow> [] | Inr (q, i) \<Rightarrow> [RAttach (ReceiptEmitter s q i)]) u)"
| step_send_raw: "sys_step E w Silent (snd (send_raw E msg w))"
| step_task: "t \<in> set (tasks w) \<Longrightarrow> task_prog E t (w\<lparr>held := task_locks t\<rparr>) = (r, u) \<Longrightarrow>
    sys_step E w (task_label t) (followed t r (unlocked u))"

inductive sys_run :: "env \<Rightarrow> system \<Rightarrow> label list \<Rightarrow> system \<Rightarrow> bool" for E where
  run_nil: "sys_run E w [] w"
| run_cons: "sys_step E w l v \<Longrightarrow> sys_run E v ls u \<Longrightarrow> sys_run E w (l # ls) u"

text \<open>A process before its initialisation has made no call.\<close>

definition fresh_process :: "system \<Rightarrow> bool" where
  "fresh_process w \<longleftrightarrow> held w = {} \<and> evqs w = [] \<and> recqs w = [] \<and> history w = [] \<and>
     tasks w = [] \<and> \<not> mgr_set w"

definition initialised :: "env \<Rightarrow> system \<Rightarrow> bool" where
  "initialised E w \<longleftrightarrow> (\<exists>v config start_num sync_addr sync_sign pubsub_addr.
     fresh_process v \<and> init_enclave E config start_num sync_addr sync_sign pubsub_addr v = (Inr (), w))"

definition reachable :: "env \<Rightarrow> system \<Rightarrow> bool" where
  "reachable E w \<longleftrightarrow> (\<exists>v ls. initialised E v \<and> sys_run E v ls w)"

inductive_cases sys_run_ConsE: "sys_run E w (l # ls) u"
inductive_cases sys_run_NilE: "sys_run E w [] u"

lemma sys_run_append: "sys_run E w ls v \<Longrightarrow> sys_run E v ls' u \<Longrightarrow> sys_run E w (ls @ ls') u"
  by (induction rule: sys_run.induct) (auto intro: sys_run.intros)

lemma sys_run_one: "sys_step E w l u \<Longrightarrow> sys_run E w [l] u"
  by (blast intro: sys_run.intros)

lemma reachable_run: "reachable E w \<Longrightarrow> sys_run E w ls u \<Longrightarrow> reachable E u"
  unfolding reachable_def using sys_run_append by blast

lemma reachable_step: "reachable E w \<Longrightarrow> sys_step E w l u \<Longrightarrow> reachable E u"
  using reachable_run sys_run_one by blast

section \<open>The invariant\<close>

text \<open>A queue of a subscription is in the heap and is no manager's store of past events.\<close>

definition sub_queue :: "system \<Rightarrow> qref \<Rightarrow> bool" where
  "sub_queue w q \<longleftrightarrow> q < length (evqs w) \<and> (\<forall>a. past_event_store (svc w) a \<noteq> Some q)"

fun cb_inv :: "system \<Rightarrow> event_descr \<Rightarrow> callback \<Rightarrow> bool" where
  "cb_inv w d CbDeploy = (d = build_deploy_event_descr (svc w))"
| "cb_inv w d CbReg = (d = build_reg_event_descr (svc w) \<and> is_deployed (svc w))"
| "cb_inv w d CbNotifyPast = (d = build_notify_past_event_descr (ed_addr d) (svc w) \<and>
     past_event_store (svc w) (ed_addr d) \<noteq> None)"
| "cb_inv w d (CbNotify q logger) = sub_queue w q"
| "cb_inv w d (CbReceipt q logger) = (q < length (recqs w))"

fun em_inv :: "system \<Rightarrow> emitter \<Rightarrow> bool" where
  "em_inv w (EventEmitter s q i) = sub_queue w q"
| "em_inv w (ReceiptEmitter s q i) = (q < length (recqs w))"

fun task_inv :: "system \<Rightarrow> task \<Rightarrow> bool" where
  "task_inv w (RListen s a order) = True"
| "task_inv w (RRead s a q i m order) = sub_queue w q"
| "task_inv w (RAttach e) = em_inv w e"
| "task_inv w (BRead e m order) = em_inv w e"
| "task_inv w (GStore hdr p a) = (is_deployed (svc w) \<and> length a = 20)"
| "task_inv w (GListen hdr p a) = (past_event_store (svc w) a \<noteq> None)"

definition store_inv :: "system \<Rightarrow> bool" where
  "store_inv w \<longleftrightarrow> past_refs_valid w \<and> past_refs_distinct w \<and>
     (\<not> is_deployed (svc w) \<longrightarrow>
        ev_mgr_addr_map (svc w) = Map.empty \<and> past_event_store (svc w) = Map.empty)"

definition sys_inv :: "system \<Rightarrow> bool" where
  "sys_inv w \<longleftrightarrow> held w = {} \<and> store_inv w \<and>
     (\<forall>i d. listeners (history w) i = Some d \<longrightarrow> cb_inv w d (ed_callback d)) \<and>
     (\<forall>e. EmitterAdded e \<in> set (history w) \<longrightarrow> em_inv w e) \<and>
     (\<forall>r \<in> set (tasks w). task_inv w r)"

text \<open>What a step may do to the parts the invariant is about.\<close>

definition sys_ext :: "system \<Rightarrow> system \<Rightarrow> bool" where
  "sys_ext w u \<longleftrightarrow>
     pubsub_cont_addr (svc u) = pubsub_cont_addr (svc w) \<and>
     deploy_ev_topic (svc u) = deploy_ev_topic (svc w) \<and>
     reg_ev_topic (svc u) = reg_ev_topic (svc w) \<and>
     notify_ev_topic (svc u) = notify_ev_topic (svc w) \<and>
     (is_deployed (svc w) \<longrightarrow> is_deployed (svc u)) \<and>
     past_event_store (svc w) \<subseteq>\<^sub>m past_event_store (svc u) \<and>
     (\<forall>a q. past_event_store (svc u) a = Some q \<longrightarrow>
        past_event_store (svc w) a = Some q \<or> length (evqs w) \<le> q) \<and>
     length (evqs w) \<le> length (evqs u) \<and> length (recqs w) \<le> length (recqs u)"

lemma sys_ext_sub_queue: "sys_ext w u \<Longrightarrow> sub_queue w q \<Longrightarrow> sub_queue u q"
  by (fastforce simp: sys_ext_def sub_queue_def)

lemma sys_ext_cb:
  assumes "sys_ext w u" "cb_inv w d c"
  shows "cb_inv u d c"
proof -
  have "sub_queue u q" if "sub_queue w q" for q
    using assms(1) that by (rule sys_ext_sub_queue)
  with assms show ?thesis
    by (cases c) (auto simp: sys_ext_def map_le_def dom_def
      build_deploy_event_descr_def build_reg_event_descr_def build_notify_past_event_descr_def)
qed

lemma sys_ext_em: "sys_ext w u \<Longrightarrow> em_inv w e \<Longrightarrow> em_inv u e"
  using sys_ext_sub_queue [of w u] by (cases e) (simp_all add: sys_ext_def)

lemma sys_ext_task: "sys_ext w u \<Longrightarrow> task_inv w r \<Longrightarrow> task_inv u r"
  using sys_ext_sub_queue [of w u] sys_ext_em [of w u]
  by (cases r) (auto simp: sys_ext_def map_le_def dom_def)

lemma sys_inv_ext:
  assumes "sys_inv w" "sys_ext w u" "held u = {}" "store_inv u"
    and "\<And>i d. listeners (history u) i = Some d \<Longrightarrow>
      listeners (history w) i = Some d \<or> cb_inv u d (ed_callback d)"
    and "\<And>e. EmitterAdded e \<in> set (history u) \<Longrightarrow> EmitterAdded e \<in> set (history w) \<or> em_inv u e"
    and "\<And>r. r \<in> set (tasks u) \<Longrightarrow> r \<in> set (tasks w) \<or> task_inv u r"
  shows "sys_inv u"
proof -
  have old: "\<And>i d. listeners (history w) i = Some d \<Longrightarrow> cb_inv u d (ed_callback d)"
    "\<And>e. EmitterAdded e \<in> set (history w) \<Longrightarrow> em_inv u e"
    "\<And>r. r \<in> set (tasks w) \<Longrightarrow> task_inv u r"
    using assms(1) sys_ext_cb [OF assms(2)] sys_ext_em [OF assms(2)] sys_ext_task [OF assms(2)]
    unfolding sys_inv_def by blast+
  show ?thesis
    unfolding sys_inv_def using assms(3-7) old by blast
qed

lemma store_inv_same_svc:
  assumes "store_inv w" "svc u = svc w" "length (evqs w) \<le> length (evqs u)"
  shows "store_inv u"
proof -
  have "q < length (evqs u)" if "past_event_store (svc u) a = Some q" for a q
  proof -
    have "past_refs_valid w" using assms(1) by (simp add: store_inv_def)
    moreover have "past_event_store (svc w) a = Some q" using that assms(2) by simp
    ultimately have "q < length (evqs w)" by (rule past_refs_validD)
    with assms(3) show ?thesis by simp
  qed
  then have "past_refs_valid u" by (simp add: past_refs_valid_def)
  moreover have "past_refs_distinct u"
    using assms by (simp add: store_inv_def past_refs_distinct_def)
  ultimately show ?thesis using assms by (simp add: store_inv_def)
qed

lemma sys_ext_same_svc:
  "svc u = svc w \<Longrightarrow> length (evqs w) \<le> length (evqs u) \<Longrightarrow> length (recqs w) \<le> length (recqs u) \<Longrightarrow>
     sys_ext w u"
  by (simp add: sys_ext_def)

lemma sys_inv_same_svc:
  assumes "sys_inv w" "svc u = svc w" "length (evqs w) \<le> length (evqs u)"
    and "length (recqs w) \<le> length (recqs u)" "held u = {}"
    and "\<And>i d. listeners (history u) i = Some d \<Longrightarrow>
      listeners (history w) i = Some d \<or> cb_inv u d (ed_callback d)"
    and "\<And>e. EmitterAdded e \<in> set (history u) \<Longrightarrow> EmitterAdded e \<in> set (history w) \<or> em_inv u e"
    and "\<And>r. r \<in> set (tasks u) \<Longrightarrow> r \<in> set (tasks w) \<or> task_inv u r"
  shows "sys_inv u"
proof (rule sys_inv_ext)
  show "sys_inv w" by (rule assms)
  show "sys_ext w u" using assms(2-4) by (rule sys_ext_same_svc)
  have "store_inv w" using assms(1) by (simp add: sys_inv_def)
  then show "store_inv u" using assms(2,3) by (rule store_inv_same_svc)
qed (use assms(5-8) in blast)+

text \<open>Steps that leave the service, the queues and the tasks alone.\<close>

definition quiet :: "system \<Rightarrow> system \<Rightarrow> bool" where
  "quiet w u \<longleftrightarrow> svc u = svc w \<and> evqs u = evqs w \<and> recqs u = recqs w \<and> tasks u = tasks w \<and>
     listeners (history u) \<subseteq>\<^sub>m listeners (history w) \<and>
     (\<forall>e. EmitterAdded e \<in> set (history u) \<longrightarrow> EmitterAdded e \<in> set (history w))"

definition quiet_call :: "ext_call \<Rightarrow> bool" where
  "quiet_call c \<longleftrightarrow> (\<forall>d i. c \<noteq> Listened d i) \<and> (\<forall>e. c \<noteq> EmitterAdded e)"

lemma quiet_call_listeners: "quiet_call c \<Longrightarrow> listeners (c # h) \<subseteq>\<^sub>m listeners h"
  by (cases c) (auto simp: quiet_call_def map_le_def)

interpretation quiet_frame: rt_frame quiet quiet_call
proof
  show "quiet w v" if "quiet w u" "quiet u v" for w u v
    using that unfolding quiet_def by (auto intro: map_le_trans)
  show "quiet w (w\<lparr>history := c # history w\<rparr>)" if "quiet_call c" for w c
    using that quiet_call_listeners by (auto simp: quiet_def quiet_call_def)
qed (auto simp: quiet_def quiet_call_def)

lemma quiet_updates:
  assumes "\<And>w. svc (f w) = svc w" "\<And>w. evqs (f w) = evqs w" "\<And>w. recqs (f w) = recqs w"
    "\<And>w. tasks (f w) = tasks w" "\<And>w. history (f w) = history w"
  shows "guar quiet (updates f)"
  using assms by (simp add: guar_def quiet_def)

named_theorems quiet_rules
  \<open>methods that leave the service, the queues and the tasks alone\<close>

lemma quiet_block [quiet_rules]:
  "guar quiet (own_step n)" "guar quiet (receipts_getter E k)" "guar quiet (get_latest_block_num E)"
  "guar quiet (refresh_bootstrap_plan E b start)" "guar quiet (on_header_confirmed E hdr)"
  "guar quiet (log_msg l name m)" "guar quiet (send_raw E msg)"
proof -
  show "guar quiet (own_step n)"
    by (auto simp: guar_def own_step_def quiet_def quiet_call_def)
  show "guar quiet (receipts_getter E k)" "guar quiet (get_latest_block_num E)"
    by (auto simp: receipts_getter_def quiet_call_def
        intro!: quiet_frame.guar_bnd quiet_frame.guar_host quiet_frame.guar_pure)
  show "guar quiet (refresh_bootstrap_plan E b start)"
    unfolding refresh_bootstrap_plan_def
    by (rule quiet_frame.guar_ext_result) (simp add: quiet_call_def)
  show "guar quiet (log_msg l name m)" by (rule quiet_frame.guar_log)
  show "guar quiet (on_header_confirmed E hdr)"
    unfolding on_header_confirmed_def log_monitor_status_def
    by (auto intro!: quiet_frame.guar_rt quiet_updates split: phase.split)
  show "guar quiet (send_raw E msg)"
    by (auto simp: guar_def send_raw_def send_raw_transaction_def prog_run quiet_def of_lib_def
        split: prod.split sum.split)
qed

lemma quiet_sections [quiet_rules]:
  "guar quiet (subreq_lookup E msg)" "guar quiet (sec_section E)" "guar quiet get_last_validated_blk_num"
  "guar quiet (get_past_events a)" "guar quiet (send_section E s m)"
proof -
  have "guar quiet (event_queue_at q)" for q
    by (auto simp: guar_def event_queue_at_def quiet_def)
  then show "guar quiet (get_past_events a)"
    unfolding get_past_events_def by (auto intro!: quiet_frame.guar_rt split: option.split)
  show "guar quiet (subreq_lookup E msg)" "guar quiet (sec_section E)" "guar quiet get_last_validated_blk_num"
    unfolding subreq_lookup_def get_event_mgr_addr_def sec_section_def get_monitor_sec_state_def
      get_last_validated_blk_num_def
    by (intro quiet_frame.guar_rt)+
  show "guar quiet (send_section E s m)"
    unfolding send_section_def sized_send_def
    by (intro quiet_frame.guar_rt quiet_frame.guar_ext_result) (simp add: quiet_call_def)
qed

lemma quiet_read [quiet_rules]: "guar quiet (read_section E a x m)"
  by (cases x) (auto intro!: quiet_frame.guar_bnd quiet_frame.guar_pure quiet_sections)

lemma quiet_cancelling [quiet_rules]: "guar quiet m \<Longrightarrow> guar quiet (cancelling E e m)"
  unfolding cancelling_def cancel_def
  by (intro quiet_frame.guar_rt quiet_frame.guar_ext_result) (simp_all add: quiet_call_def)

lemma quiet_inv:
  assumes "sys_inv w" "quiet w u" "held u = {}"
  shows "sys_inv u"
  using assms(1)
proof (rule sys_inv_same_svc)
  show "listeners (history w) i = Some d \<or> cb_inv u d (ed_callback d)"
    if "listeners (history u) i = Some d" for i d
    using that assms(2) by (force simp: quiet_def map_le_def dom_def)
qed (use assms in \<open>auto simp: quiet_def\<close>)

lemma quiet_run_inv:
  assumes "guar quiet m" "balanced m" "sys_inv w"
  shows "sys_inv (snd (m w))"
proof (rule quiet_inv)
  show "sys_inv w" by (rule assms)
  show "quiet w (snd (m w))" using assms(1) by (simp add: guar_def)
  show "held (snd (m w)) = {}" using assms(2,3) by (simp add: balanced_def guar_def sys_inv_def)
qed

section \<open>What the closures leave behind\<close>

text \<open>\<open>adds_only D h h'\<close>: of registrations, \<open>h'\<close> has those of \<open>h\<close> and some that satisfy \<open>D\<close>, and no
more emitters.\<close>

definition adds_only :: "(event_descr \<Rightarrow> bool) \<Rightarrow> history \<Rightarrow> history \<Rightarrow> bool" where
  "adds_only D h h' \<longleftrightarrow>
     (\<forall>i d. listeners h' i = Some d \<longrightarrow> listeners h i = Some d \<or> D d) \<and>
     (\<forall>e. EmitterAdded e \<in> set h' \<longrightarrow> EmitterAdded e \<in> set h)"

lemma adds_only_simps [simp]:
  "adds_only D h h"
  "adds_only D h h' \<Longrightarrow> adds_only D h (Logged l n m # h')"
  "adds_only D h h' \<Longrightarrow> adds_only D h (Refused e # h')"
  "adds_only D h h' \<Longrightarrow> adds_only D h (Cancelled i # h')"
  "adds_only D h h' \<Longrightarrow> adds_only D h (Sent s b # h')"
  "adds_only D h h' \<Longrightarrow> adds_only D h (PlanRefreshed k start # h')"
  "adds_only D h h' \<Longrightarrow> adds_only D h (LatestFetched # h')"
  "adds_only D h h' \<Longrightarrow> adds_only D h (MonitorCreated c a t # h')"
  "adds_only D h h' \<Longrightarrow> D d \<Longrightarrow> adds_only D h (Listened d i # h')"
  by (auto simp: adds_only_def)

lemma deploy_outcome:
  fixes w u :: system
  assumes "deploy_event_handler E hdr cb w = (r, u)"
  shows "\<not> is_undef r" "svc u = (svc w)\<lparr>is_deployed := True\<rparr>" "evqs u = evqs w" "recqs u = recqs w"
    "tasks u = tasks w" "adds_only (\<lambda>d. d = build_reg_event_descr (svc w)) (history w) (history u)"
  using assms
  by (auto simp: deploy_event_handler_def prog_run update_svc_def ext_defs split: if_splits sum.splits)

text \<open>The three parts of a registration: the map of publishers, the store of past events, the listener.\<close>

lemma reg_map_run:
  "held w \<subseteq> {MonitorMutex} \<Longrightarrow> reg_map_section p a w =
     (Inr (), w\<lparr>svc := (svc w)\<lparr>ev_mgr_addr_map := (ev_mgr_addr_map (svc w))(p \<mapsto> a)\<rparr>\<rparr>)"
  by (simp add: reg_map_section_def update_svc_def with_lock_run)

lemma reg_store_run:
  "held w \<subseteq> {MonitorMutex} \<Longrightarrow> reg_store_section a w =
     (Inr (), w\<lparr>evqs := evqs w @ [[]],
       svc := (svc w)\<lparr>past_event_store := emplace a (length (evqs w)) (past_event_store (svc w))\<rparr>\<rparr>)"
  by (simp add: reg_store_section_def update_svc_def prog_run)

lemma reg_listen_outcome:
  fixes w u :: system
  assumes "reg_listen_section E hdr p a w = (r, u)"
  shows "\<not> is_undef r" "svc u = svc w" "evqs u = evqs w" "recqs u = recqs w" "tasks u = tasks w"
    "held u = held w" "adds_only (\<lambda>d. d = build_notify_past_event_descr a (svc w)) (history w) (history u)"
  using assms by (auto simp: reg_listen_section_def prog_run listen_def split: if_splits sum.splits)

lemma reg_defined:
  fixes w :: system
  assumes "held w \<subseteq> {MonitorMutex}" "abi_word_sized E"
  shows "\<not> is_undef (fst (reg_event_handler E hdr log w))"
proof (cases "reg_addresses E log")
  case (Inl e)
  with reg_addresses_defined [OF assms(2), of log] show ?thesis
    by (simp add: reg_handler_sections bnd_run is_undef_Inl)
next
  case (Inr x)
  with assms(1) show ?thesis
    using reg_listen_outcome(1) [OF surjective_pairing]
    by (simp add: reg_handler_sections bnd_run reg_map_run reg_store_run split: prod.split)
qed

lemma notify_past_outcome:
  fixes w u :: system
  assumes "held w \<subseteq> {MonitorMutex}" "past_refs_valid w" "notify_past_event_handler E hdr log w = (r, u)"
  shows "\<not> is_undef r" "svc u = svc w" "recqs u = recqs w" "tasks u = tasks w"
    "length (evqs u) = length (evqs w)" "adds_only (\<lambda>d. False) (history w) (history u)"
  using assms unfolding notify_past_event_handler_def
  by (auto simp: prog_run past_refs_validD split: sum.splits prod.splits option.splits)

lemma notify_outcome:
  fixes w u :: system
  assumes "held w \<subseteq> {MonitorMutex}" "q < length (evqs w)" "notify_event_handler E q logger hdr log w = (r, u)"
  shows "\<not> is_undef r" "svc u = svc w" "recqs u = recqs w" "tasks u = tasks w"
    "length (evqs u) = length (evqs w)" "adds_only (\<lambda>d. False) (history w) (history u)"
  using assms unfolding notify_event_handler_def
  by (auto simp: prog_run split: sum.splits prod.splits)

lemma receipt_outcome:
  fixes w u :: system
  assumes "held w \<subseteq> {MonitorMutex}" "q < length (recqs w)" "subscribed_receipt_handler q logger hdr log w = (r, u)"
  shows "\<not> is_undef r" "svc u = svc w" "evqs u = evqs w" "tasks u = tasks w"
    "length (recqs u) = length (recqs w)" "adds_only (\<lambda>d. False) (history w) (history u)"
  using assms by (auto simp: subscribed_receipt_handler_run)

section \<open>Steps keep the invariant and are defined\<close>

lemma in_monitor_simps [simp]:
  "held (in_monitor w) = {MonitorMutex}" "history (in_monitor w) = history w"
  "evqs (in_monitor w) = evqs w" "recqs (in_monitor w) = recqs w"
  by (simp_all add: in_monitor_def)

lemma in_monitor_system [simp]:
  "svc (in_monitor w) = svc w" "tasks (in_monitor w) = tasks w"
  for w :: system
  by (simp_all add: in_monitor_def)

lemma past_refs_in_monitor [simp]: "past_refs_valid (in_monitor w) = past_refs_valid w" for w :: system
  by (simp add: past_refs_valid_def)

lemma unlocked_simps [simp]:
  "held (unlocked w) = {}" "history (unlocked w) = history w"
  "evqs (unlocked w) = evqs w" "recqs (unlocked w) = recqs w"
  by (simp_all add: unlocked_def)

lemma unlocked_system [simp]:
  "svc (unlocked w) = svc w" "tasks (unlocked w) = tasks w"
  for w :: system
  by (simp_all add: unlocked_def)

lemma tasks_moved [simp]:
  "held (begun ts w) = held w" "history (begun ts w) = history w" "evqs (begun ts w) = evqs w"
  "recqs (begun ts w) = recqs w" "svc (begun ts w) = svc w" "tasks (begun ts w) = ts @ tasks w"
  "mgr_set (begun ts w) = mgr_set w" "last_validated_blk_num (begun ts w) = last_validated_blk_num w"
  "held (followed t r w) = held w" "history (followed t r w) = history w" "evqs (followed t r w) = evqs w"
  "recqs (followed t r w) = recqs w" "svc (followed t r w) = svc w" "mgr_set (followed t r w) = mgr_set w"
  "last_validated_blk_num (followed t r w) = last_validated_blk_num w"
  by (simp_all add: begun_def followed_def)

lemma adds_onlyD:
  "adds_only D h h' \<Longrightarrow> listeners h' i = Some d \<Longrightarrow> listeners h i = Some d \<or> D d"
  "adds_only D h h' \<Longrightarrow> EmitterAdded e \<in> set h' \<Longrightarrow> EmitterAdded e \<in> set h"
  by (auto simp: adds_only_def)

lemma sys_inv_store: "sys_inv w \<Longrightarrow> store_inv w"
  by (simp add: sys_inv_def)

lemma store_inv_deployed:
  assumes "store_inv w" "svc u = (svc w)\<lparr>is_deployed := True\<rparr>" "evqs u = evqs w"
  shows "store_inv u"
  using assms by (simp_all add: store_inv_def past_refs_valid_def past_refs_distinct_def)

lemma store_inv_published:
  assumes "store_inv w" "is_deployed (svc w)" "evqs u = evqs w"
    and "svc u = (svc w)\<lparr>ev_mgr_addr_map := (ev_mgr_addr_map (svc w))(p \<mapsto> a)\<rparr>"
  shows "store_inv u"
  using assms by (simp add: store_inv_def past_refs_valid_def past_refs_distinct_def)

lemma store_inv_stored:
  assumes "store_inv w" "is_deployed (svc w)" "evqs u = evqs w @ [[]]"
    and "svc u = (svc w)\<lparr>past_event_store := emplace a (length (evqs w)) (past_event_store (svc w))\<rparr>"
  shows "store_inv u"
proof -
  have valid: "past_refs_valid w" and distinct: "past_refs_distinct w"
    using assms(1) by (auto simp: store_inv_def)
  have "past_refs_valid u"
    using valid assms(3,4)
    by (auto simp: past_refs_valid_def emplace_apply less_Suc_eq split: if_splits)
  moreover have "past_refs_distinct u"
    using valid distinct assms(4)
    by (fastforce simp: past_refs_distinct_def emplace_apply dest: past_refs_validD split: if_splits)
  ultimately show ?thesis using assms(2,4) by (simp add: store_inv_def)
qed

lemma invoke_deploy:
  assumes "sys_inv w" "deploy_event_handler E hdr i (in_monitor w) = (r, u)"
  shows "\<not> is_undef r \<and> sys_inv (unlocked u)"
proof
  note out = deploy_outcome [OF assms(2), simplified]
  show "\<not> is_undef r" by (rule out)
  show "sys_inv (unlocked u)" using assms(1)
  proof (rule sys_inv_ext)
    show "sys_ext w (unlocked u)" using out by (simp add: sys_ext_def)
    show "store_inv (unlocked u)"
      by (rule store_inv_deployed [OF sys_inv_store [OF assms(1)]]) (simp_all add: out)
    show "listeners (history w) j = Some d \<or> cb_inv (unlocked u) d (ed_callback d)"
      if "listeners (history (unlocked u)) j = Some d" for j d
      using adds_onlyD(1) [OF out(6)] that out(2) by (fastforce simp: build_reg_event_descr_def)
  qed (use out adds_onlyD(2) [OF out(6)] in auto)
qed

lemma invoke_queue:
  assumes "sys_inv w" "svc u = svc w" "tasks u = tasks w" "length (evqs u) = length (evqs w)"
    and "length (recqs u) = length (recqs w)" "adds_only (\<lambda>d. False) (history w) (history u)"
  shows "sys_inv (unlocked u)"
  using assms(1)
  by (rule sys_inv_same_svc) (use assms(2-5) adds_onlyD [OF assms(6)] in auto)

lemma invoke_safe:
  assumes "sys_inv w" "listeners (history w) i = Some d" "ed_callback d \<noteq> CbReg"
    and "invoke E i (ed_callback d) hdr log (in_monitor w) = (r, u)"
  shows "\<not> is_undef r \<and> sys_inv (unlocked u)"
proof -
  have cb: "cb_inv w d (ed_callback d)" and valid: "past_refs_valid w"
    using assms(1,2) by (auto simp: sys_inv_def store_inv_def)
  show ?thesis
  proof (cases "ed_callback d")
    case CbDeploy
    with assms(1,4) show ?thesis by (simp add: invoke_deploy)
  next
    case CbReg
    with assms(3) show ?thesis by simp
  next
    case CbNotifyPast
    with assms(4) have "notify_past_event_handler E hdr log (in_monitor w) = (r, u)" by simp
    from notify_past_outcome [OF _ _ this] valid show ?thesis
      by (auto intro!: invoke_queue [OF assms(1)])
  next
    case (CbNotify q logger)
    with assms(4) have "notify_event_handler E q logger hdr log (in_monitor w) = (r, u)" by simp
    from notify_outcome [OF _ _ this] cb CbNotify show ?thesis
      by (auto simp: sub_queue_def intro!: invoke_queue [OF assms(1)])
  next
    case (CbReceipt q logger)
    with assms(4) have "subscribed_receipt_handler q logger hdr log (in_monitor w) = (r, u)" by simp
    from receipt_outcome [OF _ _ this] cb CbReceipt show ?thesis
      by (auto intro!: invoke_queue [OF assms(1)])
  qed
qed

lemma invoke_defined:
  assumes "sys_inv w" "abi_word_sized E" "listeners (history w) i = Some d"
  shows "\<not> is_undef (fst (invoke E i (ed_callback d) hdr log (in_monitor w)))"
  using invoke_safe [OF assms(1,3) _ surjective_pairing] reg_defined [OF _ assms(2)]
  by (cases "ed_callback d = CbReg") auto

text \<open>A new queue, and what a step adds to the tasks.\<close>

lemma new_sub_queue:
  assumes "sys_inv w" "svc u = svc w" "length (evqs w) < length (evqs u)"
  shows "sub_queue u (length (evqs w))"
proof -
  have "past_refs_valid w" using sys_inv_store [OF assms(1)] by (simp add: store_inv_def)
  then show ?thesis using assms(2,3) by (auto simp: sub_queue_def dest: past_refs_validD)
qed

lemma em_inv_tasks [simp]: "em_inv (w\<lparr>tasks := ts\<rparr>) e = em_inv w e"
  by (cases e) (simp_all add: sub_queue_def)

lemma task_inv_tasks [simp]: "task_inv (w\<lparr>tasks := ts\<rparr>) t = task_inv w t"
  by (cases t) (simp_all add: sub_queue_def)

lemma sys_inv_tasks:
  assumes "sys_inv w" "\<And>t. t \<in> set ts \<Longrightarrow> t \<in> set (tasks w) \<or> task_inv w t"
  shows "sys_inv (w\<lparr>tasks := ts\<rparr>)"
  using assms(1) by (rule_tac sys_inv_same_svc) (use assms in \<open>auto simp: sys_inv_def\<close>)

lemma sys_inv_begun: "sys_inv w \<Longrightarrow> (\<And>t. t \<in> set ts \<Longrightarrow> task_inv w t) \<Longrightarrow> sys_inv (begun ts w)"
  unfolding begun_def by (rule sys_inv_tasks) auto

lemma sys_inv_followed:
  assumes "sys_inv w" "\<And>ts t'. r = Inr ts \<Longrightarrow> t' \<in> set ts \<Longrightarrow> task_inv w t'"
  shows "sys_inv (followed t r w)"
  unfolding followed_def
  by (rule sys_inv_tasks [OF assms(1)])
    (use assms(2) in \<open>auto dest: set_remove1_subset [THEN subsetD] split: sum.splits\<close>)

lemma quiet_outcome:
  assumes "guar quiet m" "balanced m" "sys_inv w" "m w = (r, u)"
  shows "sys_inv u" "quiet w u"
  using quiet_run_inv [OF assms(1-3)] assms(1,4) by (auto dest: guarD)

lemma quiet_task_inv: "quiet w u \<Longrightarrow> task_inv u t = task_inv w t"
proof -
  assume "quiet w u"
  then have "svc u = svc w" "evqs u = evqs w" "recqs u = recqs w" by (simp_all add: quiet_def)
  moreover from this have "em_inv u e = em_inv w e" for e by (cases e) (simp_all add: sub_queue_def)
  ultimately show ?thesis by (cases t) (simp_all add: sub_queue_def)
qed

section \<open>The parts of the tasks\<close>

lemma balanced_sections [balanced_rules]:
  "balanced (sec_section E)" "balanced (send_section E s m)" "balanced (take_section e)"
  "balanced (attach_section E e)" "balanced (receipt_listen_section E addr topics)"
  "balanced (reg_map_section p a)" "balanced (reg_store_section a)" "balanced (reg_listen_section E hdr p a)"
proof -
  show "balanced (take_section e)" by (cases e) (auto intro!: balanced_rules)
qed (unfold sec_section_def send_section_def attach_section_def receipt_listen_section_def
    reg_map_section_def reg_store_section_def reg_listen_section_def,
  (auto intro!: balanced_rules)+)

lemma balanced_read [balanced_rules]: "balanced (read_section E a x m)"
  by (cases x) (auto intro!: balanced_rules)

lemma balanced_cancelling [balanced_rules]: "balanced m \<Longrightarrow> balanced (cancelling E e m)"
  unfolding cancelling_def by (intro balanced_rules)

lemma balanced_task: "balanced (task_prog E t)"
  by (cases "(E, t)" rule: task_prog.cases) (auto intro!: balanced_rules)

text \<open>Parts that read shared state, or send and cancel.\<close>

fun quiet_task :: "task \<Rightarrow> bool" where
  "quiet_task (RListen s a order) = False"
| "quiet_task (RAttach e) = False"
| "quiet_task (GStore hdr p a) = False"
| "quiet_task (GListen hdr p a) = False"
| "quiet_task _ = True"

lemma guar_quiet_task: "quiet_task t \<Longrightarrow> guar quiet (task_prog E t)"
  by (cases "(E, t)" rule: task_prog.cases) (auto intro!: quiet_frame.guar_bnd quiet_frame.guar_pure quiet_rules)

lemma quiet_task_next:
  assumes "quiet_task t" "task_prog E t w = (Inr ts, u)" "t' \<in> set ts"
  shows "task_inv v t' = task_inv v t"
  using assms by (cases "(E, t)" rule: task_prog.cases) (auto dest!: bnd_returns)

lemma send_defined: "\<not> is_undef (fst (send_section E s m w))"
  by (simp add: send_section_def sized_send_def prog_run ext_result_def split: sum.split)

lemma read_defined: "held w = {} \<Longrightarrow> past_refs_valid w \<Longrightarrow> \<not> is_undef (fst (read_section E a x m w))"
  by (cases x) (simp_all add: sec_section_def prog_run split: sum.split)

lemma cancelling_defined: "\<not> is_undef (fst (m w)) \<Longrightarrow> \<not> is_undef (fst (cancelling E e m w))"
  by (cases "m w") (auto simp: cancelling_def try_catch_def bnd_run cancel_def ext_result_def is_undef_Inl
      split: sum.split fault.split)

lemma bnd_ret_defined: "\<not> is_undef (fst (m w)) \<Longrightarrow> \<not> is_undef (fst (bnd m (\<lambda>x. ret (f x)) w))"
  by (cases "m w") (auto simp: bnd_def is_undef_Inl split: sum.split)

lemma quiet_task_defined:
  assumes "sys_inv w" "quiet_task t"
  shows "\<not> is_undef (fst (task_prog E t w))"
proof -
  have "held w = {}" "past_refs_valid w" using assms(1) by (simp_all add: sys_inv_def store_inv_def)
  then show ?thesis
    using assms(2)
    by (cases "(E, t)" rule: task_prog.cases)
      (simp_all add: bnd_ret_defined cancelling_defined read_defined send_defined)
qed

lemma listen_safe:
  assumes "sys_inv w" "subreq_listen E a w = (r, u)"
  shows "\<not> is_undef r \<and> tasks u = tasks w \<and> sys_inv u \<and> (\<forall>q i. r = Inr (q, i) \<longrightarrow> sub_queue u q)"
proof -
  have held: "held w = {}" using assms(1) by (simp add: sys_inv_def)
  let ?D = "\<lambda>d. \<exists>logger. ed_callback d = CbNotify (length (evqs w)) logger"
  have out: "\<not> is_undef r" "svc u = svc w" "evqs u = evqs w @ [[]]" "recqs u = recqs w"
      "tasks u = tasks w" "held u = {}" "adds_only ?D (history w) (history u)"
      "\<And>q i. r = Inr (q, i) \<Longrightarrow> q = length (evqs w)"
    using assms(2) held
    by (auto simp: subreq_listen_run Let_def subscribing_log_def build_notify_event_descr_def split: sum.splits)
  have queue: "sub_queue u (length (evqs w))"
    by (rule new_sub_queue [OF assms(1)]) (simp_all add: out)
  have "sys_inv u"
    by (rule sys_inv_same_svc [OF assms(1)]) (use out queue adds_onlyD [OF out(7)] in force)+
  with out queue show ?thesis by blast
qed

lemma receipt_listen_safe:
  assumes "sys_inv w" "receipt_listen_section E addr topics w = (r, u)"
  shows "\<not> is_undef r \<and> tasks u = tasks w \<and> sys_inv u \<and> (\<forall>q i. r = Inr (q, i) \<longrightarrow> q < length (recqs u))"
proof -
  have held: "held w = {}" using assms(1) by (simp add: sys_inv_def)
  let ?D = "\<lambda>d. \<exists>logger. ed_callback d = CbReceipt (length (recqs w)) logger"
  have out: "\<not> is_undef r" "svc u = svc w" "evqs u = evqs w" "recqs u = recqs w @ [[]]"
      "tasks u = tasks w" "held u = {}" "adds_only ?D (history w) (history u)"
      "\<And>q i. r = Inr (q, i) \<Longrightarrow> q = length (recqs w)"
    using assms(2) held
    by (auto simp: receipt_listen_section_def prog_run listen_def build_subscribed_event_descr_def
        split: sum.splits)
  have "sys_inv u"
    by (rule sys_inv_same_svc [OF assms(1)]) (use out adds_onlyD [OF out(7)] in force)+
  with out show ?thesis by auto
qed

lemma attach_safe:
  assumes "sys_inv w" "em_inv w e" "attach_section E e w = (r, u)"
  shows "\<not> is_undef r \<and> tasks u = tasks w \<and> sys_inv u"
proof -
  have held: "held w = {}" using assms(1) by (simp add: sys_inv_def)
  have out: "\<not> is_undef r" "svc u = svc w" "evqs u = evqs w" "recqs u = recqs w" "tasks u = tasks w"
      "held u = {}" "listeners (history u) = listeners (history w)"
      "\<And>e'. EmitterAdded e' \<in> set (history u) \<Longrightarrow> EmitterAdded e' \<in> set (history w) \<or> e' = e"
    using assms(3) held by (auto simp: attach_section_def add_emitter_def prog_run split: sum.splits)
  have em: "em_inv u e" using assms(2) out by (cases e) (simp_all add: sub_queue_def)
  have "sys_inv u"
  proof (rule sys_inv_same_svc [OF assms(1)])
    show "EmitterAdded e' \<in> set (history w) \<or> em_inv u e'" if "EmitterAdded e' \<in> set (history u)" for e'
      using out(8) [OF that] em by auto
  qed (use out in auto)
  with out show ?thesis by blast
qed

lemma take_outcome:
  fixes w u :: system
  assumes "em_inv w e" "held w = {}" "take_section e w = (r, u)"
  shows "svc u = svc w" "tasks u = tasks w" "history u = history w" "held u = {}"
    "length (evqs u) = length (evqs w)" "length (recqs u) = length (recqs w)" "\<exists>load. r = Inr load"
  using assms by (cases e; auto simp: prog_run sub_queue_def)+

lemma em_inv_lengths:
  "em_inv w e \<Longrightarrow> svc u = svc w \<Longrightarrow> length (evqs u) = length (evqs w) \<Longrightarrow>
     length (recqs u) = length (recqs w) \<Longrightarrow> em_inv u e"
  by (cases e) (simp_all add: sub_queue_def)

lemma take_safe:
  assumes "sys_inv w" "EmitterAdded e \<in> set (history w)" "take_section e w = (r, u)"
  shows "\<not> is_undef r \<and> sys_inv u \<and> em_inv u e"
proof -
  have held: "held w = {}" and em: "em_inv w e" using assms(1,2) by (auto simp: sys_inv_def)
  note out = take_outcome [OF em held assms(3)]
  have "sys_inv u"
    by (rule sys_inv_same_svc [OF assms(1)]) (use out in auto)
  moreover have "em_inv u e" using em out(1,5,6) by (rule em_inv_lengths)
  ultimately show ?thesis using out(7) by auto
qed

lemma in_monitor_alt: "w\<lparr>held := {MonitorMutex}\<rparr> = in_monitor w"
  by (simp add: in_monitor_def)

lemma map_safe:
  assumes "sys_inv w" "is_deployed (svc w)" "reg_map_section p a (in_monitor w) = (r, u)"
  shows "sys_inv (unlocked u) \<and> is_deployed (svc u)"
proof -
  have u: "u = (in_monitor w)\<lparr>svc := (svc w)\<lparr>ev_mgr_addr_map := (ev_mgr_addr_map (svc w))(p \<mapsto> a)\<rparr>\<rparr>"
    using assms(3) by (simp add: reg_map_run)
  have "sys_inv (unlocked u)" using assms(1)
  proof (rule sys_inv_ext)
    show "sys_ext w (unlocked u)" by (simp add: u sys_ext_def)
    show "store_inv (unlocked u)"
      by (rule store_inv_published [OF sys_inv_store [OF assms(1)] assms(2)]) (simp_all add: u)
  qed (simp_all add: u)
  with assms(2) show ?thesis by (simp add: u)
qed

lemma store_safe:
  assumes "sys_inv w" "is_deployed (svc w)" "reg_store_section a (in_monitor w) = (r, u)"
  shows "r = Inr () \<and> tasks u = tasks w \<and> sys_inv (unlocked u) \<and> past_event_store (svc u) a \<noteq> None"
proof -
  have u: "r = Inr ()" "u = (in_monitor w)\<lparr>evqs := evqs w @ [[]], svc := (svc w)\<lparr>past_event_store :=
      emplace a (length (evqs w)) (past_event_store (svc w))\<rparr>\<rparr>"
    using assms(3) by (simp_all add: reg_store_run)
  have "sys_inv (unlocked u)" using assms(1)
  proof (rule sys_inv_ext)
    show "sys_ext w (unlocked u)"
      by (auto simp: u(2) sys_ext_def emplace_extends emplace_apply split: if_splits)
    show "store_inv (unlocked u)"
      by (rule store_inv_stored [OF sys_inv_store [OF assms(1)] assms(2)]) (simp_all add: u)
  qed (simp_all add: u)
  with u show ?thesis by (simp add: emplace_apply)
qed

lemma reg_listen_safe:
  assumes "sys_inv w" "past_event_store (svc w) a \<noteq> None" "reg_listen_section E hdr p a (in_monitor w) = (r, u)"
  shows "\<not> is_undef r \<and> tasks u = tasks w \<and> sys_inv (unlocked u)"
proof -
  note out = reg_listen_outcome [OF assms(3), simplified]
  have "sys_inv (unlocked u)"
  proof (rule sys_inv_same_svc [OF assms(1)])
    show "listeners (history w) j = Some d \<or> cb_inv (unlocked u) d (ed_callback d)"
      if "listeners (history (unlocked u)) j = Some d" for j d
      using adds_onlyD(1) [OF out(7), of j d] that out(2) assms(2)
      by (auto simp: build_notify_past_event_descr_def)
  qed (use out adds_onlyD(2) [OF out(7)] in auto)
  with out show ?thesis by blast
qed

lemma task_safe:
  assumes "sys_inv w" "t \<in> set (tasks w)" "task_prog E t (w\<lparr>held := task_locks t\<rparr>) = (r, u)"
  shows "\<not> is_undef r \<and> sys_inv (followed t r (unlocked u))"
proof -
  have held: "held w = {}" and t: "task_inv w t" using assms(1,2) by (auto simp: sys_inv_def)
  have idle: "w\<lparr>held := {}\<rparr> = w" using held by simp
  have same: "unlocked v = v" if "sys_inv v" for v using that by (simp add: unlocked_def sys_inv_def)
  show ?thesis
  proof (cases "quiet_task t")
    case True
    then have "task_locks t = {}" by (cases t) simp_all
    then have run: "task_prog E t w = (r, u)" using assms(3) idle by simp
    note out = quiet_outcome [OF guar_quiet_task [OF True] balanced_task assms(1) run]
    have "task_inv u t'" if "r = Inr ts" "t' \<in> set ts" for ts t'
      using quiet_task_next [OF True run [unfolded that(1)] that(2)] t quiet_task_inv [OF out(2)] by simp
    then have "sys_inv (followed t r u)" using out(1) by (intro sys_inv_followed)
    then show ?thesis using quiet_task_defined [OF assms(1) True, of E] run same [OF out(1)] by simp
  next
    case False
    then consider (listen) s a order where "t = RListen s a order" | (attach) e where "t = RAttach e"
      | (store) hdr p a where "t = GStore hdr p a" | (reg) hdr p a where "t = GListen hdr p a"
      by (cases t) simp_all
    then show ?thesis
    proof cases
      case listen
      obtain q v where v: "subreq_listen E a w = (q, v)" by fastforce
      note safe = listen_safe [OF assms(1) v]
      have "(r, u) = (case q of Inl e \<Rightarrow> Inl e | Inr (q, i) \<Rightarrow> Inr [RRead s a q i (unread (Events [])) order], v)"
        using assms(3) listen idle v by (auto simp: bnd_def split: sum.splits)
      then show ?thesis using safe same by (auto intro!: sys_inv_followed simp: is_undef_Inl split: sum.splits)
    next
      case attach
      obtain q v where v: "attach_section E e w = (q, v)" by fastforce
      have "(r, u) = (case q of Inl e \<Rightarrow> Inl e | Inr _ \<Rightarrow> Inr [], v)"
        using assms(3) attach idle v by (auto simp: bnd_def split: sum.splits)
      then show ?thesis using attach_safe [OF assms(1) _ v] t attach same
        by (auto intro!: sys_inv_followed simp: is_undef_Inl split: sum.splits)
    next
      case store
      obtain q v where v: "reg_store_section a (in_monitor w) = (q, v)" by fastforce
      note safe = store_safe [OF assms(1) _ v]
      then have "r = Inr [GListen hdr p a]" "u = v"
        using assms(3) store t v by (auto simp: in_monitor_alt bnd_def)
      with safe t store show ?thesis by (auto intro!: sys_inv_followed)
    next
      case reg
      obtain q v where v: "reg_listen_section E hdr p a (in_monitor w) = (q, v)" by fastforce
      have "(r, u) = (case q of Inl e \<Rightarrow> Inl e | Inr _ \<Rightarrow> Inr [], v)"
        using assms(3) reg v by (auto simp: in_monitor_alt bnd_def split: sum.splits)
      then show ?thesis using reg_listen_safe [OF assms(1) _ v] t reg
        by (auto intro!: sys_inv_followed simp: is_undef_Inl split: sum.splits)
    qed
  qed
qed

lemma step_keeps_inv:
  assumes "sys_step E w l u" "sys_inv w"
  shows "sys_inv u"
  using assms(1)
proof cases
  case (step_notify i d log hdr)
  then show ?thesis using invoke_safe assms(2) by (metis prod.collapse)
next
  case (step_reg i d log p a v hdr)
  then have "is_deployed (svc w)" using assms(2) by (force simp: sys_inv_def)
  from map_safe [OF assms(2) this step_reg(7)] show ?thesis
    unfolding step_reg(2) using reg_addresses_sized [OF step_reg(6)] by (intro sys_inv_begun) simp_all
next
  case (step_take e load v order)
  with take_safe [OF assms(2) step_take(3,4)] show ?thesis
    by (auto intro!: sys_inv_begun)
next
  case (step_lookup msg p a v order s)
  from quiet_outcome(1) [OF quiet_sections(1) balanced_sub_req(1) assms(2) step_lookup(3)]
  show ?thesis unfolding step_lookup(2) by (rule sys_inv_begun) auto
next
  case (step_receipt_listen msg addr topics r v s)
  from receipt_listen_safe [OF assms(2) step_receipt_listen(4)]
  show ?thesis unfolding step_receipt_listen(2) by (intro sys_inv_begun) (auto split: sum.splits)
next
  case (step_task t r v)
  then show ?thesis using task_safe assms(2) by blast
next
  case (step_seen hdr)
  have "quiet w u" "held u = {}"
    using step_seen assms(2) by (simp_all add: quiet_def sys_inv_def)
  with assms(2) show ?thesis by (rule quiet_inv)
qed (use assms(2) in \<open>simp_all add: quiet_run_inv quiet_block balanced_rules balanced_on_header_confirmed\<close>)

section \<open>Reachable states\<close>

lemma quiet_init:
  "guar quiet (global_initialization E)" "guar quiet (print_my_info E)"
  "guar quiet (request_app_cert E cs key)" "guar quiet (setup_step E name)"
  "guar quiet (register_handler E name f)" "guar quiet (updates (\<lambda>w. w\<lparr>mgr_set := True\<rparr>))"
  unfolding global_initialization_def print_my_info_def request_app_cert_def setup_step_def
    platform_print_def read_info_def register_handler_def
  by (intro quiet_frame.guar_rt quiet_frame.guar_ext_result quiet_updates; simp add: quiet_call_def)+

lemma balanced_init [balanced_rules]:
  "balanced (global_initialization E)" "balanced (print_my_info E)"
  "balanced (request_app_cert E cs key)" "balanced (setup_step E name)"
  "balanced (register_handler E name f)" "balanced (blockchain_mgr E config n a sg st)"
  unfolding global_initialization_def print_my_info_def request_app_cert_def setup_step_def
    platform_print_def read_info_def register_handler_def blockchain_mgr_def
  by (intro balanced_rules; simp)+

lemma manager_outcome:
  fixes w u :: system
  assumes "blockchain_mgr E config n a sg st w = (Inr y, u)"
  shows "svc u = st" "evqs u = evqs w" "recqs u = recqs w" "tasks u = tasks w"
    "adds_only (\<lambda>d. d = build_deploy_event_descr st) (history w) (history u)"
  using assms
  by (auto simp: blockchain_mgr_def prog_run refresh_bootstrap_plan_def start_service_def listen_def
      split: sum.splits prod.splits)

lemma initialised_state:
  assumes "initialised E w"
  shows "sys_inv w \<and> \<not> is_deployed (svc w) \<and> evqs w = []"
proof -
  obtain v config n a sg p where fresh: "fresh_process v"
    and run: "init_enclave E config n a sg p v = (Inr (), w)"
    using assms unfolding initialised_def by blast
  let ?st = "pubsub_service_store E p ''ServiceDeployed(address)''
      ''PublisherRegistered(address,address)'' ''NotifySubscribers(bytes)''"
  let ?before = "bnd (global_initialization E) (\<lambda>_. bnd (print_my_info E) (\<lambda>_.
     bnd (request_app_cert E ''DecentCert_Secp256r1'' ''Secp256r1'') (\<lambda>_.
     request_app_cert E ''DecentCert_Secp256k1'' ''Secp256k1'' :: (system, unit) prog)))"
  let ?after = "bnd (updates (\<lambda>w. w\<lparr>mgr_set := True\<rparr>)) (\<lambda>_.
     bnd (setup_step E ''LambdaServerConfig'') (\<lambda>_.
     bnd (register_handler E ''PubSub.Subscribe'' PubsubSubHandler) (\<lambda>_.
     bnd (register_handler E ''Receipt.Subscribe'' ReceiptSubHandler) (\<lambda>_.
     register_handler E ''Transaction.SendRaw'' SendRawHandler :: (system, unit) prog))))"
  have split: "bnd ?before (\<lambda>_. bnd (blockchain_mgr E config n a sg ?st) (\<lambda>_. ?after)) v = (Inr (), w)"
    using run by (simp add: init_enclave_def bnd_assoc)
  from bnd_returns [OF split] obtain x b where b: "?before v = (Inr x, b)"
    and rest: "bnd (blockchain_mgr E config n a sg ?st) (\<lambda>_. ?after) b = (Inr (), w)" by blast
  from bnd_returns [OF rest] obtain y m where m: "blockchain_mgr E config n a sg ?st b = (Inr y, m)"
    and w: "?after m = (Inr (), w)" by blast
  have before: "guar quiet ?before" "balanced ?before"
    by (rule quiet_frame.guar_bnd quiet_init)+ (rule balanced_comb balanced_init)+
  have qb: "quiet v b" using before(1) b by (rule guarD)
  have hb: "held b = {}" using balancedD [OF before(2) b] fresh by (simp add: fresh_process_def)
  have hm: "held m = {}" using balancedD [OF balanced_init(6) m] hb by simp
  have none: "listeners (history b) = Map.empty" "\<And>e. EmitterAdded e \<notin> set (history b)"
    "evqs b = []" "tasks b = []"
    using qb fresh by (auto simp: quiet_def fresh_process_def map_le_def dom_def fun_eq_iff)
  note out = manager_outcome [OF m]
  have "sys_inv m"
    unfolding sys_inv_def
  proof (intro conjI allI impI ballI)
    show "cb_inv m d (ed_callback d)" if "listeners (history m) i = Some d" for i d
      using adds_onlyD(1) [OF out(5) that] none(1) out(1) by (auto simp: build_deploy_event_descr_def)
    show "store_inv m"
      using out(1) by (simp add: store_inv_def past_refs_valid_def past_refs_distinct_def
          pubsub_service_store_def)
    show "em_inv m e" if "EmitterAdded e \<in> set (history m)" for e
      using adds_onlyD(2) [OF out(5) that] none(2) by blast
  qed (use hm none out in simp_all)
  moreover have after: "guar quiet ?after" "balanced ?after"
    by (rule quiet_frame.guar_bnd quiet_init)+ (rule balanced_comb balanced_init balanced_updates, simp?)+
  ultimately have "sys_inv (snd (?after m))" by (rule_tac quiet_run_inv)
  moreover have "svc w = svc m" "evqs w = evqs m" using guarD [OF after(1) w] by (simp_all add: quiet_def)
  ultimately show ?thesis using w out(1,2) none(3) by (simp add: pubsub_service_store_def)
qed

lemmas initialised_inv = initialised_state [THEN conjunct1]

lemma run_keeps_inv: "sys_run E w ls u \<Longrightarrow> sys_inv w \<Longrightarrow> sys_inv u"
  by (induction rule: sys_run.induct) (auto dest: step_keeps_inv)

lemma reachable_inv: "reachable E w \<Longrightarrow> sys_inv w"
  unfolding reachable_def using initialised_inv run_keeps_inv by blast

end
