(* ===== verification/TaskParts.thy ===== *)
theory TaskParts
  imports PubsubSystem
begin

text \<open>
  The parts of a task on their own: a part does not look at the tasks of other threads (\<open>blind\<close>), it is
  followed by one task at the most, of a smaller rank and of the same thread, and which parts wait for the
  mutex of the monitor.
\<close>

section \<open>How much is left of a task\<close>

fun task_rank :: "task \<Rightarrow> nat" where
  "task_rank (RListen s a order) = length order + 3"
| "task_rank (RRead s a q i m order) = length order + 2"
| "task_rank (RAttach e) = 1"
| "task_rank (BRead e m order) = length order + 1"
| "task_rank (GStore hdr p a) = 2"
| "task_rank (GListen hdr p a) = 1"

section \<open>Parts do not look at the tasks\<close>

definition blind :: "(system, 'a) prog \<Rightarrow> bool" where
  "blind m \<longleftrightarrow> (\<forall>w ts. m (w\<lparr>tasks := ts\<rparr>) = (fst (m w), (snd (m w))\<lparr>tasks := ts\<rparr>))"

named_theorems blind_rules
  \<open>methods that do not look at the tasks\<close>

lemma blindD: "blind m \<Longrightarrow> m w = (r, u) \<Longrightarrow> m (w\<lparr>tasks := ts\<rparr>) = (r, u\<lparr>tasks := ts\<rparr>)"
  by (simp add: blind_def)

lemma blindI: "(\<And>w r u ts. m w = (r, u) \<Longrightarrow> m (w\<lparr>tasks := ts\<rparr>) = (r, u\<lparr>tasks := ts\<rparr>)) \<Longrightarrow> blind m"
  unfolding blind_def by (metis prod.collapse)

lemma blind_tasks:
  assumes "blind m" "m w = (r, u)"
  shows "tasks u = tasks w"
proof -
  have "m w = (r, u\<lparr>tasks := tasks w\<rparr>)" using blindD [OF assms, of "tasks w"] by simp
  with assms(2) have "u = u\<lparr>tasks := tasks w\<rparr>" by simp
  from arg_cong [OF this, of tasks] show ?thesis by simp
qed

lemma blind_pure [blind_rules]:
  "blind (ret x)" "blind (raise e)" "blind (undef e)" "blind (lift_res r)" "blind (lib q)" "blind (ask f)"
  "blind (log_msg l n k)"
  by (simp_all add: blind_def ask_def log_msg_run)

lemma blind_reads [blind_rules]: "(\<And>w ts. g (w\<lparr>tasks := ts\<rparr>) = g w) \<Longrightarrow> blind (reads g)"
  by (simp add: blind_def)

lemma blind_updates [blind_rules]:
  "(\<And>w ts. g (w\<lparr>tasks := ts\<rparr>) = (g w)\<lparr>tasks := ts\<rparr>) \<Longrightarrow> blind (updates g)"
  by (simp add: blind_def)

lemma blind_bnd [blind_rules]: "blind m \<Longrightarrow> (\<And>x. blind (f x)) \<Longrightarrow> blind (bnd m f)"
  unfolding blind_def bnd_def by (simp split: prod.split sum.split)

lemma blind_try_catch [blind_rules]: "blind m \<Longrightarrow> (\<And>e. blind (h e)) \<Longrightarrow> blind (try_catch m h)"
  unfolding blind_def try_catch_def by (simp split: prod.split sum.split fault.split)

lemma blind_with_lock [blind_rules]:
  assumes "blind m"
  shows "blind (with_lock l m)"
proof -
  have "w\<lparr>tasks := ts, held := H\<rparr> = w\<lparr>held := H, tasks := ts\<rparr>" for w :: system and H ts
    by simp
  then have "m (w\<lparr>tasks := ts, held := H\<rparr>) = (fst (m (w\<lparr>held := H\<rparr>)), (snd (m (w\<lparr>held := H\<rparr>)))\<lparr>tasks := ts\<rparr>)"
    for w H ts
    using assms by (simp only: blind_def)
  then show ?thesis
    unfolding blind_def with_lock_def by (simp add: case_prod_beta)
qed

lemma blind_ext_result [blind_rules]: "blind (ext_result g c)"
  unfolding blind_def ext_result_def by (simp split: sum.split)

lemma blind_sections [blind_rules]:
  "blind (subreq_listen E a)" "blind (sec_section E)" "blind get_last_validated_blk_num"
  "blind (get_past_events a)" "blind (send_section E s m)" "blind (attach_section E e)"
  "blind (reg_store_section a)" "blind (reg_listen_section E hdr p a)"
proof -
  have queue: "blind (event_queue_at q)" "blind new_event_queue" for q
    by (simp_all add: blind_def event_queue_at_def new_event_queue_def)
  show "blind (subreq_listen E a)" "blind (sec_section E)" "blind get_last_validated_blk_num"
    "blind (get_past_events a)" "blind (send_section E s m)" "blind (attach_section E e)"
    "blind (reg_store_section a)" "blind (reg_listen_section E hdr p a)"
    unfolding subreq_listen_def get_notify_event_topic_def sec_section_def get_monitor_sec_state_def
      get_last_validated_blk_num_def get_past_events_def send_section_def attach_section_def
      reg_store_section_def reg_listen_section_def update_svc_def ext_defs
    by (auto intro!: blind_rules queue split: option.split)
qed

lemma blind_read [blind_rules]: "blind (read_section E a x m)"
  by (cases x) (auto intro!: blind_rules)

lemma blind_cancelling [blind_rules]: "blind m \<Longrightarrow> blind (cancelling E e m)"
  unfolding cancelling_def cancel_def by (intro blind_rules)

lemma blind_queues [blind_rules]:
  "blind (event_queue_push q x)" "blind (event_queue_drain q)" "blind (receipt_queue_push q r)"
  "blind (receipt_queue_drain q)" "blind new_receipt_queue"
proof -
  have queue: "blind (event_queue_at q)" "blind (set_event_queue q xs)" "blind (receipt_queue_at q)"
    "blind (set_receipt_queue q rs)" for q xs rs
    by (simp_all add: blind_def event_queue_at_def set_event_queue_def receipt_queue_at_def set_receipt_queue_def)
  show "blind (event_queue_push q x)" "blind (event_queue_drain q)" "blind (receipt_queue_push q r)"
    "blind (receipt_queue_drain q)"
    unfolding event_queue_push_def event_queue_drain_def receipt_queue_push_def receipt_queue_drain_def
    by (intro blind_rules queue)+
  show "blind new_receipt_queue" by (simp add: blind_def new_receipt_queue_def)
qed

lemma blind_invoke [blind_rules]: "blind (invoke E i c hdr log)"
proof (cases c)
  case CbReg
  then show ?thesis
    by (simp add: reg_handler_sections reg_map_section_def update_svc_def)
      (auto intro!: blind_rules)
qed (auto intro!: blind_rules simp: deploy_event_handler_def notify_past_event_handler_def
    notify_event_handler_def subscribed_receipt_handler_def update_svc_def ext_defs split: option.split)

lemma blind_take [blind_rules]: "blind (take_section e)"
  by (cases e) (auto intro!: blind_rules)

lemma blind_receipt_listen [blind_rules]: "blind (receipt_listen_section E addr topics)"
  unfolding receipt_listen_section_def ext_defs by (intro blind_rules)

lemma blind_task: "blind (task_prog E t)"
  by (cases "(E, t)" rule: task_prog.cases) (auto intro!: blind_rules)

text \<open>A task is followed by one task at the most, in the same critical section of the block thread.\<close>

lemma task_next:
  assumes "task_prog E t w = (Inr ts, u)"
  shows "ts = [] \<or> (\<exists>t'. ts = [t'] \<and> task_locks t' = task_locks t \<and> task_rank t' < task_rank t)"
  using assms by (cases "(E, t)" rule: task_prog.cases) (auto dest!: bnd_returns split: prod.splits)

section \<open>Which parts wait for the mutex of the monitor\<close>

fun next_arg :: "task \<Rightarrow> arg option" where
  "next_arg (RRead s a q i m (x # xs)) = Some x"
| "next_arg (BRead e m (x # xs)) = Some x"
| "next_arg _ = None"

lemma bnd_waits: "waits_for (bnd m (\<lambda>x. ret (f x))) l w = waits_for m l w"
  by (auto simp: waits_for_def bnd_run split: prod.split sum.split)

lemma cancelling_waits: "waits_for (cancelling E e m) l w = waits_for m l w"
  by (auto simp: waits_for_def cancelling_def try_catch_def bnd_def cancel_def ext_result_def
      split: prod.split sum.split fault.split)

lemma sections_wait:
  assumes "sys_inv w"
  shows "waits_for (read_section E a x m) MonitorMutex w = (x \<noteq> ArgPast)"
    and "\<not> waits_for (send_section E s m) MonitorMutex w" "\<not> waits_for (attach_section E e) MonitorMutex w"
    and "\<not> waits_for (subreq_listen E a) MonitorMutex w" "\<not> waits_for (subreq_lookup E msg) MonitorMutex w"
    and "\<not> waits_for (receipt_listen_section E addr topics) MonitorMutex w"
    and "\<not> waits_for (send_raw E msg) MonitorMutex w"
proof -
  have held: "held w = {}" and valid: "past_refs_valid (w\<lparr>held := {MonitorMutex}\<rparr>)"
    using assms by (simp_all add: sys_inv_def store_inv_def past_refs_valid_def)
  show "waits_for (read_section E a x m) MonitorMutex w = (x \<noteq> ArgPast)"
  proof (cases x)
    case ArgSec
    with held show ?thesis
      by (simp add: bnd_waits) (simp add: waits_for_def sec_section_def get_monitor_sec_state_def with_lock_twice)
  next
    case ArgNum
    with held show ?thesis
      by (simp add: bnd_waits) (simp add: waits_for_def get_last_validated_blk_num_def with_lock_twice)
  next
    case ArgPast
    with held valid show ?thesis
      by (simp add: bnd_waits) (simp add: waits_for_def get_past_events_run)
  qed
  show "\<not> waits_for (send_section E s m) MonitorMutex w" "\<not> waits_for (attach_section E e) MonitorMutex w"
    "\<not> waits_for (subreq_listen E a) MonitorMutex w"
    "\<not> waits_for (receipt_listen_section E addr topics) MonitorMutex w"
    using held
    by (auto simp: waits_for_def send_section_def attach_section_def subreq_listen_def receipt_listen_section_def
        get_notify_event_topic_def ext_defs prog_run of_lib_def split: sum.split)
  show "\<not> waits_for (subreq_lookup E msg) MonitorMutex w" "\<not> waits_for (send_raw E msg) MonitorMutex w"
    using held
    by (auto simp: waits_for_def subreq_lookup_def send_raw_def prog_run of_lib_def split: sum.split prod.split)
qed

text \<open>A heartbeat takes its queue without that mutex; so the threads that may have to wait are those that
read the security state or the block number for a message.\<close>

lemma take_waits:
  assumes "sys_inv w" "em_inv w e"
  shows "\<not> waits_for (take_section e) MonitorMutex w"
  using assms by (cases e) (simp_all add: waits_for_def sys_inv_def sub_queue_def prog_run)

lemma task_waits:
  assumes "sys_inv w" "task_locks t = {}"
  shows "waits_for (task_prog E t) MonitorMutex w \<longleftrightarrow> next_arg t = Some ArgSec \<or> next_arg t = Some ArgNum"
proof (cases "(E, t)" rule: task_prog.cases)
  case (2 E' s a q i m x xs)
  then show ?thesis by (cases x) (simp_all only: task_prog.simps bnd_waits sections_wait(1) [OF assms(1)] next_arg.simps prod.inject option.inject arg.distinct simp_thms)
next
  case (5 E' e m x xs)
  then show ?thesis by (cases x) (simp_all only: task_prog.simps bnd_waits cancelling_waits sections_wait(1) [OF assms(1)] next_arg.simps prod.inject option.inject arg.distinct simp_thms)
qed (use assms sections_wait [OF assms(1)] in \<open>simp_all add: bnd_waits cancelling_waits case_prod_unfold\<close>)

end
