(* ===== verification/Exclusion.thy ===== *)
theory Exclusion
  imports TaskParts
begin

text \<open>
  The mutex of the monitor, for which threads wait: the block thread holds it from the beginning of
  \<^verbatim>\<open>AppendBlock\<close> to its end, and a thread that wants to lock it waits until then. It is the only mutex
  that is held between two steps of \<open>PubsubSystem\<close>. \<open>monitor_step\<close> is what the block thread does while it
  holds it, \<open>client_step\<close> what the other threads do, and \<open>excl_step\<close> the two together with the mutex: the
  interleavings the code has, which are among those of \<open>sys_step\<close>. The block thread is one thread: it
  goes on only when the registration event that it has begun is done (\<open>idle\<close>).

  What is shown: the runs under the mutex are runs of the system, so that all that holds of these holds of
  those; and the block thread has at most one registration event begun, and none when the mutex is free
  (\<open>excl_sequential\<close>).
\<close>

section \<open>Runs of a relation\<close>

inductive run_of :: "('s \<Rightarrow> 'l \<Rightarrow> 's \<Rightarrow> bool) \<Rightarrow> 's \<Rightarrow> 'l list \<Rightarrow> 's \<Rightarrow> bool" for R where
  run_of_none: "run_of R w [] w"
| run_of_more: "R w l v \<Longrightarrow> run_of R v ls u \<Longrightarrow> run_of R w (l # ls) u"

lemma run_of_one: "R w l u \<Longrightarrow> run_of R w [l] u"
  by (blast intro: run_of.intros)

lemma run_of_append: "run_of R w ls v \<Longrightarrow> run_of R v ls' u \<Longrightarrow> run_of R w (ls @ ls') u"
  by (induction rule: run_of.induct) (auto intro: run_of.intros)

lemma run_of_map: "run_of R w ls u \<Longrightarrow> (\<And>w l u. R w l u \<Longrightarrow> S (f w) l (f u)) \<Longrightarrow> run_of S (f w) ls (f u)"
  by (induction rule: run_of.induct) (auto intro: run_of.intros)

lemma run_of_keeps: "run_of R w ls u \<Longrightarrow> (\<And>w l u. R w l u \<Longrightarrow> P w \<Longrightarrow> P u) \<Longrightarrow> P w \<Longrightarrow> P u"
  by (induction rule: run_of.induct) blast+

lemma run_of_system: "run_of (sys_step E) w ls u \<Longrightarrow> sys_run E w ls u"
  by (induction rule: run_of.induct) (auto intro: sys_run.intros)

section \<open>Who makes a step\<close>

definition callbacks :: "system \<Rightarrow> task list" where
  "callbacks w = filter (\<lambda>t. task_locks t \<noteq> {}) (tasks w)"

definition idle :: "system \<Rightarrow> bool" where
  "idle w \<longleftrightarrow> callbacks w = []"

inductive monitor_step :: "env \<Rightarrow> system \<Rightarrow> label \<Rightarrow> system \<Rightarrow> bool" for E where
  monitor_own: "idle w \<Longrightarrow> monitor_step E w Silent (snd (own_step n w))"
| monitor_fetch: "idle w \<Longrightarrow> monitor_step E w Silent (snd (receipts_getter E n w))"
| monitor_latest: "idle w \<Longrightarrow> monitor_step E w Silent (snd (get_latest_block_num E w))"
| monitor_plan: "idle w \<Longrightarrow> monitor_step E w Silent (snd (refresh_bootstrap_plan E n start w))"
| monitor_seen: "idle w \<Longrightarrow> monitor_step E w Silent (w\<lparr>last_validated_blk_num := raw_number (hdr :: header)\<rparr>)"
| monitor_confirmed: "idle w \<Longrightarrow> monitor_step E w Silent (snd (on_header_confirmed E hdr w))"
| monitor_notify: "idle w \<Longrightarrow> listeners (history w) i = Some d \<Longrightarrow> log_matches d log \<Longrightarrow> ed_callback d \<noteq> CbReg \<Longrightarrow>
    monitor_step E w (Delivers (ed_callback d) hdr log)
      (unlocked (snd (invoke E i (ed_callback d) hdr log (in_monitor w))))"
| monitor_reg: "idle w \<Longrightarrow> listeners (history w) i = Some d \<Longrightarrow> log_matches d log \<Longrightarrow> ed_callback d = CbReg \<Longrightarrow>
    reg_addresses E log = Inr (p, a) \<Longrightarrow> reg_map_section p a (in_monitor w) = (Inr (), u) \<Longrightarrow>
    monitor_step E w (Delivers CbReg hdr log) (begun [GStore hdr p a] (unlocked u))"
| monitor_reg_malformed: "idle w \<Longrightarrow> listeners (history w) i = Some d \<Longrightarrow> log_matches d log \<Longrightarrow>
    ed_callback d = CbReg \<Longrightarrow> reg_addresses E log = Inl e \<Longrightarrow> monitor_step E w (Delivers CbReg hdr log) w"
| monitor_task: "t \<in> set (tasks w) \<Longrightarrow> task_locks t = {MonitorMutex} \<Longrightarrow>
    task_prog E t (w\<lparr>held := task_locks t\<rparr>) = (r, u) \<Longrightarrow>
    monitor_step E w (task_label t) (followed t r (unlocked u))"

text \<open>\<open>client_step E free\<close>: a step of another thread, when the mutex of the monitor is free or not.\<close>

inductive client_step :: "env \<Rightarrow> bool \<Rightarrow> system \<Rightarrow> label \<Rightarrow> system \<Rightarrow> bool" for E free where
  client_take: "EmitterAdded e \<in> set (history w) \<Longrightarrow> take_section e w = (Inr load, u) \<Longrightarrow> beat_order e order \<Longrightarrow>
    client_step E free w (take_label e load) (begun [BRead e (unread load) order] u)"
| client_lookup: "subreq_lookup E msg w = (Inr (p, a), u) \<Longrightarrow> a \<noteq> zero_addr \<Longrightarrow> reply_order order \<Longrightarrow>
    client_step E free w Silent (begun [RListen s a order] u)"
| client_log: "client_step E free w Silent (snd (log_msg lvl name m w))"
| client_receipt_listen: "receipt_request E msg = Inr (addr, Some topics) \<Longrightarrow>
    receipt_listen_section E addr topics w = (r, u) \<Longrightarrow>
    client_step E free w Silent (begun (case r of Inl e \<Rightarrow> [] | Inr (q, i) \<Rightarrow> [RAttach (ReceiptEmitter s q i)]) u)"
| client_send_raw: "client_step E free w Silent (snd (send_raw E msg w))"
| client_task: "t \<in> set (tasks w) \<Longrightarrow> task_locks t = {} \<Longrightarrow>
    free \<or> \<not> waits_for (task_prog E t) MonitorMutex w \<Longrightarrow>
    task_prog E t (w\<lparr>held := task_locks t\<rparr>) = (r, u) \<Longrightarrow>
    client_step E free w (task_label t) (followed t r (unlocked u))"

text \<open>The system with the mutex: the first component says whether the block thread holds it.\<close>

inductive excl_step :: "env \<Rightarrow> bool \<times> system \<Rightarrow> label \<Rightarrow> bool \<times> system \<Rightarrow> bool" for E where
  excl_lock: "excl_step E (False, w) Silent (True, w)"
| excl_unlock: "idle w \<Longrightarrow> excl_step E (True, w) Silent (False, w)"
| excl_monitor: "monitor_step E w l u \<Longrightarrow> excl_step E (True, w) l (True, u)"
| excl_client: "client_step E (\<not> busy) w l u \<Longrightarrow> excl_step E (busy, w) l (busy, u)"

definition excl_reachable :: "env \<Rightarrow> bool \<times> system \<Rightarrow> bool" where
  "excl_reachable E s \<longleftrightarrow> (\<exists>v ls. initialised E v \<and> run_of (excl_step E) (False, v) ls s)"

lemma excl_reachable_run: "excl_reachable E s \<Longrightarrow> run_of (excl_step E) s ls t \<Longrightarrow> excl_reachable E t"
  unfolding excl_reachable_def using run_of_append by fast

lemma excl_reachable_step: "excl_reachable E s \<Longrightarrow> excl_step E s l t \<Longrightarrow> excl_reachable E t"
  using excl_reachable_run run_of_one by fast

section \<open>Under the mutex there are only fewer runs\<close>

lemma monitor_step_system: "monitor_step E w l u \<Longrightarrow> sys_step E w l u"
  by (induction rule: monitor_step.induct) ((rule sys_step.intros; assumption)+)

lemma client_step_system: "client_step E free w l u \<Longrightarrow> sys_step E w l u"
  by (induction rule: client_step.induct) ((rule sys_step.intros; assumption)+)

lemma excl_step_system: "excl_step E s l t \<Longrightarrow> snd t = snd s \<or> sys_step E (snd s) l (snd t)"
  by (cases rule: excl_step.cases) (auto intro: monitor_step_system client_step_system)

lemma excl_reachable_system: "excl_reachable E s \<Longrightarrow> reachable E (snd s)"
proof -
  assume "excl_reachable E s"
  then obtain v ls where "initialised E v" "run_of (excl_step E) (False, v) ls s"
    unfolding excl_reachable_def by blast
  moreover have "reachable E v" unfolding reachable_def using calculation(1) run_nil by blast
  moreover have "reachable E (snd t)" if "excl_step E s l t" "reachable E (snd s)" for s l t
    using excl_step_system [OF that(1)] that(2) reachable_step by metis
  ultimately show ?thesis using run_of_keeps [of _ _ _ _ "\<lambda>s. reachable E (snd s)"] by fastforce
qed

lemma free_client: "client_step E False w l u \<Longrightarrow> client_step E free w l u"
  by (induction rule: client_step.induct) ((rule client_step.intros; simp)+)

lemma client_run_system: "run_of (client_step E free) w ls u \<Longrightarrow> sys_run E w ls u"
  by (induction rule: run_of.induct) (auto intro: sys_run.intros client_step_system)

lemma monitor_run_system: "run_of (monitor_step E) w ls u \<Longrightarrow> sys_run E w ls u"
  by (induction rule: run_of.induct) (auto intro: sys_run.intros monitor_step_system)

lemma client_run: "run_of (client_step E True) w ls u \<Longrightarrow> run_of (excl_step E) (False, w) ls (False, u)"
  by (induction rule: run_of.induct) (auto intro: run_of.intros excl_client [of E False, simplified])

lemma monitor_run: "run_of (monitor_step E) w ls u \<Longrightarrow> run_of (excl_step E) (True, w) ls (True, u)"
  by (induction rule: run_of.induct) (auto intro: run_of.intros excl_monitor)

section \<open>What a step does to the tasks\<close>

lemma task_locks_cases: "task_locks t = {} \<or> task_locks t = {MonitorMutex}"
  by (cases t) simp_all

lemma quiet_snd_tasks: "guar quiet m \<Longrightarrow> tasks (snd (m w)) = tasks w"
  by (metis guarD prod.collapse quiet_def)

lemma invoke_tasks: "tasks (snd (invoke E i c hdr log w)) = tasks w" for w :: system
  using blind_tasks [OF blind_invoke surjective_pairing] by blast

lemma part_tasks:
  assumes "task_prog E t (w\<lparr>held := H\<rparr>) = (r, u)"
  shows "tasks (followed t r (unlocked u)) = (case r of Inl e \<Rightarrow> [] | Inr ts \<Rightarrow> ts) @ remove1 t (tasks w)"
  using blind_tasks [OF blind_task assms] by (simp add: followed_def)

text \<open>A step brings up new tasks, or it is the next part of a task.\<close>

lemma step_tasks:
  assumes "sys_step E w l u"
  shows "(\<exists>new. tasks u = new @ tasks w) \<or>
    (\<exists>t r. t \<in> set (tasks w) \<and> l = task_label t \<and> (\<exists>v. task_prog E t (w\<lparr>held := task_locks t\<rparr>) = (r, v)) \<and>
       tasks u = (case r of Inl e \<Rightarrow> [] | Inr ts \<Rightarrow> ts) @ remove1 t (tasks w))"
  using assms
proof cases
  case (step_reg i d log p a v hdr)
  then show ?thesis by (auto simp: reg_map_run)
next
  case (step_take e load v order)
  then show ?thesis using blind_tasks [OF blind_take] by simp
next
  case (step_lookup msg p a v order s)
  then show ?thesis using guarD [OF quiet_sections(1) step_lookup(3)] by (simp add: quiet_def)
next
  case (step_receipt_listen msg addr topics r v s)
  then show ?thesis using blind_tasks [OF blind_receipt_listen] by simp
next
  case (step_task t r v)
  then show ?thesis using part_tasks [OF step_task(4)] by blast
qed (simp_all add: quiet_snd_tasks quiet_block invoke_tasks)

lemma next_part:
  assumes "task_prog E t w = (r, u)"
  shows "(case r of Inl e \<Rightarrow> [] | Inr ts \<Rightarrow> ts) = [] \<or>
    (\<exists>t'. (case r of Inl e \<Rightarrow> [] | Inr ts \<Rightarrow> ts) = [t'] \<and> task_locks t' = task_locks t \<and> task_rank t' < task_rank t)"
  using assms task_next by (cases r) fastforce+

section \<open>The block thread is one thread\<close>

lemma callbacks_part:
  assumes "t \<in> set (tasks w)" "task_prog E t (w\<lparr>held := task_locks t\<rparr>) = (r, u)"
  shows "callbacks (followed t r (unlocked u)) =
    (if task_locks t = {} then callbacks w
     else (case r of Inl e \<Rightarrow> [] | Inr ts \<Rightarrow> ts) @ remove1 t (callbacks w))"
proof -
  define ts where "ts = (case r of Inl e \<Rightarrow> [] | Inr ts \<Rightarrow> ts)"
  have "callbacks (followed t r (unlocked u)) =
      filter (\<lambda>t. task_locks t \<noteq> {}) ts @ remove1 t (callbacks w)"
    unfolding callbacks_def part_tasks [OF assms(2)] filter_append filter_remove1 ts_def by (rule refl)
  moreover have "filter (\<lambda>t. task_locks t \<noteq> {}) ts = (if task_locks t = {} then [] else ts)"
    using next_part [OF assms(2), folded ts_def] by (elim disjE exE conjE) simp_all
  moreover have "remove1 t (callbacks w) = callbacks w" if "task_locks t = {}"
    using that by (simp add: callbacks_def remove1_idem)
  ultimately show ?thesis unfolding ts_def [symmetric] by simp
qed

lemma client_callbacks:
  assumes "client_step E free w l u"
  shows "callbacks u = callbacks w"
  using assms
proof cases
  case (client_take e load v order)
  then show ?thesis using blind_tasks [OF blind_take client_take(4)]
    by (simp add: callbacks_def)
next
  case (client_lookup msg p a v order s)
  have "quiet w v" using quiet_sections(1) client_lookup(3) by (rule guarD)
  then have "tasks v = tasks w" by (simp add: quiet_def)
  then show ?thesis using client_lookup(2) by (simp add: callbacks_def)
next
  case (client_receipt_listen msg addr topics r v s)
  then have "tasks v = tasks w" using blind_tasks [OF blind_receipt_listen] by metis
  then show ?thesis using client_receipt_listen(2)
    by (cases r) (simp_all add: callbacks_def case_prod_unfold)
next
  case (client_task t r v)
  then show ?thesis using callbacks_part by simp
qed (simp_all add: callbacks_def quiet_snd_tasks quiet_block)

lemma monitor_callbacks:
  assumes "monitor_step E w l u" "length (callbacks w) \<le> 1"
  shows "length (callbacks u) \<le> 1"
  using assms(1)
proof cases
  case (monitor_reg i d log p a v hdr)
  then have "tasks v = tasks w" by (auto simp: reg_map_run)
  with monitor_reg show ?thesis by (simp add: callbacks_def idle_def)
next
  case (monitor_task t r v)
  then have "t \<in> set (callbacks w)" by (simp add: callbacks_def)
  with assms(2) have "callbacks w = [t]" by (cases "callbacks w") auto
  then have "callbacks u = (case r of Inl e \<Rightarrow> [] | Inr ts \<Rightarrow> ts)"
    using monitor_task callbacks_part [OF monitor_task(3,5)] by simp
  then show ?thesis using next_part [OF monitor_task(5)] by auto
qed (use assms(2) in \<open>simp_all add: callbacks_def quiet_snd_tasks quiet_block invoke_tasks\<close>)

lemma excl_step_sequential:
  assumes "excl_step E s l t" "length (callbacks (snd s)) \<le> 1" "fst s \<or> idle (snd s)"
  shows "length (callbacks (snd t)) \<le> 1 \<and> (fst t \<or> idle (snd t))"
  using assms
proof (induction rule: excl_step.induct)
  case (excl_monitor w l u)
  then show ?case using monitor_callbacks [of E w l u] by simp
qed (simp_all add: idle_def client_callbacks)

lemma excl_sequential:
  assumes "excl_reachable E s"
  shows "length (callbacks (snd s)) \<le> 1 \<and> (fst s \<or> idle (snd s))"
proof -
  obtain v ls where init: "initialised E v" and run: "run_of (excl_step E) (False, v) ls s"
    using assms unfolding excl_reachable_def by blast
  have "task_locks t = {}" if "t \<in> set (tasks v)" for t
    using initialised_state [OF init] that
    by (cases t) (force simp: sys_inv_def store_inv_def)+
  then have "callbacks v = []" by (simp add: callbacks_def)
  with run_of_keeps [OF run, of "\<lambda>s. length (callbacks (snd s)) \<le> 1 \<and> (fst s \<or> idle (snd s))"]
  show ?thesis using excl_step_sequential [of E] by (simp add: idle_def)
qed

end
