(* ===== verification/ConcreteRun.thy ===== *)
theory ConcreteRun
  imports Exclusion
begin

text \<open>
  A concrete run of the system, on which the properties are instantiated: initialisation, the deployment of
  the service contract, and the registration of a publisher in its three parts.
\<close>

definition example_fresh :: system where
  "example_fresh = \<lparr>held = {}, evqs = [], recqs = [], history = [], svc = example_store,
     last_chkpt_iter = 0, last_validated_blk_num = [], mgr_set = False, tasks = []\<rparr>"

definition example_started :: system where
  "example_started =
     snd (init_enclave example_env [] 8 (replicate 20 1) ''Sync'' (replicate 20 7) example_fresh)"

definition example_deploy_log :: log_entry where
  "example_deploy_log = \<lparr>contract_addr = replicate 20 7,
     log_topics = [deploy_ev_topic (svc example_started), address_to_abi_address (replicate 20 7)], log_data = []\<rparr>"

definition example_deployed :: system where
  "example_deployed = unlocked (snd (invoke example_env 0 CbDeploy example_header example_deploy_log
     (in_monitor example_started)))"

definition example_reg_log :: log_entry where
  "example_reg_log = \<lparr>contract_addr = replicate 20 7, log_topics = [reg_ev_topic (svc example_started)],
     log_data = (replicate 12 0 @ replicate 20 1) @ (replicate 12 0 @ replicate 20 2)\<rparr>"

text \<open>The registration, part by part.\<close>

definition example_announced :: system where
  "example_announced = begun [GStore example_header (replicate 20 1) (replicate 20 2)]
     (unlocked (snd (reg_map_section (replicate 20 1) (replicate 20 2) (in_monitor example_deployed))))"

definition example_opened :: system where
  "example_opened = followed (GStore example_header (replicate 20 1) (replicate 20 2))
     (Inr [GListen example_header (replicate 20 1) (replicate 20 2)])
     (unlocked (snd (reg_store_section (replicate 20 2) (in_monitor example_announced))))"

definition example_registered :: system where
  "example_registered = followed (GListen example_header (replicate 20 1) (replicate 20 2)) (Inr [])
     (unlocked (snd (reg_listen_section example_env example_header (replicate 20 1) (replicate 20 2)
        (in_monitor example_opened))))"

text \<open>The service after a registration.\<close>

definition reg_store :: "bytes \<Rightarrow> bytes \<Rightarrow> qref \<Rightarrow> pubsub_store \<Rightarrow> pubsub_store" where
  "reg_store pub ev q st = st\<lparr>ev_mgr_addr_map := (ev_mgr_addr_map st)(pub \<mapsto> ev),
     past_event_store := emplace ev q (past_event_store st)\<rparr>"

definition example_notify_log :: log_entry where
  "example_notify_log = \<lparr>contract_addr = replicate 20 2, log_topics = [notify_ev_topic (svc example_started)],
     log_data = [1, 2, 3]\<rparr>"

lemma example_initialised: "initialised example_env example_started"
proof -
  let ?run = "init_enclave example_env [] 8 (replicate 20 1) ''Sync'' (replicate 20 7) example_fresh"
  have "fst ?run = Inr ()"
    by (simp add: init_enclave_def global_initialization_def print_my_info_def request_app_cert_def
        setup_step_def platform_print_def read_info_def register_handler_def blockchain_mgr_def
        refresh_bootstrap_plan_def start_service_def listen_def prog_run)
  then have "?run = (Inr (), example_started)"
    unfolding example_started_def by (metis prod.collapse)
  moreover have "fresh_process example_fresh" by (simp add: fresh_process_def example_fresh_def)
  ultimately show ?thesis unfolding initialised_def by blast
qed

lemma example_started_simps [simp]:
  "held example_started = {}" "evqs example_started = []" "recqs example_started = []"
  "tasks example_started = []" "fresh_id (history example_started) = 1"
  "svc example_started = pubsub_service_store example_env (replicate 20 7)
     ''ServiceDeployed(address)'' ''PublisherRegistered(address,address)'' ''NotifySubscribers(bytes)''"
  "listeners (history example_started) =
     [0 \<mapsto> build_deploy_event_descr (pubsub_service_store example_env (replicate 20 7)
       ''ServiceDeployed(address)'' ''PublisherRegistered(address,address)'' ''NotifySubscribers(bytes)'')]"
  by (simp_all add: example_started_def example_fresh_def init_enclave_def global_initialization_def
      print_my_info_def request_app_cert_def setup_step_def platform_print_def read_info_def
      register_handler_def blockchain_mgr_def refresh_bootstrap_plan_def start_service_def listen_def prog_run)

lemma example_deployed_simps [simp]:
  "held example_deployed = {}" "evqs example_deployed = []" "recqs example_deployed = []"
  "tasks example_deployed = []" "fresh_id (history example_deployed) = 2"
  "svc example_deployed = (svc example_started)\<lparr>is_deployed := True\<rparr>"
  "listeners (history example_deployed) = [1 \<mapsto> build_reg_event_descr (svc example_started)]"
  by (simp_all add: example_deployed_def deploy_event_handler_def update_svc_def listen_def cancel_def
      prog_run in_monitor_def unlocked_def)

lemma example_announced_simps [simp]:
  "held example_announced = {}" "evqs example_announced = []" "recqs example_announced = []"
  "history example_announced = history example_deployed" "mgr_set example_announced = mgr_set example_deployed"
  "tasks example_announced = [GStore example_header (replicate 20 1) (replicate 20 2)]"
  "svc example_announced = (svc example_deployed)\<lparr>ev_mgr_addr_map :=
     (ev_mgr_addr_map (svc example_deployed))(replicate 20 1 \<mapsto> replicate 20 2)\<rparr>"
  by (simp_all add: example_announced_def begun_def reg_map_run)
    (simp_all add: in_monitor_def unlocked_def)

lemma example_opened_simps [simp]:
  "held example_opened = {}" "evqs example_opened = [[]]" "recqs example_opened = []"
  "history example_opened = history example_deployed" "mgr_set example_opened = mgr_set example_deployed"
  "tasks example_opened = [GListen example_header (replicate 20 1) (replicate 20 2)]"
  "svc example_opened = reg_store (replicate 20 1) (replicate 20 2) 0 (svc example_deployed)"
  by (simp_all add: example_opened_def followed_def reg_store_run reg_store_def)
    (simp_all add: in_monitor_def unlocked_def)

lemma example_listen_part:
  "reg_listen_section example_env example_header (replicate 20 1) (replicate 20 2) (in_monitor example_opened)
    = (Inr (), (in_monitor example_opened)\<lparr>history :=
        Logged Info store_logger (''Publisher @hex registered with event manager @hex at block #'' @ to_string 7) #
        Listened (build_notify_past_event_descr (replicate 20 2) (svc example_started)) 2 # history example_deployed\<rparr>)"
  by (simp add: reg_listen_section_def prog_run listen_def reg_store_def build_notify_past_event_descr_def)
    (simp add: example_header_def)

lemma example_registered_simps [simp]:
  "held example_registered = {}" "evqs example_registered = [[]]" "recqs example_registered = []"
  "tasks example_registered = []" "fresh_id (history example_registered) = 3"
  "svc example_registered = reg_store (replicate 20 1) (replicate 20 2) 0 (svc example_deployed)"
  "listeners (history example_registered) =
     [1 \<mapsto> build_reg_event_descr (svc example_started),
      2 \<mapsto> build_notify_past_event_descr (replicate 20 2) (svc example_started)]"
  by (simp_all add: example_registered_def example_listen_part followed_def)

lemma example_registered_set [simp]: "mgr_set example_registered"
proof -
  have "mgr_set example_started"
    by (simp add: example_started_def init_enclave_def global_initialization_def
      print_my_info_def request_app_cert_def setup_step_def platform_print_def read_info_def
      register_handler_def blockchain_mgr_def refresh_bootstrap_plan_def start_service_def listen_def prog_run)
  then have "mgr_set example_deployed"
    by (simp add: example_deployed_def deploy_event_handler_def update_svc_def listen_def cancel_def
      prog_run in_monitor_def unlocked_def)
  then show ?thesis
    by (simp add: example_registered_def example_listen_part followed_def)
      (simp add: in_monitor_def unlocked_def)
qed

lemma example_idle [simp]: "idle example_started" "idle example_deployed" "idle example_registered"
  by (simp_all add: idle_def callbacks_def)

lemma example_monitor_steps:
  "monitor_step example_env example_started (Delivers CbDeploy example_header example_deploy_log) example_deployed"
  "monitor_step example_env example_deployed (Delivers CbReg example_header example_reg_log) example_announced"
  "monitor_step example_env example_announced (Opens (replicate 20 2)) example_opened"
  "monitor_step example_env example_opened Silent example_registered"
proof -
  have "monitor_step example_env example_started
      (Delivers (ed_callback (build_deploy_event_descr (svc example_started))) example_header example_deploy_log)
      (unlocked (snd (invoke example_env 0 (ed_callback (build_deploy_event_descr (svc example_started)))
        example_header example_deploy_log (in_monitor example_started))))"
    by (rule monitor_notify) (simp_all add: log_matches_def example_deploy_log_def build_deploy_event_descr_def
        pubsub_service_store_def)
  then show "monitor_step example_env example_started (Delivers CbDeploy example_header example_deploy_log) example_deployed"
    by (simp add: build_deploy_event_descr_def example_deployed_def)
  show "monitor_step example_env example_deployed (Delivers CbReg example_header example_reg_log) example_announced"
    unfolding example_announced_def
    by (rule monitor_reg [where i = 1 and d = "build_reg_event_descr (svc example_started)"])
      (simp_all add: log_matches_def example_reg_log_def build_reg_event_descr_def pubsub_service_store_def
        reg_addresses_def copy_to_array_def reg_map_run)
  show "monitor_step example_env example_announced (Opens (replicate 20 2)) example_opened"
    unfolding example_opened_def
    using monitor_task [of "GStore example_header (replicate 20 1) (replicate 20 2)" example_announced example_env]
    by (simp add: in_monitor_alt reg_store_run bnd_run)
  show "monitor_step example_env example_opened Silent example_registered"
    unfolding example_registered_def
    using monitor_task [of "GListen example_header (replicate 20 1) (replicate 20 2)" example_opened example_env]
    by (simp add: in_monitor_alt example_listen_part bnd_run)
qed

lemmas example_steps = example_monitor_steps [THEN monitor_step_system]

lemma example_reachable:
  "reachable example_env example_started" "reachable example_env example_deployed"
  "reachable example_env example_registered"
proof -
  show started: "reachable example_env example_started"
    unfolding reachable_def using example_initialised run_nil by blast
  then show deployed: "reachable example_env example_deployed"
    using example_steps(1) by (rule reachable_step)
  then have "reachable example_env example_opened"
    using example_steps(2,3) by (blast intro: reachable_step)
  then show "reachable example_env example_registered"
    using example_steps(4) by (rule reachable_step)
qed

lemma example_excl_reachable: "excl_reachable example_env (False, example_registered)"
proof -
  have "excl_reachable example_env (False, example_started)"
    unfolding excl_reachable_def by (intro exI conjI) (rule example_initialised run_of_none)+
  then have "excl_reachable example_env (True, example_started)" using excl_lock by (rule excl_reachable_step)
  then have "excl_reachable example_env (True, example_deployed)"
    using excl_monitor [OF example_monitor_steps(1)] by (rule excl_reachable_step)
  then have "excl_reachable example_env (True, example_announced)"
    using excl_monitor [OF example_monitor_steps(2)] by (rule excl_reachable_step)
  then have "excl_reachable example_env (True, example_opened)"
    using excl_monitor [OF example_monitor_steps(3)] by (rule excl_reachable_step)
  then have "excl_reachable example_env (True, example_registered)"
    using excl_monitor [OF example_monitor_steps(4)] by (rule excl_reachable_step)
  then show ?thesis using excl_unlock [OF example_idle(3)] by (rule excl_reachable_step)
qed

end
