(* ===== verification/SystemSafety.thy ===== *)
theory SystemSafety
  imports ConcreteRun
begin

text \<open>
  What follows from the invariant of \<open>PubsubSystem\<close>: no undefined behaviour in any reachable state, the
  store of past events is always found, nothing is registered before the deployment; and one thing that the
  mutexes of the code do not exclude.
\<close>

section \<open>Whole handlers are defined\<close>

lemma respond_defined:
  assumes "sys_inv w"
  shows "\<not> is_undef (fst (subreq_respond E s a w))"
proof -
  have "held w = {}" "past_refs_valid w" using assms by (simp_all add: sys_inv_def store_inv_def)
  then show ?thesis
    by (auto simp: subreq_respond_run sized_send_def ext_result_def split: sum.split)
qed

lemma attach_defined: "\<not> is_undef (fst (attach_section E e w))"
  by (simp add: attach_section_def add_emitter_def prog_run split: sum.split)

lemma sub_req_defined:
  assumes "sys_inv w"
  shows "\<not> is_undef (fst (sub_req E s msg w))"
proof -
  have held: "held w = {}" using assms by (simp add: sys_inv_def)
  show ?thesis
  proof (cases "\<exists>pub. publisher_of E msg = Inr pub \<and> event_mgr_of (svc w) pub \<noteq> zero_addr")
    case False
    with held show ?thesis
      by (cases "publisher_of E msg") (auto simp: sub_req_sections prog_run)
  next
    case True
    then obtain pub where pub: "publisher_of E msg = Inr pub" "event_mgr_of (svc w) pub \<noteq> zero_addr" by blast
    let ?a = "event_mgr_of (svc w) pub"
    obtain r u where listen: "subreq_listen E ?a w = (r, u)" by fastforce
    note safe = listen_safe [OF assms listen]
    have eq: "sub_req E s msg w = bnd (subreq_listen E ?a) (\<lambda>(q, i).
        bnd (subreq_respond E s ?a) (\<lambda>_. attach_section E (EventEmitter s q i))) w"
      using pub held by (simp add: sub_req_sections bnd_run subreq_lookup_run)
    have rest: "\<not> is_undef (fst (bnd (subreq_respond E s ?a) (\<lambda>_. attach_section E e) u))" for e
      using respond_defined [of u E s ?a] safe attach_defined
      by (auto simp: bnd_run is_undef_Inl split: sum.split prod.split)
    show ?thesis using safe rest listen by (auto simp: eq bnd_run is_undef_Inl split: sum.split)
  qed
qed

lemma beat_defined:
  assumes "sys_inv w" "EmitterAdded e \<in> set (history w)"
  shows "\<not> is_undef (fst (run_emitter E e w))"
proof -
  have "held w = {}" "em_inv w e" using assms by (auto simp: sys_inv_def)
  then show ?thesis
    by (cases e) (auto simp: emitter_handler_run subscribed_receipt_emitter_run gives_up_run sub_queue_def
        event_queue_usable_def receipt_queue_usable_def split: sum.split)
qed

lemma receipt_req_defined: "\<not> is_undef (fst (receipt_sub_req E s msg w))"
  by (auto simp: receipt_sub_req_run receipt_sub_listen_run Let_def split: sum.split option.split prod.split)

section \<open>Properties\<close>

text \<open>C4: in every state the system can reach, whatever the libraries and the host answer, no callback
of a registered listener, no beat of an attached emitter, no request and no part of one that another
thread has left unfinished has undefined behaviour: no mutex is locked twice by one thread, no closure
refers to a queue that does not exist, no array is overrun.\<close>

theorem reachable_steps_defined:
  assumes "reachable E w" "abi_word_sized E"
  shows "(\<forall>i d hdr log. listeners (history w) i = Some d \<longrightarrow>
      \<not> is_undef (fst (invoke E i (ed_callback d) hdr log (in_monitor w)))) \<and>
    (\<forall>e. EmitterAdded e \<in> set (history w) \<longrightarrow> \<not> is_undef (fst (run_emitter E e w))) \<and>
    (\<forall>s msg. \<not> is_undef (fst (sub_req E s msg w)) \<and> \<not> is_undef (fst (receipt_sub_req E s msg w)) \<and>
      \<not> is_undef (fst (send_raw E msg w))) \<and>
    (\<forall>t \<in> set (tasks w). \<not> is_undef (fst (task_prog E t (w\<lparr>held := task_locks t\<rparr>))))"
proof -
  have inv: "sys_inv w" using assms(1) by (rule reachable_inv)
  have "\<not> is_undef (fst (task_prog E t (w\<lparr>held := task_locks t\<rparr>)))" if "t \<in> set (tasks w)" for t
    using task_safe [OF inv that surjective_pairing] by blast
  moreover have "\<not> is_undef (fst (send_raw E msg w))" for msg
    by (auto simp: send_raw_def prog_run of_lib_def split: sum.split prod.split)
  ultimately show ?thesis
    using invoke_defined [OF inv assms(2)] beat_defined [OF inv] sub_req_defined [OF inv] receipt_req_defined
    by blast
qed

theorem reachable_steps_defined_witness:
  "\<not> is_undef (fst (sub_req example_env 3 (replicate 20 1) example_registered)) \<and>
   \<not> is_undef (fst (invoke example_env 2 CbNotifyPast example_header example_notify_log (in_monitor example_registered)))"
proof -
  note defined = reachable_steps_defined [OF example_reachable(3) example_abi_word_sized]
  have "listeners (history example_registered) 2 =
      Some (build_notify_past_event_descr (replicate 20 2) (svc example_started))"
    by simp
  with defined show ?thesis
    by (metis build_notify_past_event_descr_def event_descr.select_convs(3))
qed

text \<open>C15: the error that a manager's past event store is missing cannot happen: in every reachable state
an event that the service's own listener is called with finds its store, and a decodable one becomes
the last past event of its manager.\<close>

theorem past_store_always_found:
  assumes "reachable E w"
    and "listeners (history w) i = Some d" "ed_callback d = CbNotifyPast" "log_matches d log"
    and "abi_bytes E (log_data log) = Inr (msg, rest)"
  shows "\<exists>u. notify_past_event_handler E hdr log (in_monitor w) = (Inr (), u) \<and>
    past_events u (contract_addr log) = past_events w (contract_addr log) @ [[raw_number hdr, msg]]"
proof -
  have "cb_inv w d (ed_callback d)" "past_refs_valid w"
    using reachable_inv [OF assms(1)] assms(2) by (auto simp: sys_inv_def store_inv_def)
  with assms(3,4) obtain q where q: "past_event_store (svc w) (contract_addr log) = Some q"
      "q < length (evqs w)"
    by (auto simp: log_matches_def past_refs_validD)
  with assms(5) show ?thesis
    by (simp add: notify_past_event_handler_run past_events_def)
qed

theorem past_store_always_found_witness:
  "\<exists>u. notify_past_event_handler example_env example_header example_notify_log (in_monitor example_registered)
      = (Inr (), u) \<and> past_events u (replicate 20 2) = [[[7], [1, 2, 3]]]"
proof -
  let ?d = "build_notify_past_event_descr (replicate 20 2) (svc example_started)"
  have "\<exists>u. notify_past_event_handler example_env example_header example_notify_log (in_monitor example_registered)
      = (Inr (), u) \<and> past_events u (contract_addr example_notify_log)
      = past_events example_registered (contract_addr example_notify_log) @ [[raw_number example_header, [1, 2, 3]]]"
    by (rule past_store_always_found [OF example_reachable(3), where i = 2 and d = ?d and rest = "[]"])
      (simp_all add: build_notify_past_event_descr_def log_matches_def example_notify_log_def)
  moreover have "past_events example_registered (replicate 20 2) = []"
    by (simp add: past_events_def reg_store_def emplace_apply pubsub_service_store_def)
  ultimately show ?thesis by (simp add: example_notify_log_def example_header_def)
qed

text \<open>C17: until the deployment event of the service contract has been seen, nothing is registered: every
subscription is refused, no past events exist, and the only listener the service has is the one for the
deployment of its contract.\<close>

theorem nothing_before_deployment:
  assumes "reachable E w" "\<not> is_deployed (svc w)"
  shows "(\<forall>a. fst (get_past_events a w) = Inr []) \<and>
    (\<forall>s msg pub. publisher_of E msg = Inr pub \<longrightarrow>
       fst (sub_req E s msg w) = Inr (Some s) \<and>
       listeners (history (snd (sub_req E s msg w))) = listeners (history w)) \<and>
    (\<forall>i d. listeners (history w) i = Some d \<longrightarrow>
       ed_callback d \<noteq> CbReg \<and> ed_callback d \<noteq> CbNotifyPast \<and>
       (ed_callback d = CbDeploy \<longrightarrow> d = build_deploy_event_descr (svc w)))"
proof -
  have inv: "sys_inv w" using assms(1) by (rule reachable_inv)
  then have held: "held w = {}" and empty: "ev_mgr_addr_map (svc w) = Map.empty"
      "past_event_store (svc w) = Map.empty" and valid: "past_refs_valid w"
    using assms(2) by (simp_all add: sys_inv_def store_inv_def)
  have "fst (sub_req E s msg w) = Inr (Some s) \<and>
      listeners (history (snd (sub_req E s msg w))) = listeners (history w)"
    if "publisher_of E msg = Inr pub" for s msg pub
    using that held empty by (simp add: sub_req_sections prog_run event_mgr_of_def)
  moreover have "fst (get_past_events a w) = Inr []" for a
    using held valid empty by (simp add: get_past_events_run past_events_def)
  moreover have "ed_callback d \<noteq> CbReg \<and> ed_callback d \<noteq> CbNotifyPast \<and>
      (ed_callback d = CbDeploy \<longrightarrow> d = build_deploy_event_descr (svc w))"
    if "listeners (history w) i = Some d" for i d
  proof -
    have "cb_inv w d (ed_callback d)" using inv that by (simp add: sys_inv_def)
    with assms(2) empty show ?thesis by (cases "ed_callback d") simp_all
  qed
  ultimately show ?thesis by blast
qed

theorem nothing_before_deployment_witness:
  "fst (get_past_events (replicate 20 2) example_started) = Inr [] \<and>
   fst (sub_req example_env 3 (replicate 20 1) example_started) = Inr (Some 3)"
proof -
  have "\<not> is_deployed (svc example_started)" by (simp add: pubsub_service_store_def)
  from nothing_before_deployment [OF example_reachable(1) this]
  show ?thesis using example_publisher_of by blast
qed

text \<open>C34: the copy of a manager's past events and the append of a new one touch the same queue under no
common mutex: in every reachable state the copy waits for the mutex of the store only and the append for the
mutex of the queue only, so that nothing keeps a request and the block thread from being in them at once.\<close>

theorem past_events_copied_unlocked:
  assumes "reachable E w" "past_event_store (svc w) a = Some q"
  shows "get_past_events a w = (Inr (evqs w ! q), w) \<and>
    event_queue_push q x w = (Inr (), w\<lparr>evqs := (evqs w)[q := evqs w ! q @ [x]]\<rparr>) \<and> q < length (evqs w) \<and>
    (\<forall>l. waits_for (get_past_events a) l w = (l = PastEventStoreMutex)) \<and>
    (\<forall>l. waits_for (event_queue_push q x) l w = (l = EventQueueMutex q))"
proof -
  have w: "held w = {}" "past_refs_valid w"
    using reachable_inv [OF assms(1)] by (simp_all add: sys_inv_def store_inv_def)
  then have "q < length (evqs w)" using assms(2) by (simp add: past_refs_validD)
  with w assms(2) show ?thesis
    by (simp add: copy_waits_for push_waits_for get_past_events_run event_queue_push_run past_events_def)
qed

theorem past_events_copied_unlocked_witness:
  "get_past_events (replicate 20 2) example_registered = (Inr [], example_registered) \<and>
   waits_for (get_past_events (replicate 20 2)) PastEventStoreMutex example_registered \<and>
   \<not> waits_for (get_past_events (replicate 20 2)) (EventQueueMutex 0) example_registered"
proof -
  have "past_event_store (svc example_registered) (replicate 20 2) = Some 0"
    by (simp add: reg_store_def emplace_apply pubsub_service_store_def)
  from past_events_copied_unlocked [OF example_reachable(3) this] show ?thesis by simp
qed

end
