(* ===== verification/HandlerSteps.thy ===== *)
theory HandlerSteps
  imports ConcreteRun
begin

text \<open>
  From the handlers of the code to the steps of the system. \<open>thread\<close> is what a thread does from a task on
  when no other thread runs; with the part before the task it is the handler that the code has, as an
  equality of programs. \<open>thread_runs\<close> shows that a thread alone is a run of any relation that allows its
  parts (the locale \<open>task_runs\<close>), which needs that no part looks at the tasks of other threads (\<open>blind\<close>) and
  that it keeps its mutexes; \<open>callback_runs\<close> extends it by the callbacks of the event manager.
\<close>

section \<open>A thread on its own\<close>

function thread :: "env \<Rightarrow> task \<Rightarrow> ('z enclave_scheme, unit) prog" where
  "thread E (RListen s a order) =
     bnd (subreq_listen E a) (\<lambda>(q, i). thread E (RRead s a q i (unread (Events [])) order))"
| "thread E (RRead s a q i m (x # xs)) = bnd (read_section E a x m) (\<lambda>m'. thread E (RRead s a q i m' xs))"
| "thread E (RRead s a q i m []) = bnd (send_section E s m) (\<lambda>_. thread E (RAttach (EventEmitter s q i)))"
| "thread E (RAttach e) = bnd (attach_section E e) (\<lambda>_. ret ())"
| "thread E (BRead e m (x # xs)) = bnd (cancelling E e (read_section E [] x m)) (\<lambda>m'. thread E (BRead e m' xs))"
| "thread E (BRead e m []) = cancelling E e (send_section E (emitter_sock e) m)"
| "thread E (GStore hdr p a) = bnd (reg_store_section a) (\<lambda>_. thread E (GListen hdr p a))"
| "thread E (GListen hdr p a) = reg_listen_section E hdr p a"
  by pat_completeness auto

termination
  by (relation "measure (\<lambda>(E, t). task_rank t)") simp_all

lemma bnd_unit: "bnd m (\<lambda>_. ret ()) = m"
  by (rule ext) (simp add: bnd_def split: prod.split sum.split)

lemma for_each_one: "for_each [x] f = f x"
  by (simp only: for_each.simps bnd_unit)

lemma thread_parts: "thread E t = bnd (task_prog E t) (\<lambda>ts. for_each ts (thread E))"
  by (cases "(E, t)" rule: thread.cases; simp only: prod.inject; simp only: thread.simps task_prog.simps bnd_assoc case_prod_unfold bnd_ret for_each_one
      for_each.simps(1) bnd_unit)

lemma blind_thread: "blind (thread E t)"
  by (induction E t rule: thread.induct) (auto intro!: blind_rules)

section \<open>A thread on its own is a run\<close>

lemma balanced_thread: "balanced (thread E t)"
  by (induction E t rule: thread.induct) (auto intro!: balanced_rules)

text \<open>What a step relation has to allow a thread: to go on with its tasks, which all hold the mutexes \<open>L\<close>
between their parts. This is so for the block thread, for the other threads when the mutex of the monitor is
free, and for the system without the mutex.\<close>

locale task_runs =
  fixes E :: env and step :: "system \<Rightarrow> label \<Rightarrow> system \<Rightarrow> bool" and L :: "lock set"
  assumes step_system: "step w l u \<Longrightarrow> sys_step E w l u"
    and step_part: "t \<in> set (tasks w) \<Longrightarrow> task_locks t = L \<Longrightarrow> task_prog E t (w\<lparr>held := task_locks t\<rparr>) = (r, u) \<Longrightarrow>
      step w (task_label t) (followed t r (unlocked u))"
begin

lemma thread_runs:
  assumes "sys_inv w" "task_locks t = L" "tasks w = t # T" "thread E t (w\<lparr>held := task_locks t\<rparr>) = (r, u)"
  shows "\<exists>ls. run_of step w ls (unlocked (u\<lparr>tasks := T\<rparr>))"
  using assms
proof (induction "task_rank t" arbitrary: t w u rule: less_induct)
  case less
  let ?w = "w\<lparr>held := task_locks t\<rparr>"
  obtain q v where part: "task_prog E t ?w = (q, v)" by fastforce
  have v: "tasks v = t # T" "held v = task_locks t"
    using blind_tasks [OF blind_task part] balancedD [OF balanced_task part] less.prems(3) by simp_all
  have "t \<in> set (tasks w)" using less.prems(3) by simp
  from step_part [OF this less.prems(2) part] have step: "step w (task_label t) (followed t q (unlocked v))" .
  from step_keeps_inv [OF step_system [OF step]] have inv: "sys_inv (followed t q (unlocked v))"
    using less.prems(1) .
  have after: "followed t q (unlocked v) = unlocked (v\<lparr>tasks := (case q of Inl e \<Rightarrow> [] | Inr ts \<Rightarrow> ts) @ T\<rparr>)"
    by (simp add: followed_def unlocked_def v(1))
  have run: "bnd (task_prog E t) (\<lambda>ts. for_each ts (thread E)) ?w = (r, u)"
    using less.prems(4) by (simp only: thread_parts)
  show ?case
  proof (cases "\<exists>t'. q = Inr [t']")
    case False
    have "u = v"
    proof (cases q)
      case (Inr ts)
      with False part task_next have "ts = []" by blast
      with run part Inr show ?thesis by simp
    qed (use run part in simp)
    moreover have "(case q of Inl e \<Rightarrow> [] | Inr ts \<Rightarrow> ts) = []"
    proof (cases q)
      case (Inr ts)
      with False task_next part show ?thesis by fastforce
    qed simp
    ultimately show ?thesis using run_of_one [of step, OF step] by (auto simp: after)
  next
    case True
    then obtain t' where t': "q = Inr [t']" by blast
    with task_next [OF part [unfolded t']] have smaller: "task_rank t' < task_rank t"
        and locks: "task_locks t' = task_locks t" by auto
    have rest: "thread E t' v = (r, u)" using run part t' by (simp add: bnd_right)
    let ?x = "followed t q (unlocked v)"
    have x: "tasks ?x = t' # T" unfolding after by (simp add: t')
    have "?x\<lparr>held := task_locks t'\<rparr> = v\<lparr>tasks := t' # T\<rparr>"
      unfolding after by (simp add: t' unlocked_def locks flip: v(2))
    then have "thread E t' (?x\<lparr>held := task_locks t'\<rparr>) = (r, u\<lparr>tasks := t' # T\<rparr>)"
      using blindD [OF blind_thread rest] by simp
    from less.hyps [OF smaller inv _ x this] locks less.prems(2) obtain ls where "run_of step ?x ls (unlocked (u\<lparr>tasks := T\<rparr>))" by auto
    with step show ?thesis by (blast intro: run_of_more)
  qed
qed

lemma begun_runs:
  assumes "sys_inv w" "task_locks t = L" "step w l (begun [t] (unlocked v))" "held v = task_locks t" "thread E t v = (r, u)"
  shows "\<exists>ls. run_of step w ls (unlocked u)"
proof -
  let ?x = "begun [t] (unlocked v)"
  have inv: "sys_inv ?x" using step_system [OF assms(3)] assms(1) by (rule step_keeps_inv)
  have "?x\<lparr>held := task_locks t\<rparr> = v\<lparr>tasks := t # tasks v\<rparr>"
    by (simp add: begun_def unlocked_def flip: assms(4))
  then have "thread E t (?x\<lparr>held := task_locks t\<rparr>) = (r, u\<lparr>tasks := t # tasks v\<rparr>)"
    using blindD [OF blind_thread assms(5)] by simp
  moreover have "tasks u = tasks v" using blind_thread assms(5) by (rule blind_tasks)
  then have "unlocked ((u\<lparr>tasks := t # tasks v\<rparr>)\<lparr>tasks := tasks v\<rparr>) = unlocked u"
    by (simp add: unlocked_def)
  ultimately obtain ls where "run_of step ?x ls (unlocked u)"
    using thread_runs [OF inv assms(2), of "tasks v" r "u\<lparr>tasks := t # tasks v\<rparr>"] by auto
  with assms(3) show ?thesis by (blast intro: run_of_more)
qed

end

interpretation client_thread: task_runs E "client_step E True" "{}" for E
  by unfold_locales (auto intro: client_step_system client_task)

lemma idle_unlocked: "held w = {} \<Longrightarrow> unlocked w = w" for w :: system
  by (simp add: unlocked_def)

text \<open>The same for a thread that holds no mutex.\<close>

lemma begun_runs_idle:
  assumes "sys_inv w" "client_step E True w l (begun [t] v)" "task_locks t = {}" "held v = {}" "thread E t v = (r, u)"
  shows "\<exists>ls. run_of (client_step E True) w ls u"
  using client_thread.begun_runs [of w t E l v r u] assms balancedD [OF balanced_thread assms(5)]
  by (simp add: idle_unlocked)

section \<open>The handlers\<close>

lemma no_steps: "\<exists>ls. run_of R w ls w"
  using run_of_none by (rule exI)

lemma attach_thread: "bnd (thread E (RAttach e)) (\<lambda>_. ret None) = attach_section E e"
  by (simp only: thread.simps attach_section_def bnd_assoc bnd_ret)

lemma thread_read:
  "thread E (RRead s a q i m order) =
     bnd (bnd (read_all E a order m) (send_section E s)) (\<lambda>_. thread E (RAttach (EventEmitter s q i)))"
proof (induction order arbitrary: m)
  case (Cons x xs)
  show ?case by (simp only: thread.simps read_all.simps bnd_assoc Cons.IH)
qed (simp only: thread.simps read_all.simps bnd_ret)

lemma thread_beat:
  "thread E (BRead e m order) = cancelling E e (bnd (read_all E [] order m) (send_section E (emitter_sock e)))"
proof (induction order arbitrary: m)
  case (Cons x xs)
  show ?case
    by (simp only: thread.simps read_all.simps bnd_assoc Cons.IH cancelling_then)
qed (simp only: thread.simps read_all.simps bnd_ret)

lemma bnd_first: "m w = m' w \<Longrightarrow> bnd m f w = bnd m' f w"
  by (simp add: bnd_def)

lemma listen_keeps:
  assumes "subreq_listen E a w = (r, u)" "held w = {}" "past_refs_valid w"
  shows "held u = {} \<and> past_refs_valid u"
  using assms by (auto simp: subreq_listen_run Let_def split: sum.splits)

lemma sub_req_thread:
  assumes "held w = {}" "past_refs_valid w" "reply_order order"
  shows "sub_req E s msg w =
     bnd (subreq_lookup E msg) (\<lambda>(pub_addr, ev_mgr_addr).
     if ev_mgr_addr = zero_addr then
       bnd (log_msg Error subreq_logger
              (''Failed to find the event manager for publisher @'' @ hex_encode E pub_addr)) (\<lambda>_.
       ret (Some s))
     else bnd (thread E (RListen s ev_mgr_addr order)) (\<lambda>_. ret None)) w"
proof -
  have part: "bnd (subreq_listen E a) (\<lambda>(q, i). bnd (subreq_respond E s a) (\<lambda>_. attach_section E (EventEmitter s q i))) w
      = bnd (thread E (RListen s a order)) (\<lambda>_. ret None) w" for a
  proof -
    obtain r u where listen: "subreq_listen E a w = (r, u)" by fastforce
    have "bnd (subreq_respond E s a) (\<lambda>_. attach_section E (EventEmitter s q i)) u =
        bnd (thread E (RRead s a q i (unread (Events [])) order)) (\<lambda>_. ret None) u" for q i
    proof -
      have "subreq_respond E s a u = bnd (read_all E a order (unread (Events []))) (send_section E s) u"
        using listen_keeps [OF listen assms(1,2)] assms(3) by (simp add: respond_any_order)
      then show ?thesis
        by (subst thread_read, subst bnd_assoc) (simp only: attach_thread bnd_first [of "subreq_respond E s a" u])
    qed
    then show ?thesis using listen
      by (cases r) (auto simp: bnd_assoc simp del: thread.simps simp: thread.simps(1))
  qed
  show ?thesis
    unfolding sub_req_sections
    using assms(1) part by (simp add: bnd_run subreq_lookup_run del: thread.simps split: sum.split)
qed

lemma run_emitter_thread:
  assumes "held w = {}" "beat_order e order"
  shows "run_emitter E e w = bnd (cancelling E e (take_section e)) (\<lambda>load. thread E (BRead e (unread load) order)) w"
proof (cases "cancelling E e (take_section e) w")
  case (Pair r u)
  have "balanced (cancelling E e (take_section e))" by (intro balanced_rules)
  then have "held u = {}" using Pair assms(1) by (metis balancedD)
  from beat_any_order [OF this assms(2)] Pair show ?thesis
    by (cases r) (simp_all only: run_emitter_sections cancelling_then thread_beat bnd_Inl bnd_Inr)
qed

lemma receipt_listen_thread:
  "receipt_sub_listen E s addr topics =
     bnd (receipt_listen_section E addr topics) (\<lambda>(q, i).
     bnd (thread E (RAttach (ReceiptEmitter s q i))) (\<lambda>_. ret None))"
  by (simp only: receipt_sub_listen_sections attach_thread)

lemma reg_thread:
  "reg_event_handler E hdr log =
     bnd (lift_res (reg_addresses E log)) (\<lambda>(p, a).
     bnd (reg_map_section p a) (\<lambda>_. thread E (GStore hdr p a)))"
  by (simp only: reg_handler_sections thread.simps)

section \<open>Properties\<close>

text \<open>The handlers of the code are their parts: in a thread that holds no mutex a heartbeat, a
subscription request, a receipt request and a registration event do the same as their first part followed
by the thread of its task, in which every part is one critical section or one call of the event manager,
the heartbeat manager or a socket. This is so for every order in which the arguments of the message are
evaluated, which C++ leaves open: the order makes no difference to a thread that nobody interrupts.\<close>

theorem handlers_are_threads:
  assumes "held w = {}" "past_refs_valid w" "reply_order order" "beat_order e order'"
  shows "run_emitter E e w =
      bnd (cancelling E e (take_section e)) (\<lambda>load. thread E (BRead e (unread load) order')) w \<and>
    sub_req E s msg w =
     bnd (subreq_lookup E msg) (\<lambda>(pub_addr, ev_mgr_addr).
     if ev_mgr_addr = zero_addr then
       bnd (log_msg Error subreq_logger
              (''Failed to find the event manager for publisher @'' @ hex_encode E pub_addr)) (\<lambda>_.
       ret (Some s))
     else bnd (thread E (RListen s ev_mgr_addr order)) (\<lambda>_. ret None)) w \<and>
    receipt_sub_req E s msg w =
      (case receipt_request E msg of
         Inl what \<Rightarrow> (Inl (Raised what), w)
       | Inr (addr, None) \<Rightarrow> (Inr (Some s), w\<lparr>history := Logged Error receipt_logger
           (if length addr \<noteq> 20 then ''The length of the given contract address is invalid''
            else ''The length of the given topic is invalid'') # history w\<rparr>)
       | Inr (addr, Some topics) \<Rightarrow>
           bnd (receipt_listen_section E addr topics) (\<lambda>(q, i).
           bnd (thread E (RAttach (ReceiptEmitter s q i))) (\<lambda>_. ret None)) w) \<and>
    reg_event_handler E hdr log w =
      bnd (lift_res (reg_addresses E log)) (\<lambda>(p, a).
      bnd (reg_map_section p a) (\<lambda>_. thread E (GStore hdr p a))) w"
  using run_emitter_thread [OF assms(1,4)] sub_req_thread [OF assms(1-3)]
  by (simp only: receipt_sub_req_run receipt_listen_thread reg_thread simp_thms)

theorem handlers_are_threads_witness:
  "sub_req example_env 3 (replicate 20 1) example_registered =
   bnd (subreq_lookup example_env (replicate 20 1)) (\<lambda>(pub_addr, ev_mgr_addr).
   if ev_mgr_addr = zero_addr then
     bnd (log_msg Error subreq_logger
            (''Failed to find the event manager for publisher @'' @ hex_encode example_env pub_addr)) (\<lambda>_.
     ret (Some 3))
   else bnd (thread example_env (RListen 3 ev_mgr_addr [ArgPast, ArgNum, ArgSec])) (\<lambda>_. ret None)) example_registered"
proof -
  have "past_refs_valid example_registered"
    using reachable_inv [OF example_reachable(3)] by (simp add: sys_inv_def store_inv_def)
  moreover have "reply_order [ArgPast, ArgNum, ArgSec]" by (auto simp: reply_order_def)
  moreover have "beat_order (EventEmitter 3 0 0) [ArgNum, ArgSec]" by simp
  ultimately show ?thesis
    using handlers_are_threads [OF example_registered_simps(1)] by blast
qed

lemma emitter_runs:
  assumes "sys_inv w" "EmitterAdded e \<in> set (history w)"
  shows "\<exists>ls. run_of (client_step E True) w ls (snd (run_emitter E e w))"
proof -
  have held: "held w = {}" and em: "em_inv w e" using assms by (auto simp: sys_inv_def)
  obtain q v where "take_section e w = (q, v)" by fastforce
  with take_outcome [OF em held this] obtain load where take: "take_section e w = (Inr load, v)" "held v = {}"
    by blast
  have order: "beat_order e [ArgSec, ArgNum]" by (cases e) simp_all
  obtain r u where rest: "thread E (BRead e (unread load) [ArgSec, ArgNum]) v = (r, u)" by fastforce
  have "cancelling E e (take_section e) w = (Inr load, v)" using take by (simp add: cancelling_Inr)
  then have "run_emitter E e w = (r, u)" using rest by (simp only: run_emitter_thread [OF held order] bnd_Inr)
  with begun_runs_idle [OF assms(1) client_take [OF assms(2) take(1) order] _ take(2) rest] show ?thesis by simp
qed

lemma sub_req_runs:
  assumes "sys_inv w"
  shows "\<exists>ls. run_of (client_step E True) w ls (snd (sub_req E s msg w))"
proof (cases "publisher_of E msg")
  case (Inl e)
  have "held w = {}" using assms by (simp add: sys_inv_def)
  with Inl have "snd (sub_req E s msg w) = w" by (simp add: sub_req_sections prog_run)
  then show ?thesis by (simp add: no_steps)
next
  case (Inr p)
  have held: "held w = {}" and valid: "past_refs_valid w" using assms by (simp_all add: sys_inv_def store_inv_def)
  have order: "reply_order [ArgSec, ArgNum, ArgPast]" by (auto simp: reply_order_def)
  let ?a = "event_mgr_of (svc w) p"
  have lookup: "subreq_lookup E msg w = (Inr (p, ?a), w)" using Inr held by (simp add: subreq_lookup_run)
  show ?thesis
  proof (cases "?a = zero_addr")
    case True
    then have "snd (sub_req E s msg w) = snd (log_msg Error subreq_logger
        (''Failed to find the event manager for publisher @'' @ hex_encode E p) w)"
      using lookup by (simp add: sub_req_sections log_msg_run bnd_run)
    then show ?thesis using run_of_one [of "client_step E True", OF client_log] by metis
  next
    case False
    obtain r u where rest: "thread E (RListen s ?a [ArgSec, ArgNum, ArgPast]) w = (r, u)" by fastforce
    then have "snd (sub_req E s msg w) = u"
      using lookup False by (simp only: sub_req_thread [OF held valid order] bnd_run prod.case sum.case if_False)
        (cases r; simp)
    with begun_runs_idle [OF assms client_lookup [OF lookup False order] _ held rest] show ?thesis by simp
  qed
qed

lemma receipt_req_runs:
  assumes "sys_inv w"
  shows "\<exists>ls. run_of (client_step E True) w ls (snd (receipt_sub_req E s msg w))"
proof (cases "\<exists>addr topics. receipt_request E msg = Inr (addr, Some topics)")
  case False
  then consider "snd (receipt_sub_req E s msg w) = w"
    | m where "snd (receipt_sub_req E s msg w) = snd (log_msg Error receipt_logger m w)"
    by (cases "receipt_request E msg") (auto simp: receipt_sub_req_run log_msg_run split: option.splits)
  then show ?thesis
    using no_steps [of "client_step E True" w] run_of_one [of "client_step E True", OF client_log] by cases (simp, metis)
next
  case True
  then obtain addr topics where req: "receipt_request E msg = Inr (addr, Some topics)" by blast
  obtain q v where listen: "receipt_listen_section E addr topics w = (q, v)" by fastforce
  note step = client_receipt_listen [OF req listen, of True s]
  have held: "held v = {}"
    using balancedD [OF balanced_sections(5) listen] assms by (simp add: sys_inv_def)
  have run: "receipt_sub_req E s msg w = bnd (receipt_listen_section E addr topics) (\<lambda>(q, i).
      bnd (thread E (RAttach (ReceiptEmitter s q i))) (\<lambda>_. ret None)) w"
    using req by (simp only: receipt_sub_req_run sum.case prod.case option.case receipt_listen_thread)
  show ?thesis
  proof (cases q)
    case (Inl e)
    with step have "client_step E True w Silent v" by (simp add: begun_def)
    moreover have "snd (receipt_sub_req E s msg w) = v"
      using run listen Inl by (simp del: thread.simps)
    ultimately show ?thesis using run_of_one [of "client_step E True"] by metis
  next
    case (Inr x)
    obtain p i where x: "x = (p, i)" by fastforce
    obtain r u where rest: "thread E (RAttach (ReceiptEmitter s p i)) v = (r, u)" by fastforce
    have "snd (receipt_sub_req E s msg w) = u"
      using run listen Inr x rest by (cases r) (simp_all del: thread.simps)
    moreover have "client_step E True w Silent (begun [RAttach (ReceiptEmitter s p i)] v)"
      using step Inr x by simp
    ultimately show ?thesis using begun_runs_idle [OF assms _ _ held rest] by simp
  qed
qed

text \<open>A callback of the event manager, in the system and in the block thread, which is ready for the next
one when it is idle.\<close>

locale callback_runs = task_runs E step "{MonitorMutex}" for E step +
  fixes ready :: "system \<Rightarrow> bool"
  assumes step_calls: "ready w \<Longrightarrow> listeners (history w) i = Some d \<Longrightarrow> log_matches d log \<Longrightarrow> ed_callback d \<noteq> CbReg \<Longrightarrow>
      step w (Delivers (ed_callback d) hdr log) (unlocked (snd (invoke E i (ed_callback d) hdr log (in_monitor w))))"
    and step_registers: "ready w \<Longrightarrow> listeners (history w) i = Some d \<Longrightarrow> log_matches d log \<Longrightarrow> ed_callback d = CbReg \<Longrightarrow>
      reg_addresses E log = Inr (p, a) \<Longrightarrow> reg_map_section p a (in_monitor w) = (Inr (), u) \<Longrightarrow>
      step w (Delivers CbReg hdr log) (begun [GStore hdr p a] (unlocked u))"
begin

lemma callback_runs:
  assumes "sys_inv w" "ready w" "listeners (history w) i = Some d" "log_matches d log"
    and "invoke E i (ed_callback d) hdr log (in_monitor w) = (r, u)"
  shows "\<exists>ls. run_of step w ls (unlocked u)"
proof (cases "ed_callback d = CbReg")
  case False
  with run_of_one [of step, OF step_calls [OF assms(2-4)]] assms(5) show ?thesis by (metis snd_conv)
next
  case True
  have held: "held w = {}" using assms(1) by (simp add: sys_inv_def)
  have reg: "reg_event_handler E hdr log (in_monitor w) = (r, u)" using assms(5) True by simp
  show ?thesis
  proof (cases "reg_addresses E log")
    case (Inl e)
    with reg have "u = in_monitor w" by (simp add: reg_handler_sections bnd_run)
    then have "unlocked u = w" using held by (simp add: in_monitor_def unlocked_def)
    then show ?thesis by (simp add: no_steps)
  next
    case (Inr x)
    obtain p a where x: "x = (p, a)" by fastforce
    obtain v where v: "reg_map_section p a (in_monitor w) = (Inr (), v)" "held v = {MonitorMutex}"
      by (simp add: reg_map_run)
    have "thread E (GStore hdr p a) v = (r, u)"
      using reg Inr x v(1) by (simp add: reg_thread bnd_run del: thread.simps)
    from begun_runs [OF assms(1) _ step_registers [OF assms(2-4) True _ v(1)] _ this] Inr x v(2)
    show ?thesis by simp
  qed
qed

end

interpretation any_callback: callback_runs E "sys_step E" "\<lambda>w. True" for E
  by unfold_locales (assumption | rule step_task step_notify step_reg; assumption)+

interpretation monitor_callback: callback_runs E "monitor_step E" idle for E
  by unfold_locales (assumption | rule monitor_step_system monitor_task monitor_notify monitor_reg; simp)+

text \<open>C6: in every state that the enclave can reach while no block is processed, a heartbeat, a request of a
client and a callback of the event manager within a block, executed to their end without another thread in
between, are runs of the system under the mutex of the monitor: the fine steps lose no behaviour of the
code, no handler waits for a mutex that is free, and it leaves the state that the whole handler leaves.\<close>

theorem handlers_run_exclusively:
  assumes "excl_reachable E (False, w)"
  shows "(\<forall>e. EmitterAdded e \<in> set (history w) \<longrightarrow>
      (\<exists>ls. run_of (excl_step E) (False, w) ls (False, snd (run_emitter E e w)))) \<and>
    (\<forall>s msg. (\<exists>ls. run_of (excl_step E) (False, w) ls (False, snd (sub_req E s msg w))) \<and>
       (\<exists>ls. run_of (excl_step E) (False, w) ls (False, snd (receipt_sub_req E s msg w)))) \<and>
    (\<forall>i d hdr log. listeners (history w) i = Some d \<longrightarrow> log_matches d log \<longrightarrow>
       (\<exists>ls. run_of (excl_step E) (True, w) ls
         (True, unlocked (snd (invoke E i (ed_callback d) hdr log (in_monitor w))))))"
proof -
  have inv: "sys_inv w" using excl_reachable_system [OF assms] by (simp add: reachable_inv)
  have "idle w" using excl_sequential [OF assms] by simp
  then show ?thesis
    using emitter_runs [OF inv] sub_req_runs [OF inv] receipt_req_runs [OF inv]
      monitor_callback.callback_runs [OF inv _ _ _ surjective_pairing] client_run monitor_run by meson
qed

theorem handlers_run_exclusively_witness:
  "\<exists>ls. run_of (excl_step example_env) (False, example_registered) ls
    (False, snd (sub_req example_env 3 (replicate 20 1) example_registered))"
  using handlers_run_exclusively [OF example_excl_reachable] by blast

text \<open>In every reachable state a heartbeat, a request of a client and a callback of the event manager,
executed to their end without another thread in between, are runs of the system: the fine steps lose no
behaviour of the code, and leave the state that the whole handler leaves.\<close>

theorem handlers_run_as_steps:
  assumes "reachable E w"
  shows "(\<forall>e. EmitterAdded e \<in> set (history w) \<longrightarrow> (\<exists>ls. sys_run E w ls (snd (run_emitter E e w)))) \<and>
    (\<forall>s msg. (\<exists>ls. sys_run E w ls (snd (sub_req E s msg w))) \<and>
       (\<exists>ls. sys_run E w ls (snd (receipt_sub_req E s msg w)))) \<and>
    (\<forall>i d hdr log. listeners (history w) i = Some d \<longrightarrow> log_matches d log \<longrightarrow>
       (\<exists>ls. sys_run E w ls (unlocked (snd (invoke E i (ed_callback d) hdr log (in_monitor w))))))"
proof -
  have inv: "sys_inv w" using assms by (rule reachable_inv)
  show ?thesis
    using emitter_runs [OF inv] sub_req_runs [OF inv] receipt_req_runs [OF inv] client_run_system
      any_callback.callback_runs [OF inv TrueI _ _ surjective_pairing] run_of_system by meson
qed

theorem handlers_run_as_steps_witness:
  "\<exists>ls. sys_run example_env example_registered ls (snd (sub_req example_env 3 (replicate 20 1) example_registered))"
  using handlers_run_as_steps [OF example_reachable(3)] by blast

end
