(* ===== verification/StepFrames.thy ===== *)
theory StepFrames
  imports ConcreteRun
begin

text \<open>
  Relations that every step of the system respects. The locale \<open>step_frame\<close> asks of a relation that
  the few assignments the enclave makes respect it; its lemmas carry that to every closure, section and
  task, and to whole runs. It is interpreted twice: on "the global pointer to the manager is as it
  was" (\<^verbatim>\<open>g_blockchainMgr\<close> of src/Trusted/Enclave.cpp is set once and never reset), and on "every address
  in the maps of the service has 20 bytes".
\<close>

section \<open>The interface\<close>

locale step_frame = rt_frame R "\<lambda>_. True" for R :: "system \<Rightarrow> system \<Rightarrow> bool" +
  assumes frame_evqs: "R w (w\<lparr>evqs := qs\<rparr>)"
    and frame_recqs: "R w (w\<lparr>recqs := rs\<rparr>)"
    and frame_seen: "R w (w\<lparr>last_validated_blk_num := b\<rparr>)"
    and frame_iter: "R w (w\<lparr>last_chkpt_iter := k\<rparr>)"
    and frame_tasks: "R w (w\<lparr>tasks := ts\<rparr>)"
    and frame_deployed: "R w (w\<lparr>svc := (svc w)\<lparr>is_deployed := True\<rparr>\<rparr>)"
    and frame_publisher: "length p = 20 \<Longrightarrow> length a = 20 \<Longrightarrow>
      R w (w\<lparr>svc := (svc w)\<lparr>ev_mgr_addr_map := (ev_mgr_addr_map (svc w))(p \<mapsto> a)\<rparr>\<rparr>)"
    and frame_store: "length a = 20 \<Longrightarrow>
      R w (w\<lparr>svc := (svc w)\<lparr>past_event_store := emplace a q (past_event_store (svc w))\<rparr>\<rparr>)"
begin

lemma guar_queue_reads: "guar R (event_queue_at q)" "guar R (receipt_queue_at q)"
  by (simp_all add: guar_def event_queue_at_def receipt_queue_at_def frame_refl)

lemma guar_queues:
  "guar R new_event_queue" "guar R (event_queue_push q d)" "guar R (event_queue_drain q)"
  "guar R new_receipt_queue" "guar R (receipt_queue_push q r)" "guar R (receipt_queue_drain q)"
proof -
  have new: "guar R new_event_queue" "guar R new_receipt_queue"
    by (simp_all add: guar_def new_event_queue_def new_receipt_queue_def frame_evqs frame_recqs)
  have set: "guar R (set_event_queue q xs)" "guar R (set_receipt_queue q ys)" for xs ys
    by (simp_all add: set_event_queue_def set_receipt_queue_def guar_updates frame_evqs frame_recqs)
  show "guar R new_event_queue" "guar R new_receipt_queue" by (rule new)+
  show "guar R (event_queue_push q d)" "guar R (event_queue_drain q)"
    "guar R (receipt_queue_push q r)" "guar R (receipt_queue_drain q)"
    unfolding event_queue_push_def event_queue_drain_def receipt_queue_push_def receipt_queue_drain_def
    by (intro guar_rt guar_queue_reads set)+
qed

lemma guar_ext:
  "guar R (listen E d)" "guar R (cancel E i)" "guar R (add_emitter E e)" "guar R (sized_send E s m)"
  "guar R (refresh_bootstrap_plan E n start)" "guar R (own_step k)"
  unfolding ext_defs refresh_bootstrap_plan_def own_step_def
  by (auto intro!: guar_ext_result guar_updates frame_history)

lemma guar_lift_bnd: "(\<And>x. r = Inr x \<Longrightarrow> guar R (f x)) \<Longrightarrow> guar R (bnd (lift_res r) f)"
  by (cases r) (auto simp: guar_def bnd_def frame_refl)

lemmas guar_parts = guar_rt guar_queue_reads guar_queues guar_ext guar_host

section \<open>Every method\<close>

lemma guar_invoke: "c \<noteq> CbReg \<Longrightarrow> guar R (invoke E i c hdr log)"
  by (cases c)
    (auto simp: deploy_event_handler_def notify_past_event_handler_def notify_event_handler_def
      subscribed_receipt_handler_def update_svc_def
      intro!: guar_parts guar_updates frame_deployed split: prod.split option.split)

lemma guar_reg:
  "length p = 20 \<Longrightarrow> length a = 20 \<Longrightarrow> guar R (reg_map_section p a)"
  "length a = 20 \<Longrightarrow> guar R (reg_store_section a)" "guar R (reg_listen_section E hdr p a)"
  unfolding reg_map_section_def reg_store_section_def reg_listen_section_def update_svc_def
  by (auto intro!: guar_parts guar_updates frame_publisher frame_store)

lemma guar_sections:
  "guar R (subreq_lookup E msg)" "guar R (subreq_listen E a)" "guar R (sec_section E)"
  "guar R get_last_validated_blk_num" "guar R (get_past_events a)" "guar R (send_section E s m)"
  "guar R (attach_section E e)" "guar R (receipt_listen_section E addr topics)" "guar R (send_raw E txn)"
  unfolding subreq_lookup_def get_event_mgr_addr_def subreq_listen_def get_notify_event_topic_def
    sec_section_def get_monitor_sec_state_def get_last_validated_blk_num_def get_past_events_def
    send_section_def attach_section_def receipt_listen_section_def send_raw_def send_raw_transaction_def
  by (auto intro!: guar_parts guar_updates frame_history split: option.split prod.split)

lemma guar_read: "guar R (read_section E a x m)"
  by (cases x) (auto intro!: guar_bnd guar_pure guar_sections)

lemma guar_take: "guar R (take_section e)"
  by (cases e) (auto intro!: guar_parts)

lemma guar_cancelling: "guar R m \<Longrightarrow> guar R (cancelling E e m)"
  unfolding cancelling_def by (intro guar_parts)

lemma guar_task: "task_inv w t \<Longrightarrow> guar R (task_prog E t)"
  by (cases "(E, t)" rule: task_prog.cases)
    (auto intro!: guar_bnd guar_pure guar_sections guar_read guar_cancelling guar_reg)

lemma guar_monitor:
  "guar R (receipts_getter E k)" "guar R (on_header_confirmed E hdr)"
  unfolding receipts_getter_def on_header_confirmed_def log_monitor_status_def
  by (auto intro!: guar_parts guar_updates frame_iter split: phase.split)

lemma guar_run: "guar R m \<Longrightarrow> R w (snd (m w))"
  by (simp add: guar_def)

lemma frame_steps: "R w (in_monitor w)" "R v (unlocked v)" "R v (begun ts v)" "R v (followed t r v)"
  unfolding in_monitor_def unlocked_def begun_def followed_def by (rule frame_held frame_tasks)+

lemma step_respects:
  assumes "sys_step E w l u" "sys_inv w"
  shows "R w u"
  using assms(1)
proof cases
  case (step_notify i d log hdr)
  have "R (in_monitor w) (snd (invoke E i (ed_callback d) hdr log (in_monitor w)))"
    by (rule guar_run [OF guar_invoke [OF step_notify(5)]])
  then show ?thesis unfolding step_notify(2) by (blast intro: frame_trans frame_steps)
next
  case (step_reg i d log p a v hdr)
  have "guar R (reg_map_section p a)" using reg_addresses_sized [OF step_reg(6)] by (simp add: guar_reg)
  then have "R (in_monitor w) v" using step_reg(7) by (rule guarD)
  then show ?thesis unfolding step_reg(2) by (blast intro: frame_trans frame_steps)
next
  case (step_take e load v order)
  then show ?thesis using guarD [OF guar_take] frame_steps(3) frame_trans by blast
next
  case (step_lookup msg p a v order s)
  then show ?thesis using guarD [OF guar_sections(1)] frame_steps(3) frame_trans by blast
next
  case (step_receipt_listen msg addr topics r v s)
  then show ?thesis using guarD [OF guar_sections(8)] frame_steps(3) frame_trans by blast
next
  case (step_task t r v)
  have "task_inv w t" using assms(2) step_task(3) by (simp add: sys_inv_def)
  then have "R (w\<lparr>held := task_locks t\<rparr>) v" using guarD [OF guar_task step_task(4)] by blast
  moreover have "R w (w\<lparr>held := task_locks t\<rparr>)" by (rule frame_held)
  ultimately show ?thesis unfolding step_task(2) by (blast intro: frame_trans frame_steps)
qed (simp_all add: guar_run guar_ext guar_host guar_monitor guar_log guar_sections frame_seen frame_refl)

lemma run_respects: "sys_run E w ls u \<Longrightarrow> sys_inv w \<Longrightarrow> R w u"
proof (induction rule: sys_run.induct)
  case (run_cons w l v ls u)
  then show ?case using step_respects step_keeps_inv frame_trans by blast
qed (rule frame_refl)

end

section \<open>The manager stays set\<close>

definition mgr_same :: "system \<Rightarrow> system \<Rightarrow> bool" where
  "mgr_same w u \<longleftrightarrow> mgr_set u = mgr_set w"

interpretation mgr_frame: step_frame mgr_same
  by unfold_locales (simp_all add: mgr_same_def)

lemma reachable_mgr_set:
  assumes "reachable E w"
  shows "mgr_set w"
proof -
  obtain v ls where init: "initialised E v" and run: "sys_run E v ls w"
    using assms unfolding reachable_def by blast
  have "mgr_set v"
    using init unfolding initialised_def fresh_process_def
    by (metis init_registers mgr_ready_def empty_iff empty_set)
  with mgr_frame.run_respects [OF run initialised_inv [OF init]] show ?thesis by (simp add: mgr_same_def)
qed

section \<open>Addresses have 20 bytes\<close>

definition addrs_sized :: "system \<Rightarrow> bool" where
  "addrs_sized w \<longleftrightarrow>
     (\<forall>p a. ev_mgr_addr_map (svc w) p = Some a \<longrightarrow> length p = 20 \<and> length a = 20) \<and>
     (\<forall>a q. past_event_store (svc w) a = Some q \<longrightarrow> length a = 20)"

interpretation addr_frame: step_frame "keeps addrs_sized"
  by unfold_locales (auto simp: keeps_def addrs_sized_def emplace_apply split: if_splits)

lemma reachable_addrs_sized:
  assumes "reachable E w"
  shows "addrs_sized w"
proof -
  obtain v ls where init: "initialised E v" and run: "sys_run E v ls w"
    using assms unfolding reachable_def by blast
  have "addrs_sized v"
    using initialised_state [OF init] by (simp add: sys_inv_def store_inv_def addrs_sized_def)
  with addr_frame.run_respects [OF run initialised_inv [OF init]] show ?thesis by (simp add: keeps_def)
qed

section \<open>Properties\<close>

text \<open>C19: types of the service's data: in every reachable state a registered publisher, its event manager
and every manager with past events has an address of 20 bytes, so that what \<open>GetEventMgrAddr\<close>
answers has 20 bytes for any argument, and the service listens for past events of 20-byte addresses
only. This holds for whatever the logs of the contract carry.\<close>

theorem service_addresses_typed:
  assumes "reachable E w"
  shows "(\<forall>p a. ev_mgr_addr_map (svc w) p = Some a \<longrightarrow> length p = 20 \<and> length a = 20) \<and>
    (\<forall>p. \<exists>a. get_event_mgr_addr p w = (Inr a, w) \<and> length a = 20) \<and>
    (\<forall>i d. listeners (history w) i = Some d \<longrightarrow> ed_callback d = CbNotifyPast \<longrightarrow>
       length (ed_addr d) = 20 \<and> ed_topics d = [notify_ev_topic (svc w)])"
proof -
  note sized = reachable_addrs_sized [OF assms] and inv = reachable_inv [OF assms]
  have "\<exists>a. get_event_mgr_addr p w = (Inr a, w) \<and> length a = 20" for p
    using sized inv
    by (auto simp: get_event_mgr_addr_run sys_inv_def addrs_sized_def zero_addr_def split: option.split)
  moreover have "length (ed_addr d) = 20 \<and> ed_topics d = [notify_ev_topic (svc w)]"
    if "listeners (history w) i = Some d" "ed_callback d = CbNotifyPast" for i d
  proof -
    have "cb_inv w d CbNotifyPast" using inv that unfolding sys_inv_def by metis
    then have "d = build_notify_past_event_descr (ed_addr d) (svc w)" "past_event_store (svc w) (ed_addr d) \<noteq> None"
      by simp_all
    with sized show ?thesis
      unfolding addrs_sized_def build_notify_past_event_descr_def by (metis event_descr.select_convs(2) not_None_eq)
  qed
  ultimately show ?thesis using sized unfolding addrs_sized_def by blast
qed

theorem service_addresses_typed_witness:
  "\<exists>a. get_event_mgr_addr (replicate 20 1) example_registered = (Inr a, example_registered) \<and> length a = 20"
  using service_addresses_typed [OF example_reachable(3)] by blast

end
