(* ===== verification/BlockProcessing.thy ===== *)
theory BlockProcessing
  imports HandlerSteps StepFrames
begin

text \<open>
  Processing a block as a sequence of steps of the system. \<open>append_block\<close> runs under \<open>MonitorMutex\<close>;
  \<open>in_block step ready m\<close> says that \<open>m\<close>, run there in a state that is ready for it, does what some sequence
  of steps does, keeps the mutex and is defined. The calls a block makes have this property, and it composes;
  with the libraries constrained to run only the closures they were given (\<open>runs_callbacks\<close>, \<open>runs_listeners\<close>)
  so has the whole, which is the refinement from the code of one block to steps. The locale \<open>block_thread\<close>
  says what a step relation has to allow for this; it is interpreted for the steps of the block thread under
  the mutex (\<open>Exclusion\<close>) and for those of the system without it (\<open>PubsubSystem\<close>).
\<close>

section \<open>Methods that run inside a block\<close>

definition in_block ::
    "(system \<Rightarrow> label \<Rightarrow> system \<Rightarrow> bool) \<Rightarrow> (system \<Rightarrow> bool) \<Rightarrow> (system, 'a) prog \<Rightarrow> bool" where
  "in_block step ready m \<longleftrightarrow> (\<forall>w. sys_inv w \<longrightarrow> ready w \<longrightarrow>
     (\<exists>ls. run_of step w ls (unlocked (snd (m (in_monitor w))))) \<and>
     tasks (snd (m (in_monitor w))) = tasks w \<and>
     held (snd (m (in_monitor w))) = {MonitorMutex} \<and> \<not> is_undef (fst (m (in_monitor w))))"

lemma in_blockI:
  assumes "\<And>w r u. sys_inv w \<Longrightarrow> ready w \<Longrightarrow> m (in_monitor w) = (r, u) \<Longrightarrow>
    (\<exists>ls. run_of step w ls (unlocked u)) \<and> tasks u = tasks w \<and> held u = {MonitorMutex} \<and> \<not> is_undef r"
  shows "in_block step ready m"
  unfolding in_block_def using assms by (metis prod.collapse)

lemma in_blockD:
  assumes "in_block step ready m" "sys_inv w" "ready w" "m (in_monitor w) = (r, u)"
  obtains ls where "run_of step w ls (unlocked u)" "tasks u = tasks w" "held u = {MonitorMutex}" "\<not> is_undef r"
  using assms unfolding in_block_def by (metis fst_conv snd_conv)

lemma in_monitor_unlocked: "held u = {MonitorMutex} \<Longrightarrow> in_monitor (unlocked u) = u" for u :: system
  by (simp add: in_monitor_def unlocked_def)

lemma unlocked_in_monitor: "held w = {} \<Longrightarrow> unlocked (in_monitor w) = w" for w :: system
  by (simp add: in_monitor_def unlocked_def)

section \<open>The block thread\<close>

text \<open>What a step relation has to allow the thread that processes a block, when it is ready for a call: the
calls of the monitor's callbacks, besides the callbacks of the event manager.\<close>

locale block_thread = callback_runs E step ready for E step ready +
  assumes ready_tasks: "ready w \<Longrightarrow> tasks u = tasks w \<Longrightarrow> ready u"
    and thread_own: "ready w \<Longrightarrow> step w Silent (snd (own_step n w))"
    and thread_fetch: "ready w \<Longrightarrow> step w Silent (snd (receipts_getter E k w))"
    and thread_latest: "ready w \<Longrightarrow> step w Silent (snd (get_latest_block_num E w))"
    and thread_plan: "ready w \<Longrightarrow> step w Silent (snd (refresh_bootstrap_plan E k start w))"
    and thread_seen: "ready w \<Longrightarrow> step w Silent (w\<lparr>last_validated_blk_num := raw_number (hdr :: header)\<rparr>)"
    and thread_confirmed: "ready w \<Longrightarrow> step w Silent (snd (on_header_confirmed E hdr w))"
begin

lemma run_system: "run_of step w ls u \<Longrightarrow> sys_run E w ls u"
  by (induction rule: run_of.induct) (auto intro: sys_run.intros step_system)

lemma in_block_pure:
  "in_block step ready (ret x)" "in_block step ready (raise e)" "in_block step ready (lib q)" "in_block step ready (ask f)"
  using no_steps [of step]
  by (auto intro!: in_blockI simp: unlocked_in_monitor sys_inv_def ask_def)

text \<open>After a method that runs inside a block the block thread is where it was, and can go on.\<close>

lemma in_block_next:
  assumes "in_block step ready m" "sys_inv w" "ready w" "m (in_monitor w) = (r, t)"
    and "in_block step ready n" "n t = (q, u)"
  shows "(\<exists>ls. run_of step w ls (unlocked u)) \<and> tasks u = tasks w \<and> held u = {MonitorMutex} \<and> \<not> is_undef q"
proof -
  from in_blockD [OF assms(1-4)] obtain ls where
      ls: "run_of step w ls (unlocked t)" "tasks t = tasks w" "held t = {MonitorMutex}" .
  have inv: "sys_inv (unlocked t)" using run_system [OF ls(1)] assms(2) by (rule run_keeps_inv)
  have ready: "ready (unlocked t)" using assms(3) by (rule ready_tasks) (simp add: ls(2))
  have "n (in_monitor (unlocked t)) = (q, u)" using assms(6) by (simp only: in_monitor_unlocked [OF ls(3)])
  from in_blockD [OF assms(5) inv ready this] obtain ls' where
      "run_of step (unlocked t) ls' (unlocked u)" "tasks u = tasks (unlocked t)" "held u = {MonitorMutex}"
      "\<not> is_undef q" .
  with run_of_append [OF ls(1)] ls(2) show ?thesis by auto
qed

lemma in_block_bnd:
  fixes m :: "(system, 'a) prog" and f :: "'a \<Rightarrow> (system, 'b) prog"
  assumes "in_block step ready m" "\<And>x. in_block step ready (f x)"
  shows "in_block step ready (bnd m f)"
proof (rule in_blockI)
  fix w r u
  assume inv: "sys_inv w" "ready w" and run: "bnd m f (in_monitor w) = (r, u)"
  from run show "(\<exists>ls. run_of step w ls (unlocked u)) \<and> tasks u = tasks w \<and> held u = {MonitorMutex} \<and> \<not> is_undef r"
  proof (cases rule: bnd_cases)
    case (fails e)
    from in_blockD [OF assms(1) inv fails(1)] obtain ls where "run_of step w ls (unlocked u)"
      "tasks u = tasks w" "held u = {MonitorMutex}" "\<not> is_undef (Inl e :: 'a res)" .
    with fails(2) show ?thesis by (auto simp: is_undef_Inl)
  next
    case (goes_on x t)
    show ?thesis by (rule in_block_next [OF assms(1) inv goes_on(1) assms(2) goes_on(2)])
  qed
qed

lemma in_block_try_catch:
  assumes "in_block step ready m" "\<And>e. in_block step ready (h e)"
  shows "in_block step ready (try_catch m h)"
proof (rule in_blockI)
  fix w r u
  assume inv: "sys_inv w" "ready w" and run: "try_catch m h (in_monitor w) = (r, u)"
  obtain q t where m: "m (in_monitor w) = (q, t)" by fastforce
  show "(\<exists>ls. run_of step w ls (unlocked u)) \<and> tasks u = tasks w \<and> held u = {MonitorMutex} \<and> \<not> is_undef r"
  proof (cases "\<exists>e. q = Inl (Raised e)")
    case True
    then obtain e where "q = Inl (Raised e)" by blast
    with run m have "h e t = (r, u)" by simp
    with in_block_next [OF assms(1) inv m assms(2)] show ?thesis by blast
  next
    case False
    with run m have "u = t \<and> r = q" by (auto simp: try_catch_def split: sum.splits fault.splits)
    with in_blockD [OF assms(1) inv m] show ?thesis by metis
  qed
qed

lemma in_block_for_each:
  "(\<And>x. in_block step ready (f x)) \<Longrightarrow> in_block step ready (for_each xs f)"
  by (induction xs) (simp_all add: in_block_pure in_block_bnd)

text \<open>A method that does not look at the mutexes and is a step of the system.\<close>

lemma in_block_step:
  assumes "guar quiet m"
    and "\<And>w r u. sys_inv w \<Longrightarrow> ready w \<Longrightarrow> m (in_monitor w) = (r, u) \<Longrightarrow>
      step w l (unlocked u) \<and> held u = {MonitorMutex} \<and> \<not> is_undef r"
  shows "in_block step ready m"
proof (rule in_blockI)
  fix w r u
  assume w: "sys_inv w" "ready w" "m (in_monitor w) = (r, u)"
  have "tasks u = tasks w" using guarD [OF assms(1) w(3)] by (simp add: quiet_def)
  with assms(2) [OF w] run_of_one [of step] show "(\<exists>ls. run_of step w ls (unlocked u)) \<and>
      tasks u = tasks w \<and> held u = {MonitorMutex} \<and> \<not> is_undef r" by blast
qed

lemma held_history: "held w = {} \<Longrightarrow> unlocked (in_monitor w\<lparr>history := h\<rparr>) = w\<lparr>history := h\<rparr>" for w :: system
  by (simp add: in_monitor_def unlocked_def)

section \<open>The calls of a block\<close>

lemma in_block_own: "in_block step ready (own_step n)"
proof (rule in_block_step, rule quiet_block(1))
  fix w r u
  assume w: "sys_inv w" "ready w" and "own_step n (in_monitor w) = (r, u)"
  moreover have "step w Silent (snd (own_step n w))" by (rule thread_own [OF w(2)])
  ultimately show "step w Silent (unlocked u) \<and> held u = {MonitorMutex} \<and> \<not> is_undef r"
    by (auto simp: own_step_def held_history sys_inv_def)
qed

lemma in_block_getter: "in_block step ready (receipts_getter E n)"
proof (rule in_block_step, rule quiet_block(2))
  fix w r u
  assume w: "sys_inv w" "ready w" and run: "receipts_getter E n (in_monitor w) = (r, u)"
  have "held w = {}" using w(1) by (simp add: sys_inv_def)
  moreover have "step w Silent (snd (receipts_getter E n w))" by (rule thread_fetch [OF w(2)])
  ultimately show "step w Silent (unlocked u) \<and> held u = {MonitorMutex} \<and> \<not> is_undef r"
    using run
    by (auto simp: receipts_getter_def bnd_run get_receipts_rlp_by_num_run held_history of_lib_def
        split: prod.splits sum.splits)
qed

lemma in_block_latest: "in_block step ready (get_latest_block_num E)"
proof (rule in_block_step, rule quiet_block(3))
  fix w r u
  assume w: "sys_inv w" "ready w" and run: "get_latest_block_num E (in_monitor w) = (r, u)"
  have "held w = {}" using w(1) by (simp add: sys_inv_def)
  moreover have "step w Silent (snd (get_latest_block_num E w))" by (rule thread_latest [OF w(2)])
  ultimately show "step w Silent (unlocked u) \<and> held u = {MonitorMutex} \<and> \<not> is_undef r"
    using run
    by (auto simp: get_latest_block_num_run held_history of_lib_def split: prod.splits sum.splits)
qed

lemma in_block_plan: "in_block step ready (refresh_bootstrap_plan E n start_num)"
proof (rule in_block_step, rule quiet_block(4))
  fix w r u
  assume w: "sys_inv w" "ready w" and run: "refresh_bootstrap_plan E n start_num (in_monitor w) = (r, u)"
  have "held w = {}" using w(1) by (simp add: sys_inv_def)
  moreover have "step w Silent (snd (refresh_bootstrap_plan E n start_num w))" by (rule thread_plan [OF w(2)])
  ultimately show "step w Silent (unlocked u) \<and> held u = {MonitorMutex} \<and> \<not> is_undef r"
    using run
    by (auto simp: refresh_bootstrap_plan_def ext_result_run held_history split: sum.splits)
qed

lemma in_block_seen: "in_block step ready (updates (\<lambda>w. w\<lparr>last_validated_blk_num := raw_number (hdr :: header)\<rparr>))"
proof (rule in_block_step, rule quiet_updates)
  fix w r u
  assume w: "sys_inv w" "ready w" and run: "updates (\<lambda>w. w\<lparr>last_validated_blk_num := raw_number hdr\<rparr>) (in_monitor w) = (r, u)"
  have "unlocked u = w\<lparr>last_validated_blk_num := raw_number hdr\<rparr>" "held u = {MonitorMutex}" "r = Inr ()"
    using w(1) run by (auto simp: in_monitor_def unlocked_def sys_inv_def)
  moreover have "step w Silent (w\<lparr>last_validated_blk_num := raw_number hdr\<rparr>)" by (rule thread_seen [OF w(2)])
  ultimately show "step w Silent (unlocked u) \<and> held u = {MonitorMutex} \<and> \<not> is_undef r"
    by simp
qed simp_all

lemma confirmed_held:
  "on_header_confirmed E hdr (w\<lparr>held := H\<rparr>) =
     (Inr (), (snd (on_header_confirmed E hdr w))\<lparr>held := H\<rparr>)"
  by (simp add: on_header_confirmed_run Let_def)

lemma in_block_confirmed: "in_block step ready (on_header_confirmed E hdr)"
proof (rule in_block_step, rule quiet_block(5))
  fix w r u
  assume w: "sys_inv w" "ready w" and run: "on_header_confirmed E hdr (in_monitor w) = (r, u)"
  have held: "held w = {}" using w(1) by (simp add: sys_inv_def)
  have "unlocked u = snd (on_header_confirmed E hdr w)" "held u = {MonitorMutex}" "r = Inr ()"
    using run held balancedD [OF balanced_on_header_confirmed surjective_pairing, of E hdr w]
    by (auto simp: confirmed_held in_monitor_def unlocked_def)
  moreover have "step w Silent (snd (on_header_confirmed E hdr w))" by (rule thread_confirmed [OF w(2)])
  ultimately show "step w Silent (unlocked u) \<and> held u = {MonitorMutex} \<and> \<not> is_undef r"
    by simp
qed

lemma in_block_listener:
  assumes "abi_word_sized E"
  shows "in_block step ready (call_listener (invoke E) hdr i log)"
proof (rule in_blockI)
  fix w r u
  assume inv: "sys_inv w" "ready w" and run: "call_listener (invoke E) hdr i log (in_monitor w) = (r, u)"
  have held: "held w = {}" using inv(1) by (simp add: sys_inv_def)
  show "(\<exists>ls. run_of step w ls (unlocked u)) \<and> tasks u = tasks w \<and> held u = {MonitorMutex} \<and> \<not> is_undef r"
  proof (cases "\<exists>d. listeners (history w) i = Some d \<and> log_matches d log")
    case True
    then obtain d where d: "listeners (history w) i = Some d" "log_matches d log" by blast
    with run have call: "invoke E i (ed_callback d) hdr log (in_monitor w) = (r, u)"
      by (simp add: call_listener_def)
    have "tasks u = tasks w" using invoke_tasks [of E i "ed_callback d" hdr log "in_monitor w"] call by simp
    moreover have "held u = {MonitorMutex}" using balancedD [OF balanced_invoke call] by simp
    moreover have "\<not> is_undef r" using invoke_defined [OF inv(1) assms d(1), of hdr log] call by simp
    ultimately show ?thesis using callback_runs [OF inv d call] by blast
  next
    case False
    with run have "u = in_monitor w" "r = Inr ()"
      by (auto simp: call_listener_def split: option.splits if_splits)
    with held show ?thesis using no_steps [of step w] by (simp add: unlocked_in_monitor)
  qed
qed

lemma in_block_swallow: "in_block step ready m \<Longrightarrow> in_block step ready (swallow b m)"
  by (simp add: swallow_def in_block_try_catch in_block_pure)

lemma in_block_throws: "in_block step ready (then_throws what)"
  by (simp add: then_throws_def in_block_pure split: option.split)

section \<open>A block\<close>

lemma in_block_pointwise:
  assumes "\<And>w. \<exists>m'. m w = m' w \<and> in_block step ready m'"
  shows "in_block step ready m"
proof (rule in_blockI)
  fix w r u
  assume inv: "sys_inv w" "ready w" and run: "m (in_monitor w) = (r, u)"
  obtain m' where m': "m (in_monitor w) = m' (in_monitor w)" "in_block step ready m'" using assms by blast
  from run have "m' (in_monitor w) = (r, u)" by (simp add: m'(1))
  from in_blockD [OF m'(2) inv this]
  show "(\<exists>ls. run_of step w ls (unlocked u)) \<and> tasks u = tasks w \<and> held u = {MonitorMutex} \<and> \<not> is_undef r"
    by blast
qed

lemma in_block_check:
  assumes "abi_word_sized E" "runs_listeners (invoke E) chk"
  shows "in_block step ready (chk hdr (receipts_getter E))"
proof (rule in_block_pointwise)
  fix w
  obtain calls what where eq: "chk hdr (receipts_getter E) w =
      bnd (for_each calls (check_call (invoke E) hdr (receipts_getter E))) (\<lambda>_. then_throws what) w"
    using assms(2) unfolding runs_listeners_def by blast
  have "in_block step ready (check_call (invoke E) hdr (receipts_getter E) c)" for c
    using assms(1)
    by (cases c) (simp_all add: in_block_own in_block_bnd in_block_getter in_block_pure in_block_swallow
        in_block_listener)
  then have "in_block step ready (bnd (for_each calls (check_call (invoke E) hdr (receipts_getter E))) (\<lambda>_. then_throws what))"
    using assms(1) by (simp add: in_block_bnd in_block_for_each in_block_throws)
  with eq show "\<exists>m'. chk hdr (receipts_getter E) w = m' w \<and> in_block step ready m'" by blast
qed

lemma in_block_validated:
  assumes "abi_word_sized E" "runs_listeners (invoke E) chk"
  shows "in_block step ready (on_header_validated chk E hdr)"
  unfolding on_header_validated_alt
  using assms
  by (simp add: in_block_bnd in_block_seen in_block_check in_block_pure in_block_latest in_block_plan)

lemma in_block_update:
  assumes "abi_word_sized E" "runs_listeners (invoke E) chk" "runs_callbacks upd"
  shows "in_block step ready (upd (on_header_validated chk E) (on_header_confirmed E) rlp)"
proof (rule in_block_pointwise)
  fix w
  let ?v = "on_header_validated chk E" and ?c = "on_header_confirmed E"
  obtain calls what where eq: "upd ?v ?c rlp w =
      bnd (for_each calls (monitor_call ?v ?c)) (\<lambda>_. then_throws what) w"
    using assms(3) unfolding runs_callbacks_def by blast
  have "in_block step ready (monitor_call ?v ?c a)" for a
    using assms(1,2)
    by (cases a) (simp_all add: in_block_own in_block_swallow in_block_validated in_block_confirmed)
  then have "in_block step ready (bnd (for_each calls (monitor_call ?v ?c)) (\<lambda>_. then_throws what))"
    using assms(1) by (simp add: in_block_bnd in_block_for_each in_block_throws)
  with eq show "\<exists>m'. upd ?v ?c rlp w = m' w \<and> in_block step ready m'" by blast
qed

text \<open>Within a block, between the lock of the mutex and its unlock.\<close>

lemma block_runs:
  assumes "sys_inv w" "ready w" "abi_word_sized E" "runs_callbacks upd" "runs_listeners (invoke E) chk"
    and "append_block upd chk E rlp w = (r, u)"
  shows "(\<exists>ls. run_of step w ls u) \<and> tasks u = tasks w \<and> \<not> is_undef r \<and>
    (\<exists>t. upd (on_header_validated chk E) (on_header_confirmed E) rlp (in_monitor w) = (r, t) \<and>
       held t = {MonitorMutex} \<and> u = unlocked t)"
proof -
  have held: "held w = {}" using assms(1) by (simp add: sys_inv_def)
  obtain q t where run: "upd (on_header_validated chk E) (on_header_confirmed E) rlp (in_monitor w) = (q, t)"
    by fastforce
  from in_blockD [OF in_block_update [OF assms(3,5,4)] assms(1,2) run] obtain ls where
      ls: "run_of step w ls (unlocked t)" "tasks t = tasks w" "held t = {MonitorMutex}" "\<not> is_undef q" .
  have "append_block upd chk E rlp w = (q, unlocked t)"
    using held run ls(3) by (simp add: append_block_def with_lock_run in_monitor_def unlocked_def)
  then have "r = q" "u = unlocked t" using assms(6) by simp_all
  moreover have "tasks (unlocked t) = tasks w" by (simp only: unlocked_system ls(2))
  ultimately show ?thesis using ls(1,3,4) run by blast
qed

end

interpretation any_block: block_thread E "sys_step E" "\<lambda>w. True" for E
  by unfold_locales (rule TrueI step_own step_fetch step_latest step_plan step_seen step_confirmed)+

interpretation monitor_block: block_thread E "monitor_step E" idle for E
  by unfold_locales
    (simp add: idle_def callbacks_def,
     (rule monitor_own monitor_fetch monitor_latest monitor_plan monitor_seen monitor_confirmed; assumption)+)

lemma append_block_steps:
  assumes "sys_inv w" "abi_word_sized E" "runs_callbacks upd" "runs_listeners (invoke E) chk"
    and "append_block upd chk E rlp w = (r, u)"
  shows "(\<exists>ls. sys_run E w ls u) \<and> \<not> is_undef r"
  using any_block.block_runs [OF assms(1) TrueI assms(2-5)] run_of_system by blast

lemma example_quiet_libraries:
  "runs_callbacks (\<lambda>v c rlp. v example_header :: (system, unit) prog)"
  "runs_listeners (invoke example_env) (\<lambda>hdr getter. call_listener (invoke example_env) hdr 2 example_notify_log
     :: (system, unit) prog)"
proof -
  show "runs_callbacks (\<lambda>v c rlp. v example_header :: (system, unit) prog)"
    unfolding runs_callbacks_def
    by (intro allI exI [of _ "[Validates False example_header]"] exI [of _ None])
      (simp add: swallow_def then_throws_def bnd_def ret_def split: prod.split sum.split)
  show "runs_listeners (invoke example_env) (\<lambda>hdr getter. call_listener (invoke example_env) hdr 2 example_notify_log
     :: (system, unit) prog)"
    unfolding runs_listeners_def
    by (intro allI exI [of _ "[Invokes False 2 example_notify_log]"] exI [of _ None])
      (simp add: swallow_def then_throws_def bnd_def ret_def split: prod.split sum.split)
qed

section \<open>Properties\<close>

text \<open>C5: in every state that the enclave can reach while no block is processed, whatever the monitor and
the event manager do with the closures they are given, a block is processed by locking the mutex of the
monitor, by steps of the block thread alone, and by unlocking it: the method waits for that mutex, with no other,
while another thread has it; the monitor is called with exactly that mutex and returns with it; and it is a run of
the system under the mutex, after which the mutex is free and no registration event is left half done, also when
the block is rejected. It has no undefined behaviour.\<close>

theorem block_under_mutex:
  assumes "excl_reachable E (False, w)" "abi_word_sized E" "runs_callbacks upd" "runs_listeners (invoke E) chk"
  shows "blocked (append_block upd chk E header_rlp) w MonitorMutex {} \<and>
    (\<exists>r t ls. upd (on_header_validated chk E) (on_header_confirmed E) header_rlp (w\<lparr>held := {MonitorMutex}\<rparr>) = (r, t) \<and>
      held t = {MonitorMutex} \<and> append_block upd chk E header_rlp w = (r, t\<lparr>held := {}\<rparr>) \<and>
      run_of (monitor_step E) w ls (t\<lparr>held := {}\<rparr>) \<and>
      run_of (excl_step E) (False, w) (Silent # ls @ [Silent]) (False, t\<lparr>held := {}\<rparr>) \<and>
      idle (t\<lparr>held := {}\<rparr>) \<and> \<not> is_undef r)"
proof -
  obtain r u where run: "append_block upd chk E header_rlp w = (r, u)" by fastforce
  have inv: "sys_inv w" and idle: "idle w"
    using excl_reachable_system [OF assms(1)] excl_sequential [OF assms(1)] by (simp_all add: reachable_inv)
  from monitor_block.block_runs [OF inv idle assms(2-4) run] obtain ls t where
      ls: "run_of (monitor_step E) w ls u" and tasks: "tasks u = tasks w" and defined: "\<not> is_undef r"
      and body: "upd (on_header_validated chk E) (on_header_confirmed E) header_rlp (in_monitor w) = (r, t)"
        "held t = {MonitorMutex}" "u = unlocked t" by blast
  have after: "idle u" using idle tasks by (simp add: idle_def callbacks_def)
  have "run_of (excl_step E) (True, w) (ls @ [Silent]) (False, u)"
    using monitor_run [OF ls] run_of_one [of "excl_step E", OF excl_unlock [OF after]] by (rule run_of_append)
  with excl_lock have "run_of (excl_step E) (False, w) (Silent # ls @ [Silent]) (False, u)" by (rule run_of_more)
  moreover have "blocked (append_block upd chk E header_rlp) w MonitorMutex {}"
    using inv by (simp add: blocked_def append_block_def with_lock_twice sys_inv_def)
  ultimately show ?thesis using run ls after defined body unfolding in_monitor_def unlocked_def by blast
qed

theorem block_under_mutex_witness:
  "blocked (append_block (\<lambda>v c rlp. v example_header)
      (\<lambda>hdr getter. call_listener (invoke example_env) hdr 2 example_notify_log)
      example_env []) example_registered MonitorMutex {} \<and>
   (\<exists>r u. append_block (\<lambda>v c rlp. v example_header)
      (\<lambda>hdr getter. call_listener (invoke example_env) hdr 2 example_notify_log)
      example_env [] example_registered = (r, u) \<and> idle u \<and> \<not> is_undef r)"
  using block_under_mutex [OF example_excl_reachable example_abi_word_sized example_quiet_libraries] by blast

text \<open>Processing a block in a reachable state does nothing but steps of the system, whatever the
monitor and the event manager do with the closures they are given and however it ends; it has no
undefined behaviour, and leaves a reachable state. So what is shown of runs holds of an enclave that
processes blocks.\<close>

theorem block_is_steps:
  assumes "reachable E w" "abi_word_sized E" "runs_callbacks upd" "runs_listeners (invoke E) chk"
  shows "\<exists>r u ls. append_block upd chk E header_rlp w = (r, u) \<and> sys_run E w ls u \<and> reachable E u \<and>
    \<not> is_undef r"
proof -
  obtain r u where run: "append_block upd chk E header_rlp w = (r, u)" by fastforce
  from append_block_steps [OF reachable_inv [OF assms(1)] assms(2-4) run]
  obtain ls where "sys_run E w ls u" "\<not> is_undef r" by blast
  with run reachable_run [OF assms(1)] show ?thesis by blast
qed

theorem block_is_steps_witness:
  "\<exists>r u. append_block (\<lambda>v c rlp. v example_header)
      (\<lambda>hdr getter. call_listener (invoke example_env) hdr 2 example_notify_log)
      example_env [] example_registered = (r, u) \<and> reachable example_env u"
  using block_is_steps [OF example_reachable(3) example_abi_word_sized example_quiet_libraries] by blast

text \<open>C23: in every reachable state the ECALL for a block always returns one of its two
statuses, and leaves a reachable state.\<close>

theorem recv_block_always_answers:
  assumes "reachable E w" "abi_word_sized E" "runs_callbacks upd" "runs_listeners (invoke E) chk"
  shows "\<exists>status u. ecall_decent_ethereum_recv_block upd chk E hdr_rlp w = (Inr status, u) \<and>
    (status = SGX_SUCCESS \<or> status = SGX_ERROR_UNEXPECTED) \<and> reachable E u"
proof -
  note set = reachable_mgr_set [OF assms(1)]
  obtain r u where run: "append_block upd chk E hdr_rlp w = (r, u)" by fastforce
  from append_block_steps [OF reachable_inv [OF assms(1)] assms(2-4) run]
  obtain ls where ls: "sys_run E w ls u" "\<not> is_undef r" by blast
  then have u: "reachable E u" using reachable_run [OF assms(1)] by blast
  show ?thesis
  proof (cases r)
    case (Inr v)
    with run set u show ?thesis
      by (simp add: ecall_decent_ethereum_recv_block_def ecall_def recv_block_def deref_mgr_def)
  next
    case (Inl e)
    with ls(2) obtain what where e: "e = Raised what" by (cases e) simp_all
    have "sys_step E u Silent (snd (log_msg Error ''Platform::Print'' what u))" by (rule step_log)
    then have "reachable E (u\<lparr>history := Logged Error ''Platform::Print'' what # history u\<rparr>)"
      using reachable_step [OF u] by (simp add: log_msg_run)
    with run set Inl e show ?thesis
      by (simp add: ecall_decent_ethereum_recv_block_def ecall_def recv_block_def deref_mgr_def
          platform_print_def log_msg_run try_catch_def)
  qed
qed

theorem recv_block_always_answers_witness:
  "\<exists>status u. ecall_decent_ethereum_recv_block (\<lambda>v c rlp. v example_header)
      (\<lambda>hdr getter. call_listener (invoke example_env) hdr 2 example_notify_log)
      example_env [] example_registered = (Inr status, u)"
  using recv_block_always_answers [OF example_reachable(3) example_abi_word_sized example_quiet_libraries] by blast

end
