(* ===== verification/HeartbeatRace.thy ===== *)
theory HeartbeatRace
  imports BlockProcessing
begin

text \<open>
  A race between the heartbeat thread and the block thread, as a run of the system under the mutex of the
  monitor: \<^verbatim>\<open>EmitterHandler\<close> of Trusted/Pubsub/SubscriberHandler.hpp empties the queue in one critical section
  and reads the number of the latest block in a later one, and a whole block may be processed between the two.
\<close>

section \<open>A heartbeat between two parts of which a block is processed\<close>

lemma beat_finishes:
  fixes w :: system
  assumes "held w = {}" "rlp_write_sec E (sec_state_at E (history w)) = Inr sec"
    and "build_emitted_msg E sec (last_validated_blk_num w) evs = Inr m" "send_at E (history w) s m = Inr ()"
  shows "thread E (BRead (EventEmitter s q i) (unread (Events evs)) [ArgSec, ArgNum]) w
    = (Inr (), w\<lparr>history := Sent s m # history w\<rparr>)"
  using assms
  by (simp add: thread_beat cancelling_Inr sec_section_def send_section_def args_msg_def unread_def prog_run
      del: thread.simps)

text \<open>The heartbeat of the code is its first part, after which it has no mutex, and the rest.\<close>

lemma beat_in_two:
  "run_emitter E (EventEmitter s q i) = bnd (cancelling E (EventEmitter s q i) (take_section (EventEmitter s q i)))
     (\<lambda>load. thread E (BRead (EventEmitter s q i) (unread load) [ArgSec, ArgNum]))"
  by (simp only: run_emitter_sections cancelling_then thread_beat)

lemma beat_takes:
  assumes "held w \<subseteq> {MonitorMutex}" "q < length (evqs w)"
  shows "cancelling E e (take_section (EventEmitter s q i)) w =
    (Inr (Events (evqs w ! q)), w\<lparr>evqs := (evqs w)[q := []]\<rparr>)"
  using assms by (auto simp: cancelling_Inr prog_run)

lemma beat_waits_empty:
  assumes "held w = {}" "q < length (evqs w)"
  shows "run_emitter E (EventEmitter s q i) (w\<lparr>held := {MonitorMutex}\<rparr>) =
    (Inl (Undef (LockedTwice MonitorMutex {MonitorMutex})), w\<lparr>held := {MonitorMutex}, evqs := (evqs w)[q := []]\<rparr>)"
  using assms
  by (simp add: emitter_handler_def get_monitor_sec_state_def with_lock_twice try_catch_def bnd_run
      event_queue_drain_run)

section \<open>A block with an event for the subscription\<close>

definition beside :: "sock \<Rightarrow> system \<Rightarrow> system \<Rightarrow> bool" where
  "beside s w u \<longleftrightarrow> evqs u = evqs w \<and> last_validated_blk_num u = last_validated_blk_num w \<and>
     messages s (history u) = messages s (history w)"

interpretation beside_frame: rt_frame "beside s" "\<lambda>c. \<forall>m. c \<noteq> Sent s m" for s
proof
  show "beside s w (w\<lparr>history := c # history w\<rparr>)" if "\<forall>m. c \<noteq> Sent s m" for w c
    using that by (cases c) (auto simp: beside_def)
qed (auto simp: beside_def)

text \<open>What the monitor and \<open>CheckEvents\<close> do here: they validate the block and run the listener of the subscription.\<close>

definition validates :: "header \<Rightarrow> 'z monitor_update" where
  "validates hdr = (\<lambda>v c rlp. v hdr)"

definition notifies :: "env \<Rightarrow> cb_id \<Rightarrow> log_entry \<Rightarrow> 'z check_events" where
  "notifies E j log = (\<lambda>hdr getter. call_listener (invoke E) hdr j log)"

lemma validates_notifies:
  "runs_callbacks (validates hdr)" "runs_listeners (invoke E) (notifies E j log)"
proof -
  show "runs_callbacks (validates hdr)"
    unfolding runs_callbacks_def validates_def
    by (intro allI exI [of _ "[Validates False hdr]"] exI [of _ None])
      (simp add: swallow_def then_throws_def bnd_def ret_def split: prod.split sum.split)
  show "runs_listeners (invoke E) (notifies E j log)"
    unfolding runs_listeners_def notifies_def
    by (intro allI exI [of _ "[Invokes False j log]"] exI [of _ None])
      (simp add: swallow_def then_throws_def bnd_def ret_def split: prod.split sum.split)
qed

lemma block_delivers:
  assumes "sys_inv w" "listeners (history w) j = Some d" "ed_callback d = CbNotify q logger" "log_matches d log"
    and "abi_bytes E (log_data log) = Inr (msg, rest)" "append_block (validates hdr) (notifies E j log) E rlp w = (r, u)"
  shows "evqs u = (evqs w)[q := evqs w ! q @ [[raw_number hdr, msg]]]"
    and "last_validated_blk_num u = raw_number hdr" "messages s (history u) = messages s (history w)"
proof -
  have held: "held w = {}" using assms(1) by (simp add: sys_inv_def)
  have "cb_inv w d (CbNotify q logger)" using assms(1,2,3) unfolding sys_inv_def by metis
  then have q: "q < length (evqs w)" by (simp add: sub_queue_def)
  let ?rest = "bnd (ask (plan_is_refreshed E hdr)) (\<lambda>refresh.
     if refresh then bnd (get_latest_block_num E) (\<lambda>latest. refresh_bootstrap_plan E latest None) else ret ())"
  let ?v = "w\<lparr>held := {MonitorMutex}, last_validated_blk_num := raw_number hdr,
     evqs := (evqs w)[q := evqs w ! q @ [[raw_number hdr, msg]]],
     history := Logged Debug logger (''Emit an event at block #'' @ to_string (number hdr)) # history w\<rparr>"
  have "on_header_validated (notifies E j log) E hdr (w\<lparr>held := {MonitorMutex}\<rparr>) = ?rest ?v"
    using assms(2-5) q
    by (simp add: on_header_validated_alt notifies_def call_listener_def bnd_run
        notify_event_handler_run [OF assms(5), of _ q logger hdr])
  then have u: "u = (snd (?rest ?v))\<lparr>held := held (snd (?rest ?v)) - {MonitorMutex}\<rparr>"
    using assms(6) held by (simp add: append_block_def validates_def with_lock_run)
  have "guar (beside s) ?rest"
    unfolding refresh_bootstrap_plan_def ask_def
    by (auto intro!: beside_frame.guar_rt beside_frame.guar_ext_result beside_frame.guar_host)
  then have "beside s ?v (snd (?rest ?v))" by (rule guarD) (rule surjective_pairing)
  then show "evqs u = (evqs w)[q := evqs w ! q @ [[raw_number hdr, msg]]]"
    "last_validated_blk_num u = raw_number hdr" "messages s (history u) = messages s (history w)"
    unfolding u beside_def by simp_all
qed

section \<open>A subscription\<close>

definition example_subscribed :: system where
  "example_subscribed = snd (sub_req example_env 3 (replicate 20 1) example_registered)"

lemma example_subscribed_reachable: "excl_reachable example_env (False, example_subscribed)"
proof -
  have "sys_inv example_registered" using example_reachable(3) by (rule reachable_inv)
  from sub_req_runs [OF this] obtain ls where
      "run_of (client_step example_env True) example_registered ls example_subscribed"
    unfolding example_subscribed_def by blast
  with excl_reachable_run [OF example_excl_reachable client_run] show ?thesis by blast
qed

lemma example_subscribed_history:
  "EmitterAdded (EventEmitter 3 1 3) \<in> set (history example_subscribed)"
  "listeners (history example_subscribed) 3 = Some (build_notify_event_descr example_env (replicate 20 2)
     (notify_ev_topic (svc example_registered)) 1)"
proof -
  have valid: "past_refs_valid example_registered"
    using reachable_inv [OF example_reachable(3)] by (simp add: sys_inv_def store_inv_def)
  have manager: "event_mgr_of (svc example_registered) (replicate 20 1) = replicate 20 2"
    by (simp add: event_mgr_of_def reg_store_def)
  have first: "length (evqs example_registered) = 1" by simp
  have some: "replicate 20 2 \<noteq> zero_addr" by (simp add: zero_addr_def)
  have run: "example_subscribed = example_registered\<lparr>evqs := evqs example_registered @ [[]], history :=
      Logged Debug subreq_logger ''Received a subscribe request'' # EmitterAdded (EventEmitter 3 1 3) # Sent 3 [9] #
      Listened (build_notify_event_descr example_env (replicate 20 2) (notify_ev_topic (svc example_registered)) 1) 3 #
      subscribing_log example_env (replicate 20 2) # history example_registered\<rparr>"
    unfolding example_subscribed_def sub_req_def
    by (simp add: prog_run example_publisher_of valid manager [simplified] some emitted_msg_def build_emitted_msg_def
        Let_def first subscribing_log_def del: example_registered_simps(2))
  show "EmitterAdded (EventEmitter 3 1 3) \<in> set (history example_subscribed)"
    "listeners (history example_subscribed) 3 = Some (build_notify_event_descr example_env (replicate 20 2)
     (notify_ev_topic (svc example_registered)) 1)"
    by (simp_all add: run)
qed

section \<open>The run\<close>

lemma block_after_take:
  assumes "excl_reachable E (False, w)" "EmitterAdded (EventEmitter s q i) \<in> set (history w)"
    and "listeners (history w) j = Some d" "ed_callback d = CbNotify q logger" "log_matches d log"
    and "abi_bytes E (log_data log) = Inr (msg, rest)" "abi_word_sized E"
    and t: "t = BRead (EventEmitter s q i) (unread (Events (evqs w ! q))) [ArgSec, ArgNum]"
    and block: "append_block (validates hdr) (notifies E j log) E rlp (begun [t] (w\<lparr>evqs := (evqs w)[q := []]\<rparr>)) = (r, b)"
  shows "sys_inv b \<and> tasks b = t # tasks w \<and> evqs b ! q = [[raw_number hdr, msg]] \<and> q < length (evqs b) \<and>
    last_validated_blk_num b = raw_number hdr \<and> messages s (history b) = messages s (history w) \<and>
    (\<exists>ls. run_of (excl_step E) (False, w) ls (False, b))"
proof -
  have w: "sys_inv w" and idle: "idle w"
    using excl_reachable_system [OF assms(1)] excl_sequential [OF assms(1)] by (simp_all add: reachable_inv)
  then have held: "held w = {}" and q: "q < length (evqs w)"
    using assms(2) by (auto simp: sys_inv_def sub_queue_def)
  let ?a = "begun [t] (w\<lparr>evqs := (evqs w)[q := []]\<rparr>)"
  have "take_section (EventEmitter s q i) w = (Inr (Events (evqs w ! q)), w\<lparr>evqs := (evqs w)[q := []]\<rparr>)"
    using beat_takes [of w q E "EventEmitter s q i" s i] held q by (simp add: cancelling_Inr)
  with client_take [OF assms(2), of "Events (evqs w ! q)" _ "[ArgSec, ArgNum]" E]
  have first: "client_step E True w (Drains q (evqs w ! q)) ?a" by (simp add: t)
  have a: "sys_inv ?a" using step_keeps_inv [OF client_step_system [OF first] w] .
  have idle_a: "idle ?a" using idle by (simp add: idle_def callbacks_def t)
  from monitor_block.block_runs [OF a idle_a assms(7) validates_notifies block] obtain ls where
      ls: "run_of (monitor_step E) ?a ls b" and tasks: "tasks b = t # tasks w" by auto
  have idle_b: "idle b" using idle by (simp add: idle_def callbacks_def tasks t)
  have "listeners (history ?a) j = Some d" using assms(3) by simp
  note block_delivers [OF a this assms(4-6) block]
  moreover have "sys_inv b" using monitor_run_system [OF ls] a by (rule run_keeps_inv)
  moreover have "run_of (excl_step E) (True, ?a) (ls @ [Silent]) (False, b)"
    using monitor_run [OF ls] run_of_one [of "excl_step E", OF excl_unlock [OF idle_b]] by (rule run_of_append)
  then have "\<exists>ls. run_of (excl_step E) (False, w) ls (False, b)"
    using excl_client [of E False, simplified, OF first] excl_lock [of E ?a] by (blast intro: run_of_more)
  ultimately show ?thesis using q tasks by simp
qed

section \<open>Properties\<close>

text \<open>C33: a heartbeat message can announce a block as the latest validated one and not carry an event of
that block. The heartbeat of the code is, as a program, its first part, which empties the queue, and the rest;
in between it has no mutex, and it has emptied the queue already while it waits for a block that is processed.
From every state that the enclave can reach while no block is processed, with a subscription's emitter and
listener in place, let the first part run, then \<^verbatim>\<open>AppendBlock\<close> as a whole for a block with an event of the
publisher, then the rest: the message has the number of the new block and the events from before it, and the new
event waits in the queue for the next heartbeat. It is a run of the system under the mutex of the monitor, so no
mutex excludes this. The libraries are assumed to succeed.\<close>

theorem heartbeat_may_lag:
  fixes hdr :: header
  assumes "excl_reachable E (False, w)" "EmitterAdded (EventEmitter s q i) \<in> set (history w)"
    and "listeners (history w) j = Some d" "ed_callback d = CbNotify q logger" "log_matches d log"
    and "abi_bytes E (log_data log) = Inr (msg, rest)" "abi_word_sized E"
    and "\<And>sec. \<exists>b. rlp_write_sec E sec = Inr b" "\<And>v. \<exists>b. rlp_write E v = Inr b" "\<And>h m. send_at E h s m = Inr ()"
  shows "run_emitter E (EventEmitter s q i) =
      bnd (cancelling E (EventEmitter s q i) (take_section (EventEmitter s q i)))
        (\<lambda>load. thread E (BRead (EventEmitter s q i) (unread load) [ArgSec, ArgNum])) \<and>
    (\<exists>v. run_emitter E (EventEmitter s q i) (w\<lparr>held := {MonitorMutex}\<rparr>) =
       (Inl (Undef (LockedTwice MonitorMutex {MonitorMutex})), v) \<and> event_queue_contents v q = []) \<and>
    (\<exists>load t a r b u sec m ls.
      cancelling E (EventEmitter s q i) (take_section (EventEmitter s q i)) w = (Inr load, a) \<and> held a = {} \<and>
      t = BRead (EventEmitter s q i) (unread load) [ArgSec, ArgNum] \<and>
      append_block (validates hdr) (notifies E j log) E rlp (begun [t] a) = (r, b) \<and>
      thread E t b = (Inr (), u) \<and>
      run_of (excl_step E) (False, w) ls (False, u\<lparr>tasks := tasks w\<rparr>) \<and>
      messages s (history u) = messages s (history w) @ [m] \<and>
      rlp_write E (emitted_dict sec (raw_number hdr) (event_queue_contents w q)) = Inr m \<and>
      event_queue_contents u q = [[raw_number hdr, msg]])"
proof -
  have w: "sys_inv w" and idle: "idle w"
    using excl_reachable_system [OF assms(1)] excl_sequential [OF assms(1)] by (simp_all add: reachable_inv)
  then have held: "held w = {}" and q: "q < length (evqs w)"
    using assms(2) by (auto simp: sys_inv_def sub_queue_def)
  let ?e = "EventEmitter s q i" and ?a = "w\<lparr>evqs := (evqs w)[q := []]\<rparr>"
  let ?t = "BRead ?e (unread (Events (evqs w ! q))) [ArgSec, ArgNum]"
  have take: "cancelling E ?e (take_section ?e) w = (Inr (Events (evqs w ! q)), ?a)"
    using held q by (intro beat_takes) simp_all
  obtain r b where block: "append_block (validates hdr) (notifies E j log) E rlp (begun [?t] ?a) = (r, b)" by fastforce
  from block_after_take [OF assms(1-7) refl block] obtain ls where
      b: "sys_inv b" "tasks b = ?t # tasks w" "evqs b ! q = [[raw_number hdr, msg]]" "q < length (evqs b)"
        "last_validated_blk_num b = raw_number hdr" "messages s (history b) = messages s (history w)"
      and ls: "run_of (excl_step E) (False, w) ls (False, b)" by blast
  have b_held: "held b = {}" using b(1) by (simp add: sys_inv_def)
  obtain sec where sec: "rlp_write_sec E (sec_state_at E (history b)) = Inr sec" using assms(8) by blast
  obtain m where m: "rlp_write E (emitted_dict sec (raw_number hdr) (evqs w ! q)) = Inr m" using assms(9) by blast
  let ?u = "b\<lparr>history := Sent s m # history b\<rparr>"
  have finish: "thread E ?t b = (Inr (), ?u)"
    using b_held sec m b(5) assms(10) by (intro beat_finishes) (simp_all add: build_emitted_msg_def)
  have same: "b\<lparr>held := task_locks ?t\<rparr> = b" "unlocked (?u\<lparr>tasks := tasks w\<rparr>) = ?u\<lparr>tasks := tasks w\<rparr>"
    using b_held by (simp_all add: unlocked_def)
  from client_thread.thread_runs [OF b(1) _ b(2), unfolded same(1), OF _ finish] obtain ls' where
      "run_of (client_step E True) b ls' (?u\<lparr>tasks := tasks w\<rparr>)" unfolding same(2) by auto
  from run_of_append [OF ls client_run [OF this]]
  have "\<exists>ls. run_of (excl_step E) (False, w) ls (False, ?u\<lparr>tasks := tasks w\<rparr>)" by blast
  moreover have "messages s (history ?u) = messages s (history w) @ [m]" using b(6) by simp
  moreover have "event_queue_contents ?u q = [[raw_number hdr, msg]]"
    using b(3,4) by (simp add: event_queue_contents_def)
  moreover have "rlp_write E (emitted_dict sec (raw_number hdr) (event_queue_contents w q)) = Inr m"
    using m q by (simp add: event_queue_contents_def)
  moreover have "held ?a = {}" using held by simp
  moreover have "event_queue_contents (w\<lparr>held := {MonitorMutex}, evqs := (evqs w)[q := []]\<rparr>) q = []"
    using q by (simp add: event_queue_contents_def)
  ultimately show ?thesis
    using beat_in_two beat_waits_empty [OF held q] take block finish by blast
qed

text \<open>A subscription to the registered publisher, and its event in block 8.\<close>

theorem heartbeat_may_lag_witness:
  "\<exists>ls u m. run_of (excl_step example_env) (False, example_subscribed) ls (False, u) \<and>
    messages 3 (history u) = messages 3 (history example_subscribed) @ [m] \<and>
    event_queue_contents u 1 = [[[8], [1, 2, 3]]]"
proof -
  let ?d = "build_notify_event_descr example_env (replicate 20 2) (notify_ev_topic (svc example_registered)) 1"
  have "log_matches ?d example_notify_log"
    by (simp add: log_matches_def build_notify_event_descr_def example_notify_log_def reg_store_def)
  moreover have "ed_callback ?d = CbNotify 1 ''Event Manager @hex''"
    by (simp add: build_notify_event_descr_def)
  moreover have "abi_bytes example_env (log_data example_notify_log) = Inr ([1, 2, 3], [])"
    by (simp add: example_notify_log_def)
  moreover have "\<And>sec. \<exists>b. rlp_write_sec example_env sec = Inr b" "\<And>v. \<exists>b. rlp_write example_env v = Inr b"
    "\<And>h m. send_at example_env h 3 m = Inr ()" by simp_all
  ultimately have "\<exists>load t a r b u sec m ls.
      cancelling example_env (EventEmitter 3 1 3) (take_section (EventEmitter 3 1 3)) example_subscribed = (Inr load, a) \<and>
      held a = {} \<and> t = BRead (EventEmitter 3 1 3) (unread load) [ArgSec, ArgNum] \<and>
      append_block (validates \<lparr>raw_number = [8], number = 8\<rparr>) (notifies example_env 3 example_notify_log)
        example_env [] (begun [t] a) = (r, b) \<and>
      thread example_env t b = (Inr (), u) \<and>
      run_of (excl_step example_env) (False, example_subscribed) ls (False, u\<lparr>tasks := tasks example_subscribed\<rparr>) \<and>
      messages 3 (history u) = messages 3 (history example_subscribed) @ [m] \<and>
      rlp_write example_env (emitted_dict sec (raw_number \<lparr>raw_number = [8], number = 8\<rparr>)
        (event_queue_contents example_subscribed 1)) = Inr m \<and>
      event_queue_contents u 1 = [[raw_number \<lparr>raw_number = [8], number = 8\<rparr>, [1, 2, 3]]]"
    by (rule_tac heartbeat_may_lag [OF example_subscribed_reachable example_subscribed_history _ _ _
        example_abi_word_sized, THEN conjunct2, THEN conjunct2])
  then obtain u m ls where "run_of (excl_step example_env) (False, example_subscribed) ls
        (False, u\<lparr>tasks := tasks example_subscribed\<rparr>)"
      "messages 3 (history u) = messages 3 (history example_subscribed) @ [m]"
      "event_queue_contents u 1 = [[[8], [1, 2, 3]]]" by auto
  then show ?thesis
    by (intro exI [of _ ls] exI [of _ "u\<lparr>tasks := tasks example_subscribed\<rparr>"] exI [of _ m])
      (simp add: event_queue_contents_def split: if_splits)
qed

end
