(* ===== verification/Delivery.thy ===== *)
theory Delivery
  imports ConcreteRun
begin

text \<open>
  What subscribers receive. Along a run of the system, \<open>past_gain\<close> is what the calls of the service's
  own listeners add to the past events of a manager, \<open>queue_gain\<close> what the calls of a subscription's
  listener add to its queue, and \<open>drained\<close> what the heartbeats take from it. The lemmas account for
  every element of the past events and of the queues by these; the properties follow from the account.
\<close>

section \<open>The account\<close>

definition notified :: "env \<Rightarrow> header \<Rightarrow> log_entry \<Rightarrow> event_data_queue" where
  "notified E hdr log =
     (case abi_bytes E (log_data log) of
        Inl e \<Rightarrow> []
      | Inr (msg, rest) \<Rightarrow> [[raw_number hdr, msg]])"

fun past_gain :: "env \<Rightarrow> bytes \<Rightarrow> label \<Rightarrow> event_data_queue" where
  "past_gain E a (Delivers CbNotifyPast hdr log) =
     (if contract_addr log = a then notified E hdr log else [])"
| "past_gain E a _ = []"

fun queue_gain :: "env \<Rightarrow> qref \<Rightarrow> label \<Rightarrow> event_data_queue" where
  "queue_gain E q (Delivers (CbNotify p logger) hdr log) = (if p = q then notified E hdr log else [])"
| "queue_gain E q _ = []"

fun drained :: "qref \<Rightarrow> label \<Rightarrow> event_data_queue" where
  "drained q (Drains p evs) = (if p = q then evs else [])"
| "drained q _ = []"

definition accounted :: "env \<Rightarrow> label \<Rightarrow> system \<Rightarrow> system \<Rightarrow> bool" where
  "accounted E l w u \<longleftrightarrow>
     (\<forall>a. past_events u a = past_events w a @ past_gain E a l) \<and>
     (\<forall>q. sub_queue w q \<longrightarrow> drained q l @ evqs u ! q = evqs w ! q @ queue_gain E q l) \<and>
     (\<forall>q. length (evqs w) \<le> q \<longrightarrow> q < length (evqs u) \<longrightarrow> evqs u ! q = [])"

lemma accounted_same:
  assumes "past_event_store (svc u) = past_event_store (svc w)" "evqs u = evqs w"
    and "\<And>a. past_gain E a l = []" "\<And>q. queue_gain E q l = []" "\<And>q. drained q l = []"
  shows "accounted E l w u"
  using assms by (simp add: accounted_def past_events_def split: option.split)

lemma accounted_new_queue:
  assumes "past_refs_valid w" "svc u = svc w" "evqs u = evqs w @ [[]]"
    and "\<And>a. past_gain E a l = []" "\<And>q. queue_gain E q l = []" "\<And>q. drained q l = []"
  shows "accounted E l w u"
  using assms
  by (auto simp: accounted_def past_events_def past_refs_valid_def sub_queue_def nth_append split: option.split)

lemma accounted_stored:
  assumes "past_refs_valid w" "evqs u = evqs w @ [[]]"
    and "svc u = (svc w)\<lparr>past_event_store := emplace ev (length (evqs w)) (past_event_store (svc w))\<rparr>"
  shows "accounted E (Opens ev) w u"
  using assms
  by (auto simp: accounted_def past_events_def past_refs_valid_def sub_queue_def nth_append
      emplace_apply split: option.split)

lemma accounted_past:
  assumes "past_refs_valid w" "past_refs_distinct w" "past_event_store (svc w) (contract_addr log) = Some p"
    and "svc u = svc w" "evqs u = (evqs w)[p := evqs w ! p @ notified E hdr log]"
  shows "accounted E (Delivers CbNotifyPast hdr log) w u"
proof -
  have "p < length (evqs w)" using assms(1,3) by (rule past_refs_validD)
  with assms show ?thesis
    by (auto simp: accounted_def past_events_def past_refs_distinct_def sub_queue_def nth_list_update
        split: option.split)
qed

lemma accounted_push:
  assumes "sub_queue w p" "svc u = svc w" "evqs u = (evqs w)[p := evqs w ! p @ notified E hdr log]"
  shows "accounted E (Delivers (CbNotify p logger) hdr log) w u"
  using assms
  by (auto simp: accounted_def past_events_def sub_queue_def nth_list_update split: option.split)

lemma accounted_drain:
  assumes "sub_queue w p" "svc u = svc w" "evqs u = (evqs w)[p := []]"
  shows "accounted E (Drains p (evqs w ! p)) w u"
  using assms
  by (auto simp: accounted_def past_events_def sub_queue_def nth_list_update split: option.split)

lemma notify_past_effect:
  fixes w u :: system
  assumes "held w \<subseteq> {MonitorMutex}" "past_refs_valid w" "past_event_store (svc w) (contract_addr log) = Some p"
    and "notify_past_event_handler E hdr log w = (r, u)"
  shows "evqs u = (evqs w)[p := evqs w ! p @ notified E hdr log]"
proof (cases "abi_bytes E (log_data log)")
  case (Inl e)
  with assms(4) have "u = w" by (simp add: notify_past_event_handler_malformed)
  with Inl show ?thesis by (simp add: notified_def)
next
  case (Inr x)
  obtain msg rest where "x = (msg, rest)" by fastforce
  with Inr have abi: "abi_bytes E (log_data log) = Inr (msg, rest)" by simp
  have "p < length (evqs w)" using assms(2,3) by (rule past_refs_validD)
  with assms abi show ?thesis by (auto simp: notify_past_event_handler_run notified_def)
qed

lemma notify_effect:
  fixes w u :: system
  assumes "held w \<subseteq> {MonitorMutex}" "p < length (evqs w)" "notify_event_handler E p logger hdr log w = (r, u)"
  shows "evqs u = (evqs w)[p := evqs w ! p @ notified E hdr log]"
proof (cases "abi_bytes E (log_data log)")
  case (Inl e)
  with assms(3) have "u = w" by (simp add: notify_event_handler_def prog_run)
  with Inl show ?thesis by (simp add: notified_def)
next
  case (Inr x)
  obtain msg rest where "x = (msg, rest)" by fastforce
  with Inr have "abi_bytes E (log_data log) = Inr (msg, rest)" by simp
  with assms show ?thesis by (auto simp: notify_event_handler_run notified_def)
qed

lemma past_events_moved [simp]:
  "past_events (unlocked u) = past_events u" "past_events (begun ts u) = past_events u"
  "past_events (followed t r u) = past_events u" "past_events (in_monitor u) = past_events u"
  "past_events (u\<lparr>tasks := ts\<rparr>) = past_events u" for u :: system
  by (simp_all add: past_events_def fun_eq_iff split: option.split)

lemma accounted_moved [simp]:
  "accounted E l w (unlocked u) = accounted E l w u" "accounted E l w (begun ts u) = accounted E l w u"
  "accounted E l w (followed t r u) = accounted E l w u"
  by (simp_all add: accounted_def)

lemma sys_ext_moved [simp]:
  "sys_ext w (unlocked u) = sys_ext w u" "sys_ext w (begun ts u) = sys_ext w u"
  "sys_ext w (followed t r u) = sys_ext w u"
  by (simp_all add: sys_ext_def)

lemma account_same:
  assumes "svc u = svc w" "evqs u = evqs w" "length (recqs w) \<le> length (recqs u)"
    and "\<And>a. past_gain E a l = []" "\<And>q. queue_gain E q l = []" "\<And>q. drained q l = []"
  shows "sys_ext w u \<and> accounted E l w u"
  using assms by (simp add: accounted_same sys_ext_same_svc)

lemma account_invoke:
  assumes "sys_inv w" "listeners (history w) i = Some d" "log_matches d log" "ed_callback d \<noteq> CbReg"
    and "invoke E i (ed_callback d) hdr log (in_monitor w) = (r, u)"
  shows "sys_ext w u \<and> accounted E (Delivers (ed_callback d) hdr log) w u"
proof -
  have cb: "cb_inv w d (ed_callback d)" and valid: "past_refs_valid w" "past_refs_distinct w"
    using assms(1,2) by (auto simp: sys_inv_def store_inv_def)
  show ?thesis
  proof (cases "ed_callback d")
    case CbDeploy
    with assms(5) have "deploy_event_handler E hdr i (in_monitor w) = (r, u)" by simp
    note out = deploy_outcome [OF this]
    then have "sys_ext w u" by (simp add: sys_ext_def)
    moreover have "accounted E (Delivers CbDeploy hdr log) w u"
      using out by (intro accounted_same) simp_all
    ultimately show ?thesis by (simp add: CbDeploy)
  next
    case CbReg
    with assms(4) show ?thesis by simp
  next
    case CbNotifyPast
    with assms(5) have run: "notify_past_event_handler E hdr log (in_monitor w) = (r, u)" by simp
    from cb CbNotifyPast assms(3) obtain p where p: "past_event_store (svc w) (contract_addr log) = Some p"
      by (auto simp: log_matches_def)
    note out = notify_past_outcome [OF _ _ run]
    have "accounted E (Delivers CbNotifyPast hdr log) w u"
      by (rule accounted_past [OF valid p])
        (use notify_past_effect [OF _ _ _ run, of p] out(2) valid p in simp_all)
    with out valid CbNotifyPast show ?thesis by (simp add: sys_ext_same_svc)
  next
    case (CbNotify p logger)
    with assms(5) have run: "notify_event_handler E p logger hdr log (in_monitor w) = (r, u)" by simp
    from cb CbNotify have p: "sub_queue w p" by simp
    then have len: "p < length (evqs w)" by (simp add: sub_queue_def)
    note out = notify_outcome [OF _ _ run]
    have "accounted E (Delivers (CbNotify p logger) hdr log) w u"
      by (intro accounted_push [OF p]) (use notify_effect [OF _ _ run] out(2) len in simp_all)
    with out len CbNotify show ?thesis by (simp add: sys_ext_same_svc)
  next
    case (CbReceipt p logger)
    with assms(5) have run: "subscribed_receipt_handler p logger hdr log (in_monitor w) = (r, u)" by simp
    from cb CbReceipt have "p < length (recqs w)" by simp
    with receipt_outcome [OF _ _ run] CbReceipt show ?thesis by (intro account_same) simp_all
  qed
qed

lemma quiet_account:
  assumes "guar quiet m" "m w = (r, u)"
  shows "sys_ext w u \<and> accounted E Silent w u"
  using guarD [OF assms] by (intro account_same) (simp_all add: quiet_def)

lemma quiet_account_snd: "guar quiet m \<Longrightarrow> sys_ext w (snd (m w)) \<and> accounted E Silent w (snd (m w))"
  by (metis quiet_account prod.collapse)

lemma account_take:
  assumes "em_inv w e" "held w = {}" "take_section e w = (Inr load, u)"
  shows "sys_ext w u \<and> accounted E (take_label e load) w u"
proof (cases e)
  case (EventEmitter s q i)
  with assms have "sub_queue w q" "load = Events (evqs w ! q)" "u = w\<lparr>evqs := (evqs w)[q := []]\<rparr>"
    by (auto simp: prog_run sub_queue_def)
  then show ?thesis using EventEmitter by (simp add: accounted_drain sys_ext_same_svc)
next
  case (ReceiptEmitter s q i)
  with assms show ?thesis by (auto simp: prog_run sys_ext_same_svc intro!: accounted_same)
qed

lemma account_task:
  assumes "sys_inv w" "t \<in> set (tasks w)" "task_prog E t (w\<lparr>held := task_locks t\<rparr>) = (r, u)"
  shows "sys_ext w u \<and> accounted E (task_label t) w u"
proof -
  have idle: "w\<lparr>held := {}\<rparr> = w" and valid: "past_refs_valid w"
    using assms(1) by (simp_all add: sys_inv_def store_inv_def)
  show ?thesis
  proof (cases t)
    case (RListen s a order)
    with assms(3) idle have "svc u = svc w" "evqs u = evqs w @ [[]]" "recqs u = recqs w"
      by (auto simp: prog_run Let_def split: sum.splits)
    with valid RListen show ?thesis by (simp add: accounted_new_queue sys_ext_same_svc)
  next
    case (RAttach e)
    with assms(3) idle have "svc u = svc w" "evqs u = evqs w" "recqs u = recqs w"
      by (auto simp: attach_section_def add_emitter_def prog_run split: sum.splits)
    with RAttach show ?thesis by (intro account_same) simp_all
  next
    case (GStore hdr p a)
    with assms(3) have "u = (in_monitor w)\<lparr>evqs := evqs w @ [[]],
        svc := (svc w)\<lparr>past_event_store := emplace a (length (evqs w)) (past_event_store (svc w))\<rparr>\<rparr>"
      by (auto simp: in_monitor_alt reg_store_run bnd_run)
    with valid GStore show ?thesis
      by (auto simp: accounted_stored sys_ext_def emplace_extends emplace_apply split: if_splits)
  next
    case (GListen hdr p a)
    then obtain q where "reg_listen_section E hdr p a (in_monitor w) = (q, u)"
      using assms(3) by (auto simp: in_monitor_alt bnd_run split: prod.splits sum.splits)
    from reg_listen_outcome [OF this] GListen show ?thesis by (intro account_same) simp_all
  qed (use assms(3) idle quiet_account [OF guar_quiet_task, of t E w r u] in simp_all)
qed

lemma step_account:
  assumes "sys_step E w l u" "sys_inv w"
  shows "sys_ext w u \<and> accounted E l w u"
  using assms(1)
proof cases
  case (step_notify i d log hdr)
  then show ?thesis
    using account_invoke [OF assms(2) step_notify(3-5) surjective_pairing] by simp
next
  case (step_reg i d log p a v hdr)
  then have "v = (in_monitor w)\<lparr>svc := (svc w)\<lparr>ev_mgr_addr_map := (ev_mgr_addr_map (svc w))(p \<mapsto> a)\<rparr>\<rparr>"
    by (simp add: reg_map_run)
  with step_reg show ?thesis by (auto simp: sys_ext_def intro!: accounted_same)
next
  case (step_take e load v order)
  then have "em_inv w e" "held w = {}" using assms(2) by (auto simp: sys_inv_def)
  from account_take [OF this step_take(4)] step_take show ?thesis by simp
next
  case (step_lookup msg p a v order s)
  with quiet_account [OF quiet_sections(1) step_lookup(3)] show ?thesis by simp
next
  case (step_receipt_listen msg addr topics r v s)
  then have "svc v = svc w" "evqs v = evqs w" "length (recqs w) \<le> length (recqs v)"
    by (auto simp: receipt_listen_section_def prog_run listen_def split: sum.splits)
  with step_receipt_listen show ?thesis by (simp add: accounted_same sys_ext_same_svc)
next
  case (step_task t r v)
  with account_task [OF assms(2) step_task(3,4)] show ?thesis by simp
qed (simp_all add: quiet_account_snd quiet_block accounted_same sys_ext_same_svc)

text \<open>The step of a thread that holds no mutex of its own.\<close>

lemma step_part:
  assumes "sys_inv w" "t \<in> set (tasks w)" "task_locks t = {}" "task_prog E t w = (r, u)"
  shows "sys_step E w (task_label t) (followed t r u)"
proof -
  have held: "held w = {}" using assms(1) by (simp add: sys_inv_def)
  then have "unlocked u = u" using balancedD [OF balanced_task assms(4)] by (simp add: unlocked_def)
  moreover have "task_prog E t (w\<lparr>held := task_locks t\<rparr>) = (r, u)"
    using assms(3,4) held by (metis rt.surjective rt.update_convs(1))
  ultimately show ?thesis using step_task [OF assms(2)] by metis
qed

lemma run_account:
  assumes "sys_run E w ls u" "sys_inv w"
  shows "past_events u a = past_events w a @ concat (map (past_gain E a) ls) \<and>
    (sub_queue w q \<longrightarrow> sub_queue u q \<and>
      concat (map (drained q) ls) @ evqs u ! q = evqs w ! q @ concat (map (queue_gain E q) ls))"
  using assms
proof (induction rule: sys_run.induct)
  case (run_cons w l v ls u)
  have v: "sys_inv v" using run_cons.hyps(1) run_cons.prems by (rule step_keeps_inv)
  have acc: "sys_ext w v" "accounted E l w v"
    using step_account [OF run_cons.hyps(1) run_cons.prems] by blast+
  note rest = run_cons.IH [OF v]
  have "past_events u a = past_events w a @ concat (map (past_gain E a) (l # ls))"
    using rest acc(2) by (simp add: accounted_def)
  moreover have "sub_queue u q \<and> concat (map (drained q) (l # ls)) @ evqs u ! q
      = evqs w ! q @ concat (map (queue_gain E q) (l # ls))" if "sub_queue w q"
  proof -
    have "sub_queue v q" "drained q l @ evqs v ! q = evqs w ! q @ queue_gain E q l"
      using that acc sys_ext_sub_queue by (auto simp: accounted_def)
    moreover from this rest have "sub_queue u q" "concat (map (drained q) ls) @ evqs u ! q
        = evqs v ! q @ concat (map (queue_gain E q) ls)" by blast+
    ultimately show ?thesis by simp
  qed
  ultimately show ?case by blast
qed simp

lemma run_deployed:
  assumes "sys_run E w ls u" "sys_inv w" "is_deployed (svc w)"
  shows "is_deployed (svc u)"
  using assms
proof (induction rule: sys_run.induct)
  case (run_cons w l v ls u)
  have "sys_inv v" using run_cons.hyps(1) run_cons.prems(1) by (rule step_keeps_inv)
  moreover have "is_deployed (svc v)"
    using step_account [OF run_cons.hyps(1) run_cons.prems(1)] run_cons.prems(2)
    by (simp add: sys_ext_def)
  ultimately show ?case using run_cons.IH by blast
qed simp

lemma inv_past_events:
  assumes "sys_inv w"
  shows "get_past_events a w = (Inr (past_events w a), w)"
  using assms by (intro get_past_events_run) (simp_all add: sys_inv_def store_inv_def)

section \<open>A subscription in the concrete run\<close>

definition example_asking :: system where
  "example_asking = example_registered\<lparr>tasks := [RListen 3 (replicate 20 2) [ArgNum, ArgPast, ArgSec]]\<rparr>"

lemma example_lookup: "sys_step example_env example_registered Silent example_asking"
proof -
  have lookup: "subreq_lookup example_env (replicate 20 1) example_registered
      = (Inr (replicate 20 1, replicate 20 2), example_registered)"
    by (simp add: subreq_lookup_run example_publisher_of event_mgr_of_def reg_store_def)
  show ?thesis
    using step_lookup [OF lookup, of "[ArgNum, ArgPast, ArgSec]" 3]
    by (auto simp: zero_addr_def begun_def example_asking_def reply_order_def)
qed

lemma example_asking_reachable: "reachable example_env example_asking"
  using example_reachable(3) example_lookup by (rule reachable_step)

definition example_listening :: system where
  "example_listening =
     (snd (subreq_listen example_env (replicate 20 2) example_asking))\<lparr>
       tasks := [RRead 3 (replicate 20 2) 1 3 (unread (Events [])) [ArgNum, ArgPast, ArgSec]]\<rparr>"

lemma example_asking_simps [simp]:
  "held example_asking = held example_registered" "evqs example_asking = evqs example_registered"
  "svc example_asking = svc example_registered" "history example_asking = history example_registered"
  "tasks example_asking = [RListen 3 (replicate 20 2) [ArgNum, ArgPast, ArgSec]]"
  by (simp_all add: example_asking_def)

lemma example_listen_run:
  "subreq_listen example_env (replicate 20 2) example_asking
     = (Inr (1, 3), snd (subreq_listen example_env (replicate 20 2) example_asking))"
  by (simp add: subreq_listen_run Let_def subscribing_log_def)

lemma example_listening_simps [simp]:
  "held example_listening = {}" "evqs example_listening = [[], []]"
  "svc example_listening = svc example_registered"
  "listeners (history example_listening) = (listeners (history example_registered))
     (3 \<mapsto> build_notify_event_descr example_env (replicate 20 2) (notify_ev_topic (svc example_registered)) 1)"
  by (simp_all add: example_listening_def subreq_listen_run Let_def subscribing_log_def)

definition example_past_seen :: system where
  "example_past_seen = unlocked (snd (invoke example_env 2 CbNotifyPast example_header example_notify_log
     (in_monitor example_listening)))"

definition example_both_seen :: system where
  "example_both_seen = unlocked (snd (invoke example_env 3 (CbNotify 1 ''Event Manager @hex'') example_header
     example_notify_log (in_monitor example_past_seen)))"

lemma example_past_seen_simps [simp]:
  "listeners (history example_past_seen) = listeners (history example_listening)"
proof -
  have "past_event_store (svc (in_monitor example_listening)) (contract_addr example_notify_log) = Some 0"
    by (simp add: reg_store_def emplace_apply pubsub_service_store_def example_notify_log_def)
  from notify_past_event_handler_run [OF _ _ this, of example_env "[1, 2, 3]" "[]" example_header]
  show ?thesis
    by (simp add: example_past_seen_def) (simp add: example_notify_log_def)
qed

lemma example_delivered:
  "sys_step example_env example_listening (Delivers CbNotifyPast example_header example_notify_log) example_past_seen"
  "sys_step example_env example_past_seen
     (Delivers (CbNotify 1 ''Event Manager @hex'') example_header example_notify_log) example_both_seen"
proof -
  let ?past = "build_notify_past_event_descr (replicate 20 2) (svc example_started)"
  let ?sub = "build_notify_event_descr example_env (replicate 20 2) (notify_ev_topic (svc example_registered)) 1"
  have "sys_step example_env example_listening (Delivers (ed_callback ?past) example_header example_notify_log)
      (unlocked (snd (invoke example_env 2 (ed_callback ?past) example_header example_notify_log
        (in_monitor example_listening))))"
    by (rule step_notify) (simp_all add: log_matches_def example_notify_log_def build_notify_past_event_descr_def)
  then show "sys_step example_env example_listening
      (Delivers CbNotifyPast example_header example_notify_log) example_past_seen"
    by (simp add: build_notify_past_event_descr_def example_past_seen_def)
  have "sys_step example_env example_past_seen (Delivers (ed_callback ?sub) example_header example_notify_log)
      (unlocked (snd (invoke example_env 3 (ed_callback ?sub) example_header example_notify_log
        (in_monitor example_past_seen))))"
    by (rule step_notify) (simp_all add: log_matches_def example_notify_log_def build_notify_event_descr_def
        reg_store_def)
  then show "sys_step example_env example_past_seen
      (Delivers (CbNotify 1 ''Event Manager @hex'') example_header example_notify_log) example_both_seen"
    by (simp add: build_notify_event_descr_def example_both_seen_def)
qed

lemma example_delivery:
  "sys_run example_env example_listening
     [Delivers CbNotifyPast example_header example_notify_log,
      Delivers (CbNotify 1 ''Event Manager @hex'') example_header example_notify_log] example_both_seen"
  using example_delivered by (blast intro: sys_run.intros)

lemma example_listening_alt:
  "followed (RListen 3 (replicate 20 2) [ArgNum, ArgPast, ArgSec]) (Inr [RRead 3 (replicate 20 2) 1 3 (unread (Events [])) [ArgNum, ArgPast, ArgSec]])
     (snd (subreq_listen example_env (replicate 20 2) example_asking)) = example_listening"
  by (simp add: example_listening_def followed_def subreq_listen_run Let_def subscribing_log_def)

lemma example_asked: "sys_step example_env example_asking Silent example_listening"
proof -
  have "task_prog example_env (RListen 3 (replicate 20 2) [ArgNum, ArgPast, ArgSec]) example_asking
      = (Inr [RRead 3 (replicate 20 2) 1 3 (unread (Events [])) [ArgNum, ArgPast, ArgSec]], snd (subreq_listen example_env (replicate 20 2) example_asking))"
    using example_listen_run by simp
  from step_part [OF reachable_inv [OF example_asking_reachable] _ _ this] show ?thesis
    by (simp add: example_listening_alt del: One_nat_def)
qed

lemma example_listening_reachable: "reachable example_env example_listening"
  using example_asking_reachable example_asked by (rule reachable_step)

lemma example_listening_past: "get_past_events (replicate 20 2) example_listening = (Inr [], example_listening)"
proof -
  have "past_events example_listening (replicate 20 2) = []"
    by (simp add: past_events_def reg_store_def emplace_apply pubsub_service_store_def)
  then show ?thesis
    using inv_past_events [OF reachable_inv [OF example_listening_reachable]] by simp
qed

lemma example_both_past:
  "get_past_events (replicate 20 2) example_both_seen = (Inr [[[7], [1, 2, 3]]], example_both_seen)"
proof -
  have inv: "sys_inv example_listening" "sys_inv example_both_seen"
    using reachable_inv example_listening_reachable
      reachable_run [OF example_listening_reachable example_delivery] by blast+
  have "past_events example_listening (replicate 20 2) = []"
    using example_listening_past inv_past_events [OF inv(1)] by simp
  with run_account [OF example_delivery inv(1), of "replicate 20 2" 0]
  have "past_events example_both_seen (replicate 20 2) = [[[7], [1, 2, 3]]]"
    by (simp add: notified_def example_notify_log_def example_header_def)
  then show ?thesis using inv_past_events [OF inv(2)] by simp
qed

lemma example_both_tasks:
  "tasks example_past_seen = [RRead 3 (replicate 20 2) 1 3 (unread (Events [])) [ArgNum, ArgPast, ArgSec]]"
  "tasks example_both_seen = [RRead 3 (replicate 20 2) 1 3 (unread (Events [])) [ArgNum, ArgPast, ArgSec]]"
proof -
  have past: "past_event_store (svc (in_monitor example_listening)) (contract_addr example_notify_log) = Some 0"
    by (simp add: reg_store_def emplace_apply pubsub_service_store_def example_notify_log_def)
  have "tasks example_past_seen = tasks example_listening" "evqs example_past_seen = [[[[7], [1, 2, 3]]], []]"
    using notify_past_event_handler_run [OF _ _ past, of example_env "[1, 2, 3]" "[]" example_header]
    by (simp_all add: example_past_seen_def) (simp_all add: example_notify_log_def example_header_def)
  moreover from this have "tasks example_both_seen = tasks example_listening"
    using notify_event_handler_run [of example_env example_notify_log "[1, 2, 3]" "[]" "in_monitor example_past_seen" 1
        "''Event Manager @hex''" example_header]
    by (simp add: example_both_seen_def) (simp add: example_notify_log_def)
  ultimately show "tasks example_past_seen = [RRead 3 (replicate 20 2) 1 3 (unread (Events [])) [ArgNum, ArgPast, ArgSec]]"
    "tasks example_both_seen = [RRead 3 (replicate 20 2) 1 3 (unread (Events [])) [ArgNum, ArgPast, ArgSec]]"
    by (simp_all add: example_listening_def)
qed

lemma example_both_inv: "sys_inv example_both_seen"
  using reachable_run [OF example_listening_reachable example_delivery] by (rule reachable_inv)

lemma example_both_held [simp]: "held example_both_seen = {}"
  using example_both_inv by (simp add: sys_inv_def)

section \<open>Properties\<close>

text \<open>C3: the past events of a manager are exactly the decodable notify events its listener has been
called with, in that order: along any run of the system, what \<open>GetPastEvents\<close> returns only grows at its
end, by what was delivered, and never by the doing of a subscriber or of a heartbeat. A service that is
deployed stays deployed.\<close>

theorem past_events_append_only:
  assumes "reachable E w" "sys_run E w ls u" "get_past_events a w = (Inr old, w)"
  shows "get_past_events a u = (Inr (old @ concat (map (past_gain E a) ls)), u) \<and>
    (is_deployed (svc w) \<longrightarrow> is_deployed (svc u))"
proof -
  note w = reachable_inv [OF assms(1)]
    and u = reachable_inv [OF reachable_run [OF assms(1,2)]]
  have "old = past_events w a" using inv_past_events [OF w] assms(3) by simp
  then show ?thesis
    using run_account [OF assms(2) w] inv_past_events [OF u] run_deployed [OF assms(2) w]
    by simp
qed

theorem past_events_append_only_witness:
  "fst (get_past_events (replicate 20 2) example_both_seen) = Inr [[[7], [1, 2, 3]]]"
  using past_events_append_only [OF example_listening_reachable example_delivery example_listening_past]
  by (simp add: notified_def example_notify_log_def example_header_def)

text \<open>C35: a second registration event for a manager that is already registered adds a second listener
for it; an EventManager that calls every matching listener then records each of its events twice.\<close>

theorem reregistration_duplicates:
  fixes w :: "'z sub_world_scheme"
  assumes "abi_word E (log_data log) = Inr (pub_word, rest)" "abi_word E rest = Inr (mgr_word, rest')"
    and "abi_word_sized E" "listen_fresh E" "held w \<subseteq> {MonitorMutex}" "past_refs_valid w" "alive_at E (history w)"
    and "past_event_store (svc w) (drop 12 mgr_word) = Some q"
  defines "d \<equiv> build_notify_past_event_descr (drop 12 mgr_word) (svc w)"
  assumes "listeners (history w) i = Some d" "listen_at E (history w) d = Inr j"
    and "abi_bytes E (log_data ev_log) = Inr (msg, rest'')" "contract_addr ev_log = drop 12 mgr_word"
  shows "\<exists>u v. reg_event_handler E hdr log w = (Inr (), u) \<and>
    i \<noteq> j \<and> listeners (history u) i = Some d \<and> listeners (history u) j = Some d \<and>
    bnd (invoke E i (ed_callback d) ev_hdr ev_log) (\<lambda>_. invoke E j (ed_callback d) ev_hdr ev_log) u = (Inr (), v) \<and>
    past_events v (drop 12 mgr_word) =
      past_events w (drop 12 mgr_word) @ [[raw_number ev_hdr, msg], [raw_number ev_hdr, msg]]"
proof -
  let ?ev = "drop 12 mgr_word"
  let ?u = "registered_state E hdr (drop 12 pub_word) ?ev (Some j) w"
  have len: "length pub_word = 32" "length mgr_word = 32"
    using assms(1,2) abi_word_sizedD [OF assms(3)] by blast+
  have "listeners (history w) j = None"
    using assms(4,11) by (auto simp: listen_fresh_def)
  with assms(10) have ij: "i \<noteq> j" by auto
  have reg: "reg_event_handler E hdr log w = (Inr (), ?u)"
    using assms(1,2,5,7,11) len by (simp add: reg_event_handler_run d_def)
  have lis: "listeners (history ?u) = (listeners (history w))(j \<mapsto> d)"
    by (simp add: registered_state_def d_def)
  have q: "q < length (evqs w)" using assms(6,8) by (rule past_refs_validD)
  have store: "past_event_store (svc ?u) ?ev = Some q" using assms(8) by (simp add: emplace_apply)
  have cb: "ed_callback d = CbNotifyPast" by (simp add: d_def build_notify_past_event_descr_def)
  let ?x = "[raw_number ev_hdr, msg]"
  obtain v where first: "notify_past_event_handler E ev_hdr ev_log ?u = (Inr (), v)"
      "svc v = svc ?u" "held v = held ?u" "evqs v = (evqs ?u)[q := evqs ?u ! q @ [?x]]"
    using notify_past_event_handler_run [OF assms(12), of ?u q ev_hdr] assms(5,13) store q by auto
  obtain t where second: "notify_past_event_handler E ev_hdr ev_log v = (Inr (), t)"
      "svc t = svc v" "evqs t = (evqs v)[q := evqs v ! q @ [?x]]"
    using notify_past_event_handler_run [OF assms(12), of v q ev_hdr] assms(5,13) store q first by auto
  have "past_events t ?ev = past_events w ?ev @ [?x, ?x]"
    using first second store assms(8) q by (simp add: past_events_def nth_append)
  moreover have "bnd (invoke E i (ed_callback d) ev_hdr ev_log) (\<lambda>_. invoke E j (ed_callback d) ev_hdr ev_log) ?u
      = (Inr (), t)"
    using cb first(1) second(1) by simp
  ultimately show ?thesis using reg ij lis assms(10) by auto
qed

theorem reregistration_duplicates_witness:
  "\<exists>u v. reg_event_handler example_env example_header
      (example_log\<lparr>log_data := (replicate 12 0 @ replicate 20 9) @ (replicate 12 0 @ replicate 20 2)\<rparr>) example_world
        = (Inr (), u) \<and>
    bnd (invoke example_env 0 CbNotifyPast example_header example_notify_log)
      (\<lambda>_. invoke example_env 1 CbNotifyPast example_header example_notify_log) u = (Inr (), v) \<and>
    past_events v (replicate 20 2) = [[[4], [5, 6]], [[7], [1, 2, 3]], [[7], [1, 2, 3]]]"
proof -
  let ?log = "example_log\<lparr>log_data := (replicate 12 0 @ replicate 20 9) @ (replicate 12 0 @ replicate 20 2)\<rparr>"
  let ?word = "replicate 12 0 @ replicate 20 2 :: bytes"
  let ?d = "build_notify_past_event_descr (drop 12 ?word) (svc example_world)"
  have past: "past_events example_world (replicate 20 2) = [[[4], [5, 6]]]"
    by (simp add: past_events_def example_world_def example_store_def)
  have "\<exists>u v. reg_event_handler example_env example_header ?log example_world = (Inr (), u) \<and>
    0 \<noteq> (1 :: cb_id) \<and> listeners (history u) 0 = Some ?d \<and> listeners (history u) 1 = Some ?d \<and>
    bnd (invoke example_env 0 (ed_callback ?d) example_header example_notify_log)
      (\<lambda>_. invoke example_env 1 (ed_callback ?d) example_header example_notify_log) u = (Inr (), v) \<and>
    past_events v (drop 12 ?word) = past_events example_world (drop 12 ?word) @
      [[raw_number example_header, [1, 2, 3]], [raw_number example_header, [1, 2, 3]]]"
    by (rule reregistration_duplicates [OF _ _ example_abi_word_sized example_listen_fresh, where q = 0 and
        rest = ?word and rest' = "[]" and rest'' = "[]" and pub_word = "replicate 12 0 @ replicate 20 9"])
      (simp_all add: example_world_def example_store_def past_refs_valid_def example_notify_log_def)
  then show ?thesis
    using past by (simp add: build_notify_past_event_descr_def example_header_def) blast
qed

end
