(* ===== verification/SubscriberStream.thy ===== *)
theory SubscriberStream
  imports Delivery
begin

text \<open>
  What a subscriber is sent. The connection of a subscription is used by its request and then by its heartbeats,
  one after another (\<open>owned\<close>); its queue is used by nobody else (\<open>exclusive\<close>), as it is new when the
  request creates it. The account of \<open>Delivery\<close> says what heartbeats take from the queue; here it is followed into
  the messages: every message on the connection is the reply or carries what one heartbeat has taken.
\<close>

section \<open>Whose connection and whose queue\<close>

fun emitter_on :: "qref \<Rightarrow> emitter \<Rightarrow> bool" where
  "emitter_on q (EventEmitter s q' i) = (q' = q)"
| "emitter_on q (ReceiptEmitter s q' i) = False"

fun on_sock :: "sock \<Rightarrow> task \<Rightarrow> bool" where
  "on_sock s (RListen s' a order) = (s' = s)"
| "on_sock s (RRead s' a q i m order) = (s' = s)"
| "on_sock s (RAttach e) = (emitter_sock e = s)"
| "on_sock s (BRead e m order) = (emitter_sock e = s)"
| "on_sock s _ = False"

fun on_queue :: "qref \<Rightarrow> task \<Rightarrow> bool" where
  "on_queue q (RRead s a q' i m order) = (q' = q)"
| "on_queue q (RAttach e) = emitter_on q e"
| "on_queue q (BRead e m order) = emitter_on q e"
| "on_queue q _ = False"

text \<open>The tasks of the subscription itself, once it listens.\<close>

fun serves :: "sock \<Rightarrow> qref \<Rightarrow> cb_id \<Rightarrow> task \<Rightarrow> bool" where
  "serves s q i (RRead s' a q' i' m order) = (s' = s \<and> q' = q \<and> i' = i)"
| "serves s q i (RAttach e) = (e = EventEmitter s q i)"
| "serves s q i (BRead e m order) = (e = EventEmitter s q i)"
| "serves s q i _ = False"

definition owned :: "sock \<Rightarrow> qref \<Rightarrow> cb_id \<Rightarrow> system \<Rightarrow> bool" where
  "owned s q i w \<longleftrightarrow> (\<forall>t \<in> set (tasks w). on_sock s t \<longrightarrow> serves s q i t) \<and>
     length (filter (on_sock s) (tasks w)) \<le> 1"

definition exclusive :: "sock \<Rightarrow> qref \<Rightarrow> cb_id \<Rightarrow> system \<Rightarrow> bool" where
  "exclusive s q i w \<longleftrightarrow> (\<forall>e. EmitterAdded e \<in> set (history w) \<longrightarrow> emitter_on q e \<longrightarrow> e = EventEmitter s q i) \<and>
     (\<forall>t \<in> set (tasks w). on_queue q t \<longrightarrow> serves s q i t)"

text \<open>A step of the system, by whichever thread, with the connection still that of the subscription.\<close>

definition owned_step :: "env \<Rightarrow> sock \<Rightarrow> qref \<Rightarrow> cb_id \<Rightarrow> system \<Rightarrow> label \<Rightarrow> system \<Rightarrow> bool" where
  "owned_step E s q i w l u \<longleftrightarrow> sys_step E w l u \<and> owned s q i u"

lemma serves_on: "serves s q i t \<Longrightarrow> on_sock s t \<and> on_queue q t"
  by (cases t) auto

lemma emitter_on_sock: "e \<noteq> EventEmitter s q i \<or> emitter_on q e \<and> emitter_sock e = s"
  by (cases e) auto

section \<open>Steps that send nothing on the connection\<close>

definition mute :: "sock \<Rightarrow> qref \<Rightarrow> system \<Rightarrow> system \<Rightarrow> bool" where
  "mute s q w u \<longleftrightarrow> messages s (history u) = messages s (history w) \<and>
     (\<forall>e. emitter_on q e \<longrightarrow> EmitterAdded e \<in> set (history u) \<longrightarrow> EmitterAdded e \<in> set (history w))"

definition mute_call :: "sock \<Rightarrow> qref \<Rightarrow> ext_call \<Rightarrow> bool" where
  "mute_call s q c \<longleftrightarrow> (\<forall>m. c \<noteq> Sent s m) \<and> (\<forall>e. emitter_on q e \<longrightarrow> c \<noteq> EmitterAdded e)"

interpretation mute_frame: rt_frame "mute s q" "mute_call s q" for s q
proof
  show "mute s q w v" if "mute s q w u" "mute s q u v" for w u v
    using that unfolding mute_def by metis
  show "mute s q w (w\<lparr>history := c # history w\<rparr>)" if "mute_call s q c" for w c
    using that by (cases c) (auto simp: mute_def mute_call_def)
qed (auto simp: mute_def mute_call_def)

lemma mute_same: "history u = history w \<Longrightarrow> mute s q w u"
  by (simp add: mute_def)

named_theorems mute_rules
  \<open>methods that send nothing on the connection\<close>

lemma mute_updates [mute_rules]: "(\<And>w. history (f w) = history w) \<Longrightarrow> guar (mute s q) (updates f)"
  by (simp add: guar_def mute_same)

lemma mute_queues [mute_rules]:
  "guar (mute s q) new_event_queue" "guar (mute s q) (event_queue_push p d)" "guar (mute s q) (event_queue_drain p)"
  "guar (mute s q) new_receipt_queue" "guar (mute s q) (receipt_queue_push p r)"
  "guar (mute s q) (receipt_queue_drain p)" "guar (mute s q) (event_queue_at p)"
proof -
  have reads: "guar (mute s q) (event_queue_at p)" "guar (mute s q) (receipt_queue_at p)" for p
    by (simp_all add: guar_def event_queue_at_def receipt_queue_at_def mute_same)
  have sets: "guar (mute s q) (set_event_queue p xs)" "guar (mute s q) (set_receipt_queue p ys)" for p xs ys
    by (simp_all add: set_event_queue_def set_receipt_queue_def mute_updates)
  show "guar (mute s q) new_event_queue" "guar (mute s q) new_receipt_queue" "guar (mute s q) (event_queue_at p)"
    by (simp_all add: guar_def new_event_queue_def new_receipt_queue_def mute_same reads [unfolded guar_def])
  show "guar (mute s q) (event_queue_push p d)" "guar (mute s q) (event_queue_drain p)"
    "guar (mute s q) (receipt_queue_push p r)" "guar (mute s q) (receipt_queue_drain p)"
    unfolding event_queue_push_def event_queue_drain_def receipt_queue_push_def receipt_queue_drain_def
    by (intro mute_frame.guar_rt reads sets)+
qed

lemma mute_ext [mute_rules]:
  "guar (mute s q) (listen E d)" "guar (mute s q) (cancel E i)"
  "\<not> emitter_on q e \<Longrightarrow> guar (mute s q) (add_emitter E e)" "s' \<noteq> s \<Longrightarrow> guar (mute s q) (sized_send E s' m)"
  "guar (mute s q) (refresh_bootstrap_plan E n start)" "guar (mute s q) (own_step k)"
  "guar (mute s q) (get_receipts_rlp_by_num E b)" "guar (mute s q) (get_latest_block_num E)"
  unfolding ext_defs refresh_bootstrap_plan_def own_step_def
  by (auto intro!: mute_frame.guar_ext_result mute_frame.guar_updates mute_frame.frame_history mute_frame.guar_host
      simp: mute_call_def)

lemmas mute_parts = mute_frame.guar_rt mute_rules

lemma mute_methods:
  "c \<noteq> CbReg \<Longrightarrow> guar (mute s q) (invoke E i c hdr log)" "guar (mute s q) (reg_map_section p a)"
  "guar (mute s q) (reg_store_section a)" "guar (mute s q) (reg_listen_section E hdr p a)"
  "guar (mute s q) (receipts_getter E k)" "guar (mute s q) (on_header_confirmed E hdr)"
  "guar (mute s q) (subreq_lookup E msg)" "guar (mute s q) (subreq_listen E a)"
  "guar (mute s q) (receipt_listen_section E addr topics)" "guar (mute s q) (send_raw E txn)"
  "guar (mute s q) (take_section e)" "guar (mute s q) (read_section E a x m)"
  "\<not> emitter_on q e \<Longrightarrow> guar (mute s q) (attach_section E e)"
  "s' \<noteq> s \<Longrightarrow> guar (mute s q) (send_section E s' m)"
proof -
  show "c \<noteq> CbReg \<Longrightarrow> guar (mute s q) (invoke E i c hdr log)"
    by (cases c)
      (auto simp: deploy_event_handler_def notify_past_event_handler_def notify_event_handler_def
        subscribed_receipt_handler_def update_svc_def intro!: mute_parts split: prod.split option.split)
  show "guar (mute s q) (take_section e)" by (cases e) (auto intro!: mute_parts)
  show "guar (mute s q) (read_section E a x m)"
    by (cases x) (auto simp: sec_section_def get_monitor_sec_state_def get_last_validated_blk_num_def
        get_past_events_def intro!: mute_parts split: option.split)
qed (auto simp: reg_map_section_def reg_store_section_def reg_listen_section_def update_svc_def receipts_getter_def
    on_header_confirmed_def log_monitor_status_def subreq_lookup_def get_event_mgr_addr_def subreq_listen_def
    get_notify_event_topic_def receipt_listen_section_def send_raw_def send_raw_transaction_def attach_section_def
    send_section_def mute_call_def mute_same intro!: mute_parts mute_frame.guar_updates mute_frame.frame_history
    split: option.split prod.split phase.split)

lemma mute_cancelling: "guar (mute s q) m \<Longrightarrow> guar (mute s q) (cancelling E e m)"
  unfolding cancelling_def by (intro mute_parts)

lemma mute_task:
  assumes "\<not> on_sock s t" "\<And>e. t = RAttach e \<Longrightarrow> \<not> emitter_on q e"
  shows "guar (mute s q) (task_prog E t)"
  using assms
  by (cases "(E, t)" rule: task_prog.cases)
    (auto intro!: mute_frame.guar_bnd mute_frame.guar_pure mute_methods mute_cancelling)

lemma mute_run: "guar (mute s q) m \<Longrightarrow> mute s q w (snd (m w))"
  by (simp add: guar_def)

lemma mute_moved [simp]:
  "mute s q (in_monitor w) u = mute s q w u" "mute s q w (unlocked u) = mute s q w u"
  "mute s q w (begun ts u) = mute s q w u" "mute s q w (followed t r u) = mute s q w u"
  "mute s q (w\<lparr>held := H\<rparr>) u = mute s q w u"
  by (simp_all add: mute_def in_monitor_def unlocked_def begun_def followed_def)

text \<open>A step is the first part of a heartbeat, the next part of a task, or has nothing to do with it.\<close>

lemma step_kinds:
  assumes "sys_step E w l u"
  shows "(\<exists>e load order v. EmitterAdded e \<in> set (history w) \<and> take_section e w = (Inr load, v) \<and>
      beat_order e order \<and> l = take_label e load \<and> u = begun [BRead e (unread load) order] v) \<or>
    (\<exists>t r v. t \<in> set (tasks w) \<and> task_prog E t (w\<lparr>held := task_locks t\<rparr>) = (r, v) \<and> l = task_label t \<and>
      u = followed t r (unlocked v)) \<or>
    (mute s q w u \<and> drained q l = [] \<and> (\<exists>new. tasks u = new @ tasks w \<and> (\<forall>t \<in> set new. \<not> on_queue q t)))"
  using assms
proof cases
  case (step_notify i d log hdr)
  have "guar (mute s q) (invoke E i (ed_callback d) hdr log)" using step_notify(5) by (rule mute_methods)
  from mute_run [OF this, of "in_monitor w"] have "mute s q w u" unfolding step_notify(2) by simp
  then show ?thesis unfolding step_notify(1,2) by (simp add: invoke_tasks)
next
  case (step_reg i d log p a v hdr)
  then have "mute s q w v" using guarD [OF mute_methods(2) step_reg(7)] by simp
  with step_reg show ?thesis by (auto simp: reg_map_run)
next
  case (step_take e load v order)
  then show ?thesis by blast
next
  case (step_task t r v)
  then show ?thesis by blast
next
  case (step_lookup msg p a v order s')
  then have "mute s q w v" "tasks v = tasks w"
    using guarD [OF mute_methods(7)] guarD [OF quiet_sections(1)] by (blast, simp add: quiet_def)
  with step_lookup show ?thesis by simp
next
  case (step_receipt_listen msg addr topics r v s')
  then have "mute s q w v" "tasks v = tasks w"
    using guarD [OF mute_methods(9)] blind_tasks [OF blind_receipt_listen] by blast+
  with step_receipt_listen show ?thesis by (auto split: sum.split)
qed (use mute_same in \<open>auto simp: mute_run mute_rules mute_methods mute_frame.guar_log quiet_snd_tasks quiet_block\<close>)
section \<open>What is under way\<close>

text \<open>What a heartbeat has taken from the queue and not sent yet.\<close>

definition load_events :: "load \<Rightarrow> event_data_queue" where
  "load_events load = (case load of Events evs \<Rightarrow> evs | Receipts rs \<Rightarrow> [])"

fun taken :: "qref \<Rightarrow> task \<Rightarrow> event_data_queue" where
  "taken q (BRead e m order) = (if emitter_on q e then load_events (arg_load m) else [])"
| "taken q _ = []"

definition in_flight :: "qref \<Rightarrow> system \<Rightarrow> event_data_queue" where
  "in_flight q w = concat (map (taken q) (tasks w))"

definition own_tasks :: "sock \<Rightarrow> system \<Rightarrow> task list" where
  "own_tasks s w = filter (on_sock s) (tasks w)"

lemma own_tasks_cases:
  assumes "owned s q i w"
  shows "own_tasks s w = [] \<or> (\<exists>t. own_tasks s w = [t] \<and> serves s q i t)"
proof (cases "own_tasks s w")
  case (Cons t ts)
  then have "ts = []" using assms by (simp add: owned_def own_tasks_def)
  moreover have "t \<in> set (own_tasks s w)" using Cons by simp
  then have "serves s q i t" using assms by (simp add: owned_def own_tasks_def)
  ultimately show ?thesis using Cons by simp
qed simp

lemma concat_map_filter:
  "(\<And>x. x \<in> set xs \<Longrightarrow> \<not> P x \<Longrightarrow> f x = []) \<Longrightarrow> concat (map f xs) = concat (map f (filter P xs))"
  by (induction xs) auto

lemma in_flight_own:
  assumes "exclusive s q i w"
  shows "in_flight q w = concat (map (taken q) (own_tasks s w))"
proof -
  have "taken q t = []" if "t \<in> set (tasks w)" "\<not> on_sock s t" for t
  proof (cases t)
    case (BRead e m order)
    have "\<not> emitter_on q e"
    proof
      assume "emitter_on q e"
      then have "serves s q i t" using assms that(1) BRead by (auto simp: exclusive_def)
      with that(2) show False using serves_on by blast
    qed
    then show ?thesis using BRead by simp
  qed simp_all
  then show ?thesis unfolding in_flight_def own_tasks_def by (rule concat_map_filter)
qed

text \<open>How the tasks of the connection change.\<close>

lemma own_tasks_new:
  assumes "tasks u = new @ tasks w"
  shows "own_tasks s u = filter (on_sock s) new @ own_tasks s w"
  using assms by (simp add: own_tasks_def)

lemma own_tasks_part:
  assumes "task_prog E t (w\<lparr>held := task_locks t\<rparr>) = (r, v)"
  shows "own_tasks s (followed t r (unlocked v)) =
    filter (on_sock s) (case r of Inl e \<Rightarrow> [] | Inr ts \<Rightarrow> ts) @ remove1 t (own_tasks s w)"
  unfolding own_tasks_def part_tasks [OF assms] filter_append filter_remove1 ..

text \<open>The task after a part is of the same connection; only a request that starts to listen has a queue that it had
not before, a new one.\<close>

lemma next_on_sock:
  assumes "task_prog E t w = (Inr ts, u)" "t' \<in> set ts"
  shows "on_sock s t' = on_sock s t"
  using assms by (cases "(E, t)" rule: task_prog.cases) (auto dest!: bnd_returns split: prod.splits)

lemma next_on_queue:
  assumes "task_prog E t w = (Inr ts, u)" "t' \<in> set ts" "on_queue q t'" "q < length (evqs w)"
  shows "on_queue q t \<and> (serves s q i t \<longrightarrow> serves s q i t')"
proof (cases "\<exists>s' a order. t = RListen s' a order")
  case True
  then obtain s' a order where "t = RListen s' a order" by blast
  then have "\<exists>j. t' = RRead s' a (length (evqs w)) j (unread (Events [])) order"
    using assms(1,2) by (auto simp: prog_run subreq_listen_run Let_def split: sum.splits)
  with assms(3,4) show ?thesis by auto
next
  case False
  with assms show ?thesis by (cases "(E, t)" rule: task_prog.cases) (auto dest!: bnd_returns split: prod.splits)
qed
section \<open>The queue stays that of the subscription\<close>

lemma other_sock: "\<exists>s'. \<not> on_sock s' t"
proof -
  have "\<exists>s'. x \<noteq> s'" for x :: sock by (rule exI [of _ "Suc x"]) simp
  then show ?thesis by (cases t) simp_all
qed

lemma part_emitters:
  fixes w v :: system
  assumes "task_prog E t w = (r, v)" "emitter_on q e" "EmitterAdded e \<in> set (history v)"
  shows "EmitterAdded e \<in> set (history w) \<or> t = RAttach e"
proof (cases "\<exists>e'. t = RAttach e'")
  case True
  with assms show ?thesis
    by (auto simp: attach_section_def add_emitter_def ext_result_def prog_run split: sum.splits)
next
  case False
  obtain s' where "\<not> on_sock s' t" using other_sock by blast
  then have "guar (mute s' q) (task_prog E t)" using False by (intro mute_task) blast+
  then have "mute s' q w v" using assms(1) by (rule guarD)
  with assms(2,3) show ?thesis by (simp add: mute_def)
qed

lemma step_exclusive:
  assumes "sys_step E w l u" "q < length (evqs w)" "exclusive s q i w"
  shows "exclusive s q i u"
proof -
  have emitter: "e = EventEmitter s q i" if "EmitterAdded e \<in> set (history w)" "emitter_on q e" for e
    using assms(3) that by (simp add: exclusive_def)
  have task: "serves s q i t" if "t \<in> set (tasks w)" "on_queue q t" for t
    using assms(3) that by (simp add: exclusive_def)
  from step_kinds [OF assms(1), of s q] consider
      (take) e load order v where "EmitterAdded e \<in> set (history w)" "take_section e w = (Inr load, v)"
        "u = begun [BRead e (unread load) order] v"
    | (part) t r v where "t \<in> set (tasks w)" "task_prog E t (w\<lparr>held := task_locks t\<rparr>) = (r, v)"
        "u = followed t r (unlocked v)"
    | (other) new where "mute s q w u" "tasks u = new @ tasks w" "\<forall>t \<in> set new. \<not> on_queue q t" by blast
  then show ?thesis
  proof cases
    case take
    then have "mute s q w v" "tasks v = tasks w"
      using guarD [OF mute_methods(11)] blind_tasks [OF blind_take] by blast+
    with take emitter task show ?thesis by (auto simp: exclusive_def mute_def)
  next
    case part
    have "e = EventEmitter s q i" if "EmitterAdded e \<in> set (history v)" "emitter_on q e" for e
    proof (cases "t = RAttach e")
      case True
      then show ?thesis using task [OF part(1)] that(2) by simp
    next
      case False
      with part_emitters [OF part(2) that(2,1)] have "EmitterAdded e \<in> set (history w)" by simp
      then show ?thesis using that(2) by (rule emitter)
    qed
    moreover have "serves s q i t'" if "t' \<in> set (tasks u)" "on_queue q t'" for t'
    proof (cases "t' \<in> set (tasks w)")
      case True
      then show ?thesis using that(2) by (rule task)
    next
      case False
      note in_u = that(1)
      obtain ts where ts: "r = Inr ts" "t' \<in> set ts"
        using False in_u unfolding part(3) part_tasks [OF part(2)]
        by (cases r) (auto dest: notin_set_remove1)
      have "q < length (evqs (w\<lparr>held := task_locks t\<rparr>))" using assms(2) by simp
      from next_on_queue [OF part(2) [unfolded ts(1)] ts(2) that(2) this] task [OF part(1)] show ?thesis by blast
    qed
    ultimately show ?thesis unfolding exclusive_def part(3) by simp
  next
    case other
    with emitter task show ?thesis by (auto simp: exclusive_def mute_def)
  qed
qed
section \<open>The parts of the subscription\<close>

lemma read_part:
  fixes w :: system
  assumes "sys_inv w" "sends_well E s"
  shows "\<exists>m'. read_section E a x m w = (Inr m', w) \<and>
    arg_load m' = (if x = ArgPast then Events (past_events w a) else arg_load m)"
proof -
  have held: "held w = {}" using assms(1) by (simp add: sys_inv_def)
  show ?thesis
  proof (cases x)
    case ArgSec
    obtain b where "rlp_write_sec E (sec_state_at E (history w)) = Inr b"
      using assms(2) unfolding sends_well_def by blast
    with ArgSec held show ?thesis by (simp add: sec_section_def prog_run)
  next
    case ArgNum
    with held show ?thesis by (simp add: prog_run)
  next
    case ArgPast
    with inv_past_events [OF assms(1), of a] show ?thesis by (simp add: bnd_run)
  qed
qed

lemma send_part:
  fixes w :: system
  assumes "sends_well E s" "arg_load m = Events evs"
  shows "\<exists>b. send_section E s m w = (Inr (), w\<lparr>history := Sent s b # history w\<rparr>) \<and> carries_events E b evs"
proof -
  obtain b where "rlp_write E (emitted_dict (arg_sec m) (arg_num m) evs) = Inr b"
    using assms(1) unfolding sends_well_def by blast
  then have "carries_events E b evs" "args_msg E m = Inr b"
    by (auto simp: carries_events_def args_msg_def assms(2) build_emitted_msg_def)
  then have "send_section E s m w = (Inr (), w\<lparr>history := Sent s b # history w\<rparr>)"
    using sends_wellD(3) [OF assms(1)] by (simp add: send_section_def bnd_run prog_run)
  with \<open>carries_events E b evs\<close> show ?thesis by blast
qed

lemma attach_messages:
  fixes w :: system
  assumes "attach_section E e w = (r, v)"
  shows "messages s (history v) = messages s (history w)"
proof -
  have "\<exists>q. \<not> emitter_on q e"
  proof (cases e)
    case (EventEmitter s' q i)
    then have "\<not> emitter_on (Suc q) e" by simp
    then show ?thesis ..
  qed simp
  then obtain q where "\<not> emitter_on q e" ..
  from guarD [OF mute_methods(13) [OF this] assms, of s] show ?thesis by (simp add: mute_def)
qed

section \<open>Where a subscription is\<close>

text \<open>\<open>G\<close>: what the past events have grown by since the listener is there, \<open>D\<close>: what heartbeats have taken. First
the request reads the arguments of the reply, and nothing is sent; after the reply every message is a heartbeat's.\<close>

definition request_stage :: "sock \<Rightarrow> bytes \<Rightarrow> qref \<Rightarrow> cb_id \<Rightarrow> bytes list \<Rightarrow> event_data_queue \<Rightarrow>
    event_data_queue \<Rightarrow> event_data_queue \<Rightarrow> system \<Rightarrow> bool" where
  "request_stage s a q i sent past G D w \<longleftrightarrow> (\<exists>m order. own_tasks s w = [RRead s a q i m order] \<and>
     messages s (history w) = sent \<and> D = [] \<and>
     (ArgPast \<in> set order \<or> (\<exists>dup. prefix dup G \<and> arg_load m = Events (past @ dup))))"

fun attached :: "sock \<Rightarrow> qref \<Rightarrow> cb_id \<Rightarrow> task \<Rightarrow> bool" where
  "attached s q i (RAttach e) = (e = EventEmitter s q i)"
| "attached s q i (BRead e m order) =
     (e = EventEmitter s q i \<and> ArgPast \<notin> set order \<and> arg_load m = Events (load_events (arg_load m)))"
| "attached s q i _ = False"

definition stream_stage :: "env \<Rightarrow> sock \<Rightarrow> qref \<Rightarrow> cb_id \<Rightarrow> bytes list \<Rightarrow> event_data_queue \<Rightarrow>
    event_data_queue \<Rightarrow> event_data_queue \<Rightarrow> system \<Rightarrow> bool" where
  "stream_stage E s q i sent past G D w \<longleftrightarrow> (\<exists>reply beats bs dup. prefix dup G \<and>
     (\<forall>t \<in> set (own_tasks s w). attached s q i t) \<and>
     messages s (history w) = sent @ reply # beats \<and> carries_events E reply (past @ dup) \<and>
     list_all2 (carries_events E) beats bs \<and> D = concat bs @ concat (map (taken q) (own_tasks s w)))"

definition at_stage :: "env \<Rightarrow> sock \<Rightarrow> bytes \<Rightarrow> qref \<Rightarrow> cb_id \<Rightarrow> bytes list \<Rightarrow> event_data_queue \<Rightarrow>
    event_data_queue \<Rightarrow> event_data_queue \<Rightarrow> system \<Rightarrow> bool" where
  "at_stage E s a q i sent past G D w \<longleftrightarrow>
     request_stage s a q i sent past G D w \<or> stream_stage E s q i sent past G D w"

text \<open>When nothing happens on the connection, the stage stays.\<close>

lemma stage_same:
  assumes "at_stage E s a q i sent past G D w" "own_tasks s u = own_tasks s w"
    and "messages s (history u) = messages s (history w)"
  shows "at_stage E s a q i sent past (G @ g) D u"
proof -
  have "prefix dup (G @ g)" if "prefix dup G" for dup using that by (rule prefix_prefix)
  then show ?thesis
    using assms unfolding at_stage_def request_stage_def stream_stage_def by metis
qed

lemma stage_request_part:
  assumes w: "sys_inv w" "sends_well E s" and past: "past_events w a = past @ G"
    and stage: "request_stage s a q i sent past G D w" and t: "own_tasks s w = [t]"
    and part: "task_prog E t w = (r, v)" and u: "own_tasks s u = filter (on_sock s) (case r of Inl e \<Rightarrow> [] | Inr ts \<Rightarrow> ts)"
    and history: "history u = history v"
  shows "at_stage E s a q i sent past (G @ g) D u"
proof -
  obtain m order where m: "t = RRead s a q i m order" "messages s (history w) = sent" "D = []"
      "ArgPast \<in> set order \<or> (\<exists>dup. prefix dup G \<and> arg_load m = Events (past @ dup))"
    using stage t unfolding request_stage_def by auto
  show ?thesis
  proof (cases order)
    case (Cons x xs)
    obtain m' where read: "read_section E a x m w = (Inr m', w)"
        "arg_load m' = (if x = ArgPast then Events (past @ G) else arg_load m)"
      using read_part [OF w, of a x m] past by auto
    then have "r = Inr [RRead s a q i m' xs]" "v = w" using part m(1) Cons by (simp_all add: bnd_run)
    moreover have "ArgPast \<in> set xs \<or> (\<exists>dup. prefix dup (G @ g) \<and> arg_load m' = Events (past @ dup))"
    proof (cases "x = ArgPast")
      case True
      with read(2) show ?thesis by (intro disjI2 exI [of _ G]) simp
    next
      case False
      with read(2) m(4) Cons show ?thesis by (auto intro: prefix_prefix)
    qed
    ultimately show ?thesis
      using u history m(2,3) by (simp add: at_stage_def request_stage_def)
  next
    case Nil
    then obtain dup where dup: "prefix dup G" "arg_load m = Events (past @ dup)" using m(4) by auto
    obtain b where send: "send_section E s m w = (Inr (), w\<lparr>history := Sent s b # history w\<rparr>)"
        "carries_events E b (past @ dup)" using send_part [OF w(2) dup(2)] by blast
    then have "r = Inr [RAttach (EventEmitter s q i)]" "v = w\<lparr>history := Sent s b # history w\<rparr>"
      using part m(1) Nil by (simp_all add: bnd_run)
    with u history m(2,3) send(2) dup(1) have "stream_stage E s q i sent past (G @ g) D u"
      unfolding stream_stage_def
      by (intro exI [of _ b] exI [of _ "[]"] exI [of _ dup]) (simp add: prefix_prefix)
    then show ?thesis by (simp add: at_stage_def)
  qed
qed

lemma stage_stream_part:
  assumes w: "sys_inv w" "sends_well E s"
    and stage: "stream_stage E s q i sent past G D w" and t: "own_tasks s w = [t]"
    and part: "task_prog E t w = (r, v)" and u: "own_tasks s u = filter (on_sock s) (case r of Inl e \<Rightarrow> [] | Inr ts \<Rightarrow> ts)"
    and history: "history u = history v"
  shows "at_stage E s a q i sent past (G @ g) D u"
proof -
  obtain reply beats bs dup where st: "prefix dup G" "attached s q i t"
      "messages s (history w) = sent @ reply # beats" "carries_events E reply (past @ dup)"
      "list_all2 (carries_events E) beats bs" "D = concat bs @ taken q t"
    using stage unfolding stream_stage_def t by auto
  have "\<exists>beats bs. (\<forall>t \<in> set (own_tasks s u). attached s q i t) \<and> messages s (history u) = sent @ reply # beats \<and>
      list_all2 (carries_events E) beats bs \<and> D = concat bs @ concat (map (taken q) (own_tasks s u))"
  proof (cases "(E, t)" rule: task_prog.cases)
    case (4 E' e)
    then have "messages s (history v) = messages s (history w)" "r \<noteq> Inl x \<Longrightarrow> True" for x
      using part attach_messages by (auto simp: bnd_run split: prod.splits sum.splits)
    moreover have "own_tasks s u = []" using u part 4 by (cases r) (auto dest!: bnd_returns)
    ultimately show ?thesis using st 4 history by auto
  next
    case (5 E' e m x xs)
    with st(2) have "x \<noteq> ArgPast" by auto
    with read_part [OF w, of "[]" x m] obtain m' where
        read: "read_section E [] x m w = (Inr m', w)" "arg_load m' = arg_load m" by auto
    then have "cancelling E e (read_section E [] x m) w = (Inr m', w)" by (simp only: cancelling_Inr)
    then have "r = Inr [BRead e m' xs]" "v = w" using part 5 by (simp_all add: bnd_run)
    with u history st read(2) 5 show ?thesis by (intro exI [of _ beats] exI [of _ bs]) auto
  next
    case (6 E' e m)
    then have e: "e = EventEmitter s q i" "arg_load m = Events (load_events (arg_load m))" using st(2) by auto
    obtain b where send: "send_section E s m w = (Inr (), w\<lparr>history := Sent s b # history w\<rparr>)"
        "carries_events E b (load_events (arg_load m))" using send_part [OF w(2) e(2)] by blast
    then have "cancelling E e (send_section E (emitter_sock e) m) w = (Inr (), w\<lparr>history := Sent s b # history w\<rparr>)"
      by (simp add: cancelling_Inr e(1))
    then have "r = Inr []" "v = w\<lparr>history := Sent s b # history w\<rparr>" using part 6 by (simp_all add: bnd_run)
    with u history st send(2) 6 e(1) show ?thesis
      by (intro exI [of _ "beats @ [b]"] exI [of _ "bs @ [load_events (arg_load m)]"])
        (simp add: list_all2_appendI)
  qed (use st(2) in auto)
  with prefix_prefix [OF st(1)] st(4) have "stream_stage E s q i sent past (G @ g) D u" unfolding stream_stage_def by blast
  then show ?thesis by (simp add: at_stage_def)
qed
lemma stage_take:
  assumes "exclusive s q i w" "owned s q i u" and take: "EmitterAdded e \<in> set (history w)" "take_section e w = (Inr load, v)"
      "beat_order e order" "u = begun [BRead e (unread load) order] v"
    and stage: "at_stage E s a q i sent past G D w"
  shows "at_stage E s a q i sent past (G @ g) (D @ drained q (take_label e load)) u"
proof -
  have v: "messages s (history v) = messages s (history w)" "tasks v = tasks w"
    using guarD [OF mute_methods(11) take(2)] blind_tasks [OF blind_take take(2)] by (simp_all add: mute_def)
  then have tasks: "own_tasks s u = filter (on_sock s) [BRead e (unread load) order] @ own_tasks s w"
    by (intro own_tasks_new) (simp add: take(4))
  have sent: "messages s (history u) = messages s (history w)" using v take(4) by simp
  show ?thesis
  proof (cases "emitter_sock e = s")
    case True
    have e: "e = EventEmitter s q i" using own_tasks_cases [OF assms(2)] tasks True by auto
    have none: "own_tasks s w = []" using own_tasks_cases [OF assms(2)] tasks True by auto
    obtain evs where evs: "load = Events evs" "take_label e load = Drains q evs"
      using take(2) e by (auto simp: bnd_run split: prod.splits sum.splits)
    have "stream_stage E s q i sent past G D w" using stage none by (simp add: at_stage_def request_stage_def)
    then obtain reply beats bs dup where st: "prefix dup G" "messages s (history w) = sent @ reply # beats"
        "carries_events E reply (past @ dup)" "list_all2 (carries_events E) beats bs" "D = concat bs"
      unfolding stream_stage_def none by auto
    have "stream_stage E s q i sent past (G @ g) (D @ evs) u"
      unfolding stream_stage_def
      using st sent tasks none take(3) e evs(1) prefix_prefix [OF st(1)]
      by (intro exI [of _ reply] exI [of _ beats] exI [of _ bs] exI [of _ dup])
        (auto simp: load_events_def unread_def)
    then show ?thesis using evs(2) by (simp add: at_stage_def)
  next
    case False
    have "\<not> emitter_on q e" using assms(1) take(1) False by (auto simp: exclusive_def)
    then have "drained q (take_label e load) = []" by (cases "(e, load)" rule: take_label.cases) simp_all
    moreover have "own_tasks s u = own_tasks s w" using tasks False by simp
    ultimately show ?thesis using stage_same [OF stage _ sent] by simp
  qed
qed

lemma stage_task:
  assumes inv: "sys_inv w" "sends_well E s" "exclusive s q i w" "owned s q i w" and past: "past_events w a = past @ G"
    and t: "t \<in> set (tasks w)" "task_prog E t (w\<lparr>held := task_locks t\<rparr>) = (r, v)" "u = followed t r (unlocked v)"
    and stage: "at_stage E s a q i sent past G D w"
  shows "at_stage E s a q i sent past (G @ g) (D @ drained q (task_label t)) u"
proof -
  have label: "drained q (task_label t) = []" by (cases t) simp_all
  note tasks = own_tasks_part [OF t(2), of s, folded t(3)]
  show ?thesis
  proof (cases "on_sock s t")
    case False
    then have "\<not> on_queue q t" using inv(3) t(1) serves_on by (auto simp: exclusive_def)
    then have "guar (mute s q) (task_prog E t)" using False by (intro mute_task) auto
    then have "mute s q (w\<lparr>held := task_locks t\<rparr>) v" using t(2) by (rule guarD)
    then have "messages s (history u) = messages s (history w)" by (simp add: mute_def t(3))
    moreover have "filter (on_sock s) (case r of Inl e \<Rightarrow> [] | Inr ts \<Rightarrow> ts) = []"
    proof (cases r)
      case (Inr ts)
      with False next_on_sock [of E t _ ts v] t(2) show ?thesis by (simp add: filter_empty_conv)
    qed simp
    then have "own_tasks s u = own_tasks s w"
      using tasks False by (simp add: own_tasks_def remove1_idem)
    ultimately show ?thesis using stage_same [OF stage] label by simp
  next
    case True
    then have "t \<in> set (own_tasks s w)" using t(1) by (simp add: own_tasks_def)
    then have own: "own_tasks s w = [t]" using own_tasks_cases [OF inv(4)] by auto
    have "task_locks t = {}" using True by (cases t) simp_all
    moreover have "w\<lparr>held := {}\<rparr> = w" using inv(1) by (simp add: sys_inv_def)
    ultimately have part: "task_prog E t w = (r, v)" using t(2) by simp
    have u: "own_tasks s u = filter (on_sock s) (case r of Inl e \<Rightarrow> [] | Inr ts \<Rightarrow> ts)" "history u = history v"
      using tasks own t(3) by simp_all
    show ?thesis
      using stage stage_request_part [OF inv(1,2) past _ own part u] stage_stream_part [OF inv(1,2) _ own part u] label
      unfolding at_stage_def [of E s a q i sent past G] by auto
  qed
qed

lemma stage_step:
  assumes step: "sys_step E w l u" and inv: "sys_inv w" "sends_well E s" "exclusive s q i w" "owned s q i w" "owned s q i u"
    and past: "past_events w a = past @ G" and stage: "at_stage E s a q i sent past G D w"
  shows "at_stage E s a q i sent past (G @ past_gain E a l) (D @ drained q l) u"
proof -
  from step_kinds [OF step, of s q] consider
      (take) e load order v where "EmitterAdded e \<in> set (history w)" "take_section e w = (Inr load, v)"
        "beat_order e order" "u = begun [BRead e (unread load) order] v" "l = take_label e load"
    | (part) t r v where "t \<in> set (tasks w)" "task_prog E t (w\<lparr>held := task_locks t\<rparr>) = (r, v)"
        "u = followed t r (unlocked v)" "l = task_label t"
    | (other) new where "mute s q w u" "drained q l = []" "tasks u = new @ tasks w" "\<forall>t \<in> set new. \<not> on_queue q t"
    by blast
  then show ?thesis
  proof cases
    case take
    then show ?thesis using stage_take [OF inv(3,5) take(1-4) stage] by simp
  next
    case part
    then show ?thesis using stage_task [OF inv(1-4) past part(1-3) stage] by simp
  next
    case other
    have "\<not> on_sock s t" if "t \<in> set new" for t
    proof
      assume "on_sock s t"
      then have "serves s q i t" using inv(5) other(3) that by (simp add: owned_def)
      then show False using serves_on other(4) that by blast
    qed
    then have "own_tasks s u = own_tasks s w"
      using own_tasks_new [OF other(3), of s] by (simp add: filter_empty_conv)
    with other(1) stage_same [OF stage] show ?thesis by (simp add: mute_def other(2))
  qed
qed

lemma stage_run:
  assumes "run_of (owned_step E s q i) w ls u" "sends_well E s"
    and "sys_inv w" "sub_queue w q" "exclusive s q i w" "owned s q i w" "past_events w a = past @ G"
    and "at_stage E s a q i sent past G D w"
  shows "exclusive s q i u \<and>
    at_stage E s a q i sent past (G @ concat (map (past_gain E a) ls)) (D @ concat (map (drained q) ls)) u"
  using assms
proof (induction arbitrary: G D rule: run_of.induct)
  case (run_of_more w l v ls u)
  have step: "sys_step E w l v" and owned: "owned s q i v" using run_of_more.hyps(1) by (simp_all add: owned_step_def)
  note acc = step_account [OF step run_of_more.prems(2)]
  have "exclusive s q i v"
    using step_exclusive [OF step _ run_of_more.prems(4)] run_of_more.prems(3) by (simp add: sub_queue_def)
  moreover have "sub_queue v q" using acc run_of_more.prems(3) sys_ext_sub_queue by blast
  moreover have "past_events v a = past @ (G @ past_gain E a l)"
    using acc run_of_more.prems(6) by (simp add: accounted_def)
  ultimately show ?case
    using run_of_more.IH [OF run_of_more.prems(1) step_keeps_inv [OF step run_of_more.prems(2)] _ _ owned _
        stage_step [OF step run_of_more.prems(2,1,4,5) owned run_of_more.prems(6,7)]] by simp
qed simp
text \<open>The queue of a new listener is used by nobody yet.\<close>

lemma listening_exclusive:
  assumes "sys_inv w" "subreq_listen E a w = (Inr (q, i), v)"
  shows "exclusive s q i (followed (RListen s a order) (Inr [RRead s a q i m order']) v)"
proof -
  have q: "q = length (evqs w)" and tasks: "tasks v = tasks w"
    and emitters: "\<And>e. EmitterAdded e \<in> set (history v) \<Longrightarrow> EmitterAdded e \<in> set (history w)"
    using assms(2) by (auto simp: subreq_listen_run Let_def subscribing_log_def split: sum.splits)
  have "\<not> emitter_on q e" if "em_inv w e" for e using that q by (cases e) (auto simp: sub_queue_def)
  moreover from this have "\<not> on_queue q t" if "task_inv w t" for t
    using that q by (cases t) (auto simp: sub_queue_def)
  ultimately show ?thesis
    using assms(1) emitters tasks by (auto simp: exclusive_def followed_def sys_inv_def dest: subsetD [OF set_remove1_subset])
qed

lemma subscription_run:
  assumes "sys_inv w0" "reply_order order" "subreq_listen E a w0 = (Inr (q, i), v0)"
    and u0: "u0 = followed (RListen s a order) (Inr [RRead s a q i (unread (Events [])) order]) v0" "owned s q i u0"
    and "run_of (owned_step E s q i) u0 ls w" "sends_well E s"
  defines "G \<equiv> concat (map (past_gain E a) ls)" and "D \<equiv> concat (map (drained q) ls)"
  shows "exclusive s q i w" "at_stage E s a q i (messages s (history w0)) (past_events v0 a) G D w"
    and "get_past_events a v0 = (Inr (past_events v0 a), v0)" "get_past_events a w = (Inr (past_events v0 a @ G), w)"
    and "D @ event_queue_contents w q = concat (map (queue_gain E q) ls)"
proof -
  have v0: "sys_inv v0" and inv: "sys_inv u0" and sub: "sub_queue u0 q"
    using listen_safe [OF assms(1,3)] unfolding u0(1) by (auto intro!: sys_inv_followed simp: sub_queue_def)
  have new: "q = length (evqs w0)" "evqs u0 = evqs w0 @ [[]]" "messages s (history u0) = messages s (history w0)"
    using assms(3) unfolding u0(1) by (auto simp: subreq_listen_run Let_def subscribing_log_def split: sum.splits)
  have past: "past_events u0 a = past_events v0 a" by (simp add: u0(1))
  have run: "sys_run E u0 ls w"
    using run_of_map [OF assms(6), of "sys_step E" id] by (simp add: owned_step_def run_of_system)
  note acc = run_account [OF run inv, of a q]
  have own: "own_tasks s u0 = [RRead s a q i (unread (Events [])) order]"
    using own_tasks_cases [OF u0(2)] by (auto simp: own_tasks_def followed_def u0(1))
  have "request_stage s a q i (messages s (history w0)) (past_events v0 a) [] [] u0"
    unfolding request_stage_def own using assms(2) new(3) by (auto simp: reply_order_def)
  then have "at_stage E s a q i (messages s (history w0)) (past_events v0 a) [] [] u0" by (simp add: at_stage_def)
  from stage_run [OF assms(6,7) inv sub _ u0(2) _ this] listening_exclusive [OF assms(1,3)] past
  show "exclusive s q i w" "at_stage E s a q i (messages s (history w0)) (past_events v0 a) G D w"
    by (simp_all add: G_def D_def u0(1))
  show "get_past_events a v0 = (Inr (past_events v0 a), v0)" using inv_past_events [OF v0] by simp
  show "get_past_events a w = (Inr (past_events v0 a @ G), w)"
    using acc inv_past_events [OF run_keeps_inv [OF run inv]] past by (simp add: G_def)
  show "D @ event_queue_contents w q = concat (map (queue_gain E q) ls)"
    using acc sub new(1,2) by (simp add: D_def event_queue_contents_def sub_queue_def)
qed

section \<open>A subscription in the concrete run\<close>

text \<open>
  The request of \<open>Delivery\<close>, with the event that comes before the past events are copied, and one heartbeat: the
  states between its parts, by the task that the connection has (\<open>reading\<close>, \<open>beating\<close>) and by what was sent.
\<close>

definition reading :: "msg_args \<Rightarrow> arg list \<Rightarrow> system" where
  "reading m order = example_both_seen\<lparr>tasks := [RRead 3 (replicate 20 2) 1 3 m order]\<rparr>"

definition example_attaching :: system where
  "example_attaching = example_both_seen\<lparr>tasks := [RAttach (EventEmitter 3 1 3)],
     history := Sent 3 [9] # history example_both_seen\<rparr>"

definition example_attached :: system where
  "example_attached = example_attaching\<lparr>tasks := [], history := Logged Debug subreq_logger ''Received a subscribe request'' #
     EmitterAdded (EventEmitter 3 1 3) # history example_attaching\<rparr>"

definition beating :: "msg_args \<Rightarrow> arg list \<Rightarrow> system" where
  "beating m order = example_attached\<lparr>evqs := (evqs example_both_seen)[1 := []],
     tasks := [BRead (EventEmitter 3 1 3) m order]\<rparr>"

definition example_streamed :: system where
  "example_streamed = example_attached\<lparr>evqs := (evqs example_both_seen)[1 := []],
     history := Sent 3 [9] # history example_attached\<rparr>"

text \<open>A step of the subscription's own thread.\<close>

lemma own_part:
  assumes "sys_inv w" "tasks w = [t]" "task_locks t = {}" "task_label t = Silent" "task_prog E t w = (r, v)"
    and "u = followed t r v" "owned s q i u"
  shows "owned_step E s q i w Silent u \<and> sys_inv u"
proof -
  have "sys_step E w Silent u" using step_part [OF assms(1) _ assms(3,5)] assms(2,4,6) by simp
  with assms(1,7) step_keeps_inv show ?thesis by (auto simp: owned_step_def)
qed

lemma example_both_reading: "example_both_seen = reading (unread (Events [])) [ArgNum, ArgPast, ArgSec]"
  using example_both_tasks(2) by (simp add: reading_def)

lemma reading_held [simp]: "held (reading m order) = {}"
  by (simp add: reading_def)

lemma example_sends_well: "sends_well example_env s"
  by (simp add: sends_well_def)

lemma reading_run:
  assumes "sys_inv (reading m order)" "arg_load m = Events evs"
  shows "\<exists>m' evs. run_of (owned_step example_env 3 1 3) (reading m order) (replicate (length order) Silent) (reading m' []) \<and>
    sys_inv (reading m' []) \<and> arg_load m' = Events evs"
  using assms
proof (induction order arbitrary: m evs)
  case (Cons x xs)
  from read_part [OF Cons.prems(1) example_sends_well, of "replicate 20 2" x m] obtain m' where
    m': "read_section example_env (replicate 20 2) x m (reading m (x # xs)) = (Inr m', reading m (x # xs))"
      "\<exists>evs. arg_load m' = Events evs" using Cons.prems(2) by auto
  then have part: "task_prog example_env (RRead 3 (replicate 20 2) 1 3 m (x # xs)) (reading m (x # xs)) =
      (Inr [RRead 3 (replicate 20 2) 1 3 m' xs], reading m (x # xs))" by (simp add: bnd_run)
  have "owned_step example_env 3 1 3 (reading m (x # xs)) Silent (reading m' xs) \<and> sys_inv (reading m' xs)"
    by (rule own_part [OF Cons.prems(1) _ _ _ part]) (simp_all add: reading_def followed_def owned_def)
  with Cons.IH m'(2) show ?case by (fastforce intro: run_of_more)
qed (simp, blast intro: run_of_none)

lemma beating_run:
  assumes "sys_inv (beating m order)" "arg_load m = Events evs" "ArgPast \<notin> set order"
  shows "\<exists>m' evs. run_of (owned_step example_env 3 1 3) (beating m order) (replicate (length order) Silent) (beating m' []) \<and>
    sys_inv (beating m' []) \<and> arg_load m' = Events evs"
  using assms
proof (induction order arbitrary: m evs)
  case (Cons x xs)
  from read_part [OF Cons.prems(1) example_sends_well, of "[]" x m] obtain m' where
    m': "read_section example_env [] x m (beating m (x # xs)) = (Inr m', beating m (x # xs))"
      "\<exists>evs. arg_load m' = Events evs" using Cons.prems(2) by auto
  then have "cancelling example_env (EventEmitter 3 1 3) (read_section example_env [] x m) (beating m (x # xs)) =
      (Inr m', beating m (x # xs))" by (simp only: cancelling_Inr)
  then have part: "task_prog example_env (BRead (EventEmitter 3 1 3) m (x # xs)) (beating m (x # xs)) =
      (Inr [BRead (EventEmitter 3 1 3) m' xs], beating m (x # xs))" by (simp add: bnd_run)
  have "owned_step example_env 3 1 3 (beating m (x # xs)) Silent (beating m' xs) \<and> sys_inv (beating m' xs)"
    by (rule own_part [OF Cons.prems(1) _ _ _ part]) (simp_all add: beating_def followed_def owned_def)
  with Cons.IH m'(2) Cons.prems(3) show ?case by (fastforce intro: run_of_more)
qed (simp, blast intro: run_of_none)

lemma example_reply_run:
  "run_of (owned_step example_env 3 1 3) (reading (unread (Events [])) [ArgNum, ArgPast, ArgSec])
     (replicate 3 Silent @ [Silent, Silent]) example_attached \<and> sys_inv example_attached"
proof -
  let ?R = "owned_step example_env 3 1 3" and ?e = "EventEmitter 3 1 3"
  have "sys_inv (reading (unread (Events [])) [ArgNum, ArgPast, ArgSec])"
    using example_both_inv example_both_reading by simp
  from reading_run [OF this] obtain m evs where
      read: "run_of ?R (reading (unread (Events [])) [ArgNum, ArgPast, ArgSec]) (replicate 3 Silent) (reading m [])"
        "sys_inv (reading m [])" "arg_load m = Events evs" by (auto simp: unread_def numeral_3_eq_3)
  have part: "task_prog example_env (RRead 3 (replicate 20 2) 1 3 m []) (reading m []) =
      (Inr [RAttach ?e], (reading m [])\<lparr>history := Sent 3 [9] # history example_both_seen\<rparr>)"
    using read(3) by (simp add: bnd_run send_section_def args_msg_def build_emitted_msg_def prog_run reading_def)
  have replied: "?R (reading m []) Silent example_attaching \<and> sys_inv example_attaching"
    by (rule own_part [OF read(2) _ _ _ part]) (simp_all add: reading_def example_attaching_def followed_def owned_def)
  have part: "task_prog example_env (RAttach ?e) example_attaching = (Inr [], example_attached\<lparr>tasks := [RAttach ?e]\<rparr>)"
    by (simp add: bnd_run attach_section_def prog_run example_attaching_def example_attached_def)
  have attached: "?R example_attaching Silent example_attached \<and> sys_inv example_attached"
    by (rule own_part [OF replied [THEN conjunct2] _ _ _ part])
      (simp_all add: example_attaching_def example_attached_def followed_def owned_def)
  with replied have "run_of ?R (reading m []) [Silent, Silent] example_attached" by (blast intro: run_of.intros)
  with read(1) attached show ?thesis by (blast intro: run_of_append)
qed

lemma example_beat_run:
  "run_of (owned_step example_env 3 1 3) example_attached
     (Drains 1 (evqs example_both_seen ! 1) # replicate 2 Silent @ [Silent]) example_streamed"
proof -
  let ?R = "owned_step example_env 3 1 3" and ?e = "EventEmitter 3 1 3"
  let ?args = "unread (Events (evqs example_both_seen ! 1))"
  have "sub_queue example_both_seen 1" using example_both_inv by (simp add: sys_inv_def example_both_tasks)
  then have "take_section ?e example_attached = (Inr (Events (evqs example_both_seen ! 1)),
      example_attached\<lparr>evqs := (evqs example_both_seen)[1 := []]\<rparr>)"
    by (simp add: bnd_run event_queue_drain_run sub_queue_def example_attached_def example_attaching_def)
  then have "sys_step example_env example_attached (take_label ?e (Events (evqs example_both_seen ! 1)))
      (begun [BRead ?e ?args [ArgNum, ArgSec]] (example_attached\<lparr>evqs := (evqs example_both_seen)[1 := []]\<rparr>))"
    by (intro step_take) (simp_all add: example_attached_def)
  then have taken: "sys_step example_env example_attached (Drains 1 (evqs example_both_seen ! 1))
      (beating ?args [ArgNum, ArgSec])"
    by (simp add: beating_def begun_def example_attached_def)
  then have own: "?R example_attached (Drains 1 (evqs example_both_seen ! 1)) (beating ?args [ArgNum, ArgSec])"
    by (simp add: owned_step_def owned_def beating_def)
  have "sys_inv (beating ?args [ArgNum, ArgSec])" using taken example_reply_run step_keeps_inv by blast
  from beating_run [OF this] obtain m' evs' where
      beat: "run_of ?R (beating ?args [ArgNum, ArgSec]) (replicate 2 Silent) (beating m' [])"
        "sys_inv (beating m' [])" "arg_load m' = Events evs'" by (auto simp: unread_def numeral_2_eq_2)
  have "send_section example_env 3 m' (beating m' []) =
      (Inr (), (beating m' [])\<lparr>history := Sent 3 [9] # history example_attached\<rparr>)"
    using beat(3) by (simp add: bnd_run send_section_def args_msg_def build_emitted_msg_def prog_run beating_def)
  then have "cancelling example_env ?e (send_section example_env 3 m') (beating m' []) =
      (Inr (), (beating m' [])\<lparr>history := Sent 3 [9] # history example_attached\<rparr>)" by (simp only: cancelling_Inr)
  then have part: "task_prog example_env (BRead ?e m' []) (beating m' []) =
      (Inr [], (beating m' [])\<lparr>history := Sent 3 [9] # history example_attached\<rparr>)" by (simp add: bnd_run)
  have sent: "?R (beating m' []) Silent example_streamed \<and> sys_inv example_streamed"
    by (rule own_part [OF beat(2) _ _ _ part])
      (simp_all add: beating_def example_streamed_def followed_def owned_def example_attached_def)
  then have "run_of ?R (beating m' []) [Silent] example_streamed" by (blast intro: run_of.intros)
  with own beat(1) show ?thesis by (blast intro: run_of_append run_of_more)
qed

lemma example_own_run:
  "run_of (owned_step example_env 3 1 3) example_listening
     ([Delivers CbNotifyPast example_header example_notify_log,
      Delivers (CbNotify 1 ''Event Manager @hex'') example_header example_notify_log] @
      (replicate 3 Silent @ [Silent, Silent]) @ Drains 1 (evqs example_both_seen ! 1) # replicate 2 Silent @ [Silent])
     example_streamed"
proof -
  let ?R = "owned_step example_env 3 1 3"
  have "?R example_listening (Delivers CbNotifyPast example_header example_notify_log) example_past_seen"
    "?R example_past_seen (Delivers (CbNotify 1 ''Event Manager @hex'') example_header example_notify_log)
      (reading (unread (Events [])) [ArgNum, ArgPast, ArgSec])"
    using example_delivered example_both_tasks
    by (simp_all add: owned_step_def owned_def flip: example_both_reading)
  then have "run_of ?R example_listening [Delivers CbNotifyPast example_header example_notify_log,
      Delivers (CbNotify 1 ''Event Manager @hex'') example_header example_notify_log]
      (reading (unread (Events [])) [ArgNum, ArgPast, ArgSec])" by (blast intro: run_of.intros)
  with example_reply_run example_beat_run show ?thesis by (blast intro: run_of_append)
qed

section \<open>Properties\<close>

text \<open>C1: a subscriber gets every event at least once, in order. Take a request at the point where it registers its
listener, and any run of the system from there in which its connection is used for nothing but this subscription,
one heartbeat after another, the connection and the writing of messages do not fail, and the EventManager calls the
subscription's listener with the events it calls the service's listener with. Then as long as nothing has been
sent the request is still reading the arguments of its reply; and otherwise the first message is the reply with the
past events, each further message carries what one heartbeat has taken from the queue, and the events of those
messages one after another, then those that a heartbeat has taken and is about to send, then those that wait in the
queue, are the events since the past events at the time of the listener's registration (\<open>before\<close>), up to the last
one. The events that arrived before the past events were copied (\<open>dup\<close>) are in the reply also: these
the subscriber gets twice.\<close>

theorem subscriber_misses_nothing:
  assumes "reachable E w0" "RListen s a order \<in> set (tasks w0)" "reply_order order"
    and "subreq_listen E a w0 = (Inr (q, i), v0)"
    and "owned s q i (followed (RListen s a order) (Inr [RRead s a q i (unread (Events [])) order]) v0)"
    and "run_of (owned_step E s q i) (followed (RListen s a order) (Inr [RRead s a q i (unread (Events [])) order]) v0) ls w"
    and "sends_well E s" "concat (map (queue_gain E q) ls) = concat (map (past_gain E a) ls)"
  shows "\<exists>before. get_past_events a v0 = (Inr before, v0) \<and>
    ((\<exists>m todo. RRead s a q i m todo \<in> set (tasks w)) \<and> messages s (history w) = messages s (history w0) \<or>
     (\<exists>reply beats bs dup later.
       messages s (history w) = messages s (history w0) @ reply # beats \<and>
       carries_events E reply (before @ dup) \<and> list_all2 (carries_events E) beats bs \<and>
       concat bs @ in_flight q w @ event_queue_contents w q = dup @ later \<and>
       get_past_events a w = (Inr (before @ dup @ later), w)))"
proof -
  note run = subscription_run [OF reachable_inv [OF assms(1)] assms(3,4) refl assms(5-7)]
  let ?G = "concat (map (past_gain E a) ls)" and ?D = "concat (map (drained q) ls)"
  from run(2) consider
      (reading) "request_stage s a q i (messages s (history w0)) (past_events v0 a) ?G ?D w"
    | (sending) "stream_stage E s q i (messages s (history w0)) (past_events v0 a) ?G ?D w"
    unfolding at_stage_def by blast
  then show ?thesis
  proof cases
    case reading
    then obtain m todo where "own_tasks s w = [RRead s a q i m todo]" "messages s (history w) = messages s (history w0)"
      unfolding request_stage_def by blast
    moreover from this have "RRead s a q i m todo \<in> set (own_tasks s w)" by simp
    then have "RRead s a q i m todo \<in> set (tasks w)" by (simp add: own_tasks_def)
    ultimately show ?thesis using run(3) by blast
  next
    case sending
    then obtain reply beats bs dup where st: "prefix dup ?G"
        "messages s (history w) = messages s (history w0) @ reply # beats"
        "carries_events E reply (past_events v0 a @ dup)" "list_all2 (carries_events E) beats bs"
        "?D = concat bs @ in_flight q w"
      unfolding stream_stage_def in_flight_own [OF run(1)] by blast
    obtain later where later: "?G = dup @ later" using st(1) by (rule prefixE)
    with run(5) st(5) assms(8) have "concat bs @ in_flight q w @ event_queue_contents w q = dup @ later" by simp
    with run(3,4) st(2-4) later show ?thesis by auto
  qed
qed

text \<open>A reply and one heartbeat, both with the event that came before the past events were copied.\<close>

theorem subscriber_misses_nothing_witness:
  "\<exists>reply beats bs before dup. messages 3 (history example_streamed) = messages 3 (history example_asking) @ reply # beats \<and>
    carries_events example_env reply (before @ dup) \<and> list_all2 (carries_events example_env) beats bs \<and>
    concat bs = [[[7], [1, 2, 3]]] \<and>
    get_past_events (replicate 20 2) example_streamed = (Inr (before @ concat bs), example_streamed)"
proof -
  let ?ls = "[Delivers CbNotifyPast example_header example_notify_log,
      Delivers (CbNotify 1 ''Event Manager @hex'') example_header example_notify_log] @
      (replicate 3 Silent @ [Silent, Silent]) @ Drains 1 (evqs example_both_seen ! 1) # replicate 2 Silent @ [Silent]"
  have order: "reply_order [ArgNum, ArgPast, ArgSec]" by (auto simp: reply_order_def)
  have owned: "owned 3 1 3 example_listening" by (simp add: owned_def example_listening_def)
  have gains: "concat (map (queue_gain example_env 1) ?ls) = concat (map (past_gain example_env (replicate 20 2)) ?ls)"
    by (simp add: example_notify_log_def)
  have asking: "RListen 3 (replicate 20 2) [ArgNum, ArgPast, ArgSec] \<in> set (tasks example_asking)" by simp
  from subscriber_misses_nothing [where s = 3, OF example_asking_reachable asking order example_listen_run,
      unfolded example_listening_alt, OF owned example_own_run example_sends_well gains]
  obtain before reply beats bs dup later where
      before: "get_past_events (replicate 20 2) (snd (subreq_listen example_env (replicate 20 2) example_asking)) =
        (Inr before, snd (subreq_listen example_env (replicate 20 2) example_asking))"
      and sent: "messages 3 (history example_streamed) = messages 3 (history example_asking) @ reply # beats"
        "carries_events example_env reply (before @ dup)" "list_all2 (carries_events example_env) beats bs"
      and all: "concat bs @ in_flight 1 example_streamed @ event_queue_contents example_streamed 1 = dup @ later"
        "get_past_events (replicate 20 2) example_streamed = (Inr (before @ dup @ later), example_streamed)"
    by (auto simp: example_streamed_def example_attached_def)
  have inv: "sys_inv example_listening" using reachable_inv [OF example_listening_reachable] .
  have run: "sys_run example_env example_listening ?ls example_streamed"
    using run_of_map [OF example_own_run, of "sys_step example_env" id] by (simp add: owned_step_def run_of_system)
  have "past_events example_streamed (replicate 20 2) = past_events example_listening (replicate 20 2) @ [[[7], [1, 2, 3]]]"
    using run_account [OF run inv, of "replicate 20 2" 0] by (simp add: notified_def example_notify_log_def example_header_def)
  moreover have "past_events example_listening (replicate 20 2) = []"
    using example_listening_past inv_past_events [OF inv, of "replicate 20 2"] by simp
  moreover have "before @ dup @ later = past_events example_streamed (replicate 20 2)"
    using all(2) inv_past_events [OF run_keeps_inv [OF run inv], of "replicate 20 2"] by simp
  moreover have "before = past_events example_listening (replicate 20 2)"
    using before inv_past_events [OF listen_safe [OF reachable_inv [OF example_asking_reachable] example_listen_run,
      THEN conjunct2, THEN conjunct2, THEN conjunct1], of "replicate 20 2"] by (simp add: example_listening_def)
  ultimately have later: "dup @ later = [[[7], [1, 2, 3]]]" by simp
  have "in_flight 1 example_streamed = []" by (simp add: in_flight_def example_streamed_def example_attached_def)
  moreover have "event_queue_contents example_streamed 1 = []" by (simp add: event_queue_contents_def example_streamed_def)
  ultimately have "concat bs = dup @ later" using all(1) by simp
  with later all(2) have "concat bs = [[[7], [1, 2, 3]]]"
    "get_past_events (replicate 20 2) example_streamed = (Inr (before @ concat bs), example_streamed)" by simp_all
  with sent show ?thesis by blast
qed

end
