(* ===== verification/LockOrder.thy ===== *)
theory LockOrder
  imports ConcreteRun
begin

text \<open>
  Which mutexes a thread of the enclave has while it waits for another one. \<open>flat m\<close>: wherever \<open>m\<close> comes to lock
  a mutex that is taken, it has the mutexes it started with and no more. Critical sections that contain no other
  critical section are flat, and so is what is composed of them; the only mutex of the sources with others inside
  is \<open>MonitorMutex\<close>, in \<^verbatim>\<open>AppendBlock\<close>. The methods are those of the code, as a whole, and also the parts at which a
  thread goes on after it was interrupted. From an arbitrary state on, so also in the middle of what other
  threads do, it follows that threads cannot wait for each other in a cycle.
\<close>

section \<open>Nested critical sections\<close>

definition lock_free :: "('z rt_scheme, 'a) prog \<Rightarrow> bool" where
  "lock_free m \<longleftrightarrow> (\<forall>w l H. fst (m w) \<noteq> Inl (Undef (LockedTwice l H)))"

text \<open>\<open>waits_with P m\<close>: when \<open>m\<close> is started with the mutexes \<open>L\<close> and comes to lock the taken mutex \<open>l\<close> while it has
\<open>H\<close>, they are as \<open>P L l H\<close> says.\<close>

definition waits_with :: "(lock set \<Rightarrow> lock \<Rightarrow> lock set \<Rightarrow> bool) \<Rightarrow> ('z rt_scheme, 'a) prog \<Rightarrow> bool" where
  "waits_with P m \<longleftrightarrow> balanced m \<and> (\<forall>w l H. fst (m w) = Inl (Undef (LockedTwice l H)) \<longrightarrow> P (held w) l H)"

abbreviation flat :: "('z rt_scheme, 'a) prog \<Rightarrow> bool" where
  "flat \<equiv> waits_with (\<lambda>L l H. H = L)"

abbreviation nested_once :: "('z rt_scheme, 'a) prog \<Rightarrow> bool" where
  "nested_once \<equiv> waits_with (\<lambda>L l H. H = L \<or> H = insert MonitorMutex L)"

named_theorems lock_free_rules
  \<open>methods without a critical section\<close>

named_theorems flat_rules
  \<open>methods that wait with the mutexes they started with\<close>

lemma waits_withD: "waits_with P m \<Longrightarrow> m w = (Inl (Undef (LockedTwice l H)), u) \<Longrightarrow> P (held w) l H"
  unfolding waits_with_def by (metis fst_conv)

lemma waits_balanced: "waits_with P m \<Longrightarrow> m w = (r, u) \<Longrightarrow> held u = held w"
  unfolding waits_with_def by (blast dest: balancedD)

lemma waits_withI:
  assumes "balanced m" "\<And>w l H u. m w = (Inl (Undef (LockedTwice l H)), u) \<Longrightarrow> P (held w) l H"
  shows "waits_with P m"
  unfolding waits_with_def using assms by (metis prod.collapse)

lemma of_lib_not_twice [simp]: "of_lib r \<noteq> Inl (Undef b)"
  by (cases r) simp_all

lemma lock_free_pure [lock_free_rules]:
  "lock_free (ret x)" "lock_free (raise e)" "lock_free (undef e)" "lock_free (lib r)" "lock_free (reads g)"
  "lock_free (ask f)" "lock_free (updates h)" "lock_free (event_queue_at q)" "lock_free (set_event_queue q xs)"
  "lock_free (receipt_queue_at q)" "lock_free (set_receipt_queue q rs)" "lock_free new_event_queue"
  by (simp_all add: lock_free_def ask_def event_queue_at_def set_event_queue_def receipt_queue_at_def
      set_receipt_queue_def new_event_queue_def)

lemma lock_free_bnd [lock_free_rules]:
  "lock_free m \<Longrightarrow> (\<And>x. lock_free (f x)) \<Longrightarrow> lock_free (bnd m f)"
  unfolding lock_free_def bnd_def by (simp split: prod.split sum.split) (metis fst_conv)

lemma lock_free_flat: "lock_free m \<Longrightarrow> balanced m \<Longrightarrow> flat m"
  by (simp add: lock_free_def waits_with_def)

lemma flat_with_lock [flat_rules]:
  assumes "lock_free m" "balanced m"
  shows "flat (with_lock l m)"
  using assms balanced_with_lock [OF assms(2)]
  by (simp add: waits_with_def lock_free_def with_lock_def case_prod_beta)

lemma flat_pure [flat_rules]:
  "flat (ret x)" "flat (raise e)" "flat (undef b)" "flat (lib r)" "flat (reads g)" "flat (ask f)"
  "flat (log_msg lvl n k)" "flat (ext_result query entry)" "flat new_event_queue" "flat new_receipt_queue"
proof -
  show "flat (ret x)" "flat (raise e)" "flat (undef b)" "flat (lib r)" "flat (reads g)" "flat (ask f)"
    "flat new_event_queue"
    by (simp_all add: lock_free_flat lock_free_rules balanced_rules)
  show "flat (log_msg lvl n k)" by (auto intro!: waits_withI balanced_rules simp: log_msg_run)
  show "flat (ext_result query entry)"
    by (rule waits_withI, intro balanced_rules) (simp add: ext_result_def split: sum.splits)
  show "flat new_receipt_queue"
    by (rule waits_withI, intro balanced_rules) (simp add: new_receipt_queue_def)
qed

lemma flat_updates [flat_rules]: "(\<And>w. held (g w) = held w) \<Longrightarrow> flat (updates g)"
  by (simp add: lock_free_flat lock_free_rules balanced_updates)

lemma waits_bnd [flat_rules]:
  assumes "waits_with P m" "\<And>x. waits_with P (f x)"
  shows "waits_with P (bnd m f)"
proof (rule waits_withI)
  show "balanced (bnd m f)" using assms by (auto simp: waits_with_def intro: balanced_rules)
  fix w l H u
  assume "bnd m f w = (Inl (Undef (LockedTwice l H)), u)"
  then show "P (held w) l H"
  proof (cases rule: bnd_cases)
    case (fails e)
    then have "m w = (Inl (Undef (LockedTwice l H)), u)" by simp
    then show ?thesis by (rule waits_withD [OF assms(1)])
  next
    case (goes_on x t)
    from waits_withD [OF assms(2) this(2)] waits_balanced [OF assms(1) this(1)] show ?thesis by simp
  qed
qed

lemma waits_try_catch [flat_rules]:
  assumes "waits_with P m" "\<And>e. waits_with P (h e)"
  shows "waits_with P (try_catch m h)"
proof (rule waits_withI)
  show "balanced (try_catch m h)" using assms by (auto simp: waits_with_def intro: balanced_rules)
  fix w l H u
  assume run: "try_catch m h w = (Inl (Undef (LockedTwice l H)), u)"
  obtain q t where m: "m w = (q, t)" by fastforce
  show "P (held w) l H"
  proof (cases "\<exists>e. q = Inl (Raised e)")
    case True
    with run m obtain e where "h e t = (Inl (Undef (LockedTwice l H)), u)" by auto
    from waits_withD [OF assms(2) this] waits_balanced [OF assms(1) m] show ?thesis by simp
  next
    case False
    with run m have "m w = (Inl (Undef (LockedTwice l H)), u)"
      by (auto simp: try_catch_def split: sum.splits fault.splits)
    then show ?thesis by (rule waits_withD [OF assms(1)])
  qed
qed

lemma flat_for_each [flat_rules]: "(\<And>x. flat (f x)) \<Longrightarrow> flat (for_each xs f)"
  by (induction xs) (simp_all add: flat_rules)

lemma waits_pointwise:
  assumes "\<And>w. \<exists>m'. m w = m' w \<and> waits_with P m'"
  shows "waits_with P m"
proof (rule waits_withI)
  show "balanced m" unfolding balanced_def
  proof (rule guarI)
    fix w r u
    assume "m w = (r, u)"
    with assms [of w] waits_balanced show "held u = held w" by metis
  qed
  show "P (held w) l H" if run: "m w = (Inl (Undef (LockedTwice l H)), u)" for w l H u
  proof -
    obtain m' where "m w = m' w" "waits_with P m'" using assms by blast
    with run show ?thesis by (auto intro: waits_withD)
  qed
qed

section \<open>The methods\<close>

lemma flat_lift_res [flat_rules]: "(\<And>l H. r \<noteq> Inl (Undef (LockedTwice l H))) \<Longrightarrow> flat (lift_res r)"
  by (auto intro!: waits_withI balanced_rules)

lemma flat_ext [flat_rules]:
  "flat (listen E d)" "flat (cancel E i)" "flat (add_emitter E e)" "flat (sized_send E s m)"
  "flat (refresh_bootstrap_plan E b start)" "flat (own_step n)"
  by (simp_all add: ext_defs refresh_bootstrap_plan_def own_step_def flat_rules)

lemma flat_queues [flat_rules]:
  "flat (event_queue_push q d)" "flat (event_queue_drain q)" "flat (receipt_queue_push q r)"
  "flat (receipt_queue_drain q)"
  unfolding event_queue_push_def event_queue_drain_def receipt_queue_push_def receipt_queue_drain_def
  by (intro flat_rules lock_free_rules balanced_rules)+

lemma flat_getters [flat_rules]:
  "flat (get_monitor_sec_state E)" "flat get_last_validated_blk_num" "flat (get_past_events a)"
  "flat (get_event_mgr_addr p)"
  unfolding get_monitor_sec_state_def get_last_validated_blk_num_def get_past_events_def get_event_mgr_addr_def
  by (auto intro!: flat_rules lock_free_rules balanced_rules split: option.split)

lemma flat_emitters [flat_rules]: "flat (run_emitter E e)"
  by (cases e) (auto intro!: flat_rules simp: emitter_handler_def subscribed_receipt_emitter_def)

lemma flat_host [flat_rules]:
  "flat (get_receipts_rlp_by_num E k)" "flat (get_latest_block_num E)" "flat (send_raw_transaction E txn)"
  unfolding get_receipts_rlp_by_num_def get_latest_block_num_def send_raw_transaction_def
  by (auto intro!: flat_rules)

lemma flat_requests [flat_rules]:
  "flat (sub_req E s msg)" "flat (receipt_sub_req E s msg)" "flat (send_raw E msg)"
  unfolding sub_req_def receipt_sub_req_def send_raw_def subreq_lookup_def subreq_listen_def subreq_respond_def
    get_notify_event_topic_def
  by (auto intro!: flat_rules split: option.split prod.split)

lemma flat_invoke [flat_rules]: "flat (invoke E i c hdr log)"
proof (cases c)
  case CbReg
  have "reg_addresses E log \<noteq> Inl (Undef (LockedTwice l H))" for l H
    by (auto simp: reg_addresses_def bind_res_def copy_to_array_def split: sum.split)
  then show ?thesis unfolding CbReg invoke.simps reg_handler_sections
    by (auto intro!: flat_rules lock_free_rules balanced_rules
        simp: reg_map_section_def reg_store_section_def reg_listen_section_def update_svc_def)
qed (auto intro!: flat_rules lock_free_rules balanced_rules simp: deploy_event_handler_def
    notify_past_event_handler_def notify_event_handler_def subscribed_receipt_handler_def update_svc_def
    split: option.split)

lemma flat_cancelling [flat_rules]: "flat m \<Longrightarrow> flat (cancelling E e m)"
  unfolding cancelling_def by (intro flat_rules)

lemma flat_task [flat_rules]: "flat (task_prog E t)"
proof -
  have listen: "flat (subreq_listen E a)" for a
    unfolding subreq_listen_def get_notify_event_topic_def by (auto intro!: flat_rules)
  have read: "flat (read_section E a x m)" for a x m
    by (cases x) (auto intro!: flat_rules simp: sec_section_def)
  have send: "flat (send_section E s m)" "flat (attach_section E e)" for s m e
    unfolding send_section_def attach_section_def by (auto intro!: flat_rules)
  have reg: "flat (reg_store_section a)" "flat (reg_listen_section E hdr p a)" for hdr p a
    unfolding reg_store_section_def reg_listen_section_def update_svc_def
    by (auto intro!: flat_rules lock_free_rules balanced_rules)
  show ?thesis
    by (cases "(E, t)" rule: task_prog.cases) (auto intro!: flat_rules listen read send reg)
qed

text \<open>The monitor and the event manager, with the closures they are given.\<close>

lemma flat_swallow: "flat m \<Longrightarrow> flat (swallow b m)"
  by (simp add: swallow_def flat_rules)

lemma flat_throws: "flat (then_throws what)"
  by (simp add: then_throws_def flat_rules split: option.split)

lemma flat_listener: "flat (call_listener (invoke E) hdr i log)"
proof (rule waits_pointwise)
  fix w
  show "\<exists>m'. call_listener (invoke E) hdr i log w = m' w \<and> flat m'"
  proof (cases "\<exists>d. listeners (history w) i = Some d \<and> log_matches d log")
    case True
    then obtain d where "listeners (history w) i = Some d" "log_matches d log" by blast
    then have "call_listener (invoke E) hdr i log w = invoke E i (ed_callback d) hdr log w"
      by (simp add: call_listener_def)
    then show ?thesis by (intro exI conjI) (assumption, rule flat_invoke)
  next
    case False
    then have "call_listener (invoke E) hdr i log w = ret () w"
      by (auto simp: call_listener_def split: option.split)
    then show ?thesis by (intro exI conjI) (assumption, rule flat_pure(1))
  qed
qed

lemma flat_check:
  assumes "runs_listeners (invoke E) chk"
  shows "flat (chk hdr (receipts_getter E))"
proof (rule waits_pointwise)
  fix w
  obtain calls what where "chk hdr (receipts_getter E) w =
      bnd (for_each calls (check_call (invoke E) hdr (receipts_getter E))) (\<lambda>_. then_throws what) w"
    using assms unfolding runs_listeners_def by blast
  moreover have "flat (check_call (invoke E) hdr (receipts_getter E) c)" for c
    by (cases c) (auto intro!: flat_rules flat_swallow flat_listener simp: receipts_getter_def)
  then have "flat (bnd (for_each calls (check_call (invoke E) hdr (receipts_getter E))) (\<lambda>_. then_throws what))"
    by (intro flat_rules flat_throws)
  ultimately show "\<exists>m'. chk hdr (receipts_getter E) w = m' w \<and> flat m'" by blast
qed

lemma flat_update:
  assumes "runs_callbacks upd" "runs_listeners (invoke E) chk"
  shows "flat (upd (on_header_validated chk E) (on_header_confirmed E) rlp)"
proof (rule waits_pointwise)
  fix w
  let ?v = "on_header_validated chk E" and ?c = "on_header_confirmed E"
  obtain calls what where "upd ?v ?c rlp w = bnd (for_each calls (monitor_call ?v ?c)) (\<lambda>_. then_throws what) w"
    using assms(1) unfolding runs_callbacks_def by blast
  moreover have "flat (?v hdr)" for hdr
    unfolding on_header_validated_alt by (auto intro!: flat_rules flat_check [OF assms(2)])
  moreover have "flat (?c hdr)" for hdr
    unfolding on_header_confirmed_def log_monitor_status_def by (auto intro!: flat_rules split: phase.split)
  ultimately have "flat (monitor_call ?v ?c a)" for a
    by (cases a) (auto intro!: flat_rules flat_swallow)
  then have "flat (bnd (for_each calls (monitor_call ?v ?c)) (\<lambda>_. then_throws what))"
    by (intro flat_rules flat_throws)
  with \<open>upd ?v ?c rlp w = _\<close> show "\<exists>m'. upd ?v ?c rlp w = m' w \<and> flat m'" by blast
qed

section \<open>The threads\<close>

lemma flat_nested_once: "flat m \<Longrightarrow> nested_once m"
  by (simp add: waits_with_def)

lemma nested_once_block:
  assumes "flat m"
  shows "nested_once (with_lock MonitorMutex m)"
proof (rule waits_withI)
  show "balanced (with_lock MonitorMutex m)" using assms by (auto simp: waits_with_def intro: balanced_rules)
  fix w l H u
  assume twice: "with_lock MonitorMutex m w = (Inl (Undef (LockedTwice l H)), u)"
  show "H = held w \<or> H = insert MonitorMutex (held w)"
  proof (cases "MonitorMutex \<in> held w")
    case True
    with twice show ?thesis by (auto simp: with_lock_twice)
  next
    case False
    let ?w = "w\<lparr>held := insert MonitorMutex (held w)\<rparr>"
    have inner: "fst (m ?w) = Inl (Undef (LockedTwice l H))"
      using twice False by (simp add: with_lock_run)
    then have "H = held ?w" using assms unfolding waits_with_def by blast
    then show ?thesis by simp
  qed
qed

text \<open>
  What a thread of the enclave runs, with the mutexes \<open>L\<close> it has at that point: the heartbeat of a connection,
  the handler of a message, the ECALL for a block, and from where they were interrupted, a part of a heartbeat, a
  request or a registration, or a closure that the event manager calls while a block is processed.
\<close>

inductive enclave_thread :: "env \<Rightarrow> lock set \<Rightarrow> (system, unit) prog \<Rightarrow> bool" for E where
  heartbeat_thread: "enclave_thread E {} (run_emitter E e)"
| message_thread: "enclave_thread E {} (bnd (handle_message E f s msg) (\<lambda>_. ret ()))"
| block_thread: "runs_callbacks upd \<Longrightarrow> runs_listeners (invoke E) chk \<Longrightarrow>
    enclave_thread E {} (bnd (ecall_decent_ethereum_recv_block upd chk E hdr_rlp) (\<lambda>_. ret ()))"
| resumed_thread: "enclave_thread E (task_locks t) (bnd (task_prog E t) (\<lambda>_. ret ()))"
| closure_thread: "enclave_thread E {MonitorMutex} (invoke E i c hdr log)"

lemma thread_nested_once:
  assumes "enclave_thread E L m"
  shows "nested_once m"
  using assms
proof cases
  case (message_thread f s msg)
  show ?thesis unfolding message_thread(2)
    by (rule flat_nested_once, cases f)
      (auto intro!: flat_rules simp: handle_pubsub_sub_req_def handle_receipt_sub_req_def handle_send_raw_def
        deref_mgr_def)
next
  case (block_thread upd chk rlp)
  have "nested_once (append_block upd chk E rlp)"
    unfolding append_block_def by (intro nested_once_block flat_update block_thread)
  moreover have "nested_once (deref_mgr p)" if "nested_once p" for p :: "(system, unit) prog"
    unfolding deref_mgr_def using that
    by (intro waits_bnd) (auto intro!: flat_nested_once flat_pure)
  ultimately have "nested_once (recv_block upd chk E rlp)" unfolding recv_block_def by blast
  then show ?thesis
    unfolding block_thread(2) ecall_decent_ethereum_recv_block_def ecall_def platform_print_def
    by (intro waits_bnd waits_try_catch) (auto intro!: flat_nested_once flat_rules)
qed (auto intro!: flat_nested_once flat_rules)

text \<open>What a thread has when it waits: the mutexes it was interrupted with, or besides that of the monitor.\<close>

lemma blocked_thread:
  assumes "enclave_thread E L m" "blocked m (w\<lparr>held := L\<rparr>) l H"
  shows "H \<subseteq> {MonitorMutex} \<and> (l = MonitorMutex \<longrightarrow> H = {})"
proof -
  have L: "L \<subseteq> {MonitorMutex}" using assms(1) task_locks_cases by cases auto
  have l: "l \<notin> L" "l \<notin> H" using assms(2) by (simp_all add: blocked_def)
  let ?w = "w\<lparr>held := insert l L\<rparr>"
  have "fst (m ?w) = Inl (Undef (LockedTwice l (insert l H)))"
    using assms(2) by (simp add: blocked_def)
  then have "insert l H = held ?w \<or> insert l H = insert MonitorMutex (held ?w)"
    using thread_nested_once [OF assms(1)] unfolding waits_with_def by blast
  then have "H \<subseteq> insert MonitorMutex L" "l = MonitorMutex \<Longrightarrow> H \<subseteq> L"
    using l by (auto simp: insert_ident)
  with L l show ?thesis by blast
qed
section \<open>Properties\<close>

text \<open>C7: no deadlock: take any threads of the enclave, each a heartbeat, a message handler, the ECALL for a block,
a resumed part of one of these or a closure that runs while a block is processed, all of them waiting for a mutex in
the same state, and \<open>H\<close> the mutexes that a thread has while it waits for \<open>l\<close>. A thread that waits has no mutex
but that of the monitor, and none when it waits for that one; so they never wait for each other in a cycle: at
least one of them waits for a mutex that none of them has.\<close>

theorem no_deadlock:
  assumes "T \<noteq> {}"
    and "\<forall>(m, L, l, H) \<in> T. enclave_thread E L m \<and> blocked m (w\<lparr>held := L\<rparr>) l H"
  shows "(\<forall>(m, L, l, H) \<in> T. H \<subseteq> {MonitorMutex} \<and> (l = MonitorMutex \<longrightarrow> H = {})) \<and>
    (\<exists>(m, L, l, H) \<in> T. \<forall>(m', L', l', H') \<in> T. l \<notin> H')"
proof -
  have each: "H \<subseteq> {MonitorMutex}" "l = MonitorMutex \<Longrightarrow> H = {}" if "(m, L, l, H) \<in> T" for m L l H
    using assms(2) blocked_thread that by fast+
  then have "\<forall>(m, L, l, H) \<in> T. H \<subseteq> {MonitorMutex} \<and> (l = MonitorMutex \<longrightarrow> H = {})" by fast
  moreover have "\<exists>(m, L, l, H) \<in> T. \<forall>(m', L', l', H') \<in> T. l \<notin> H'"
  proof (cases "\<exists>(m, L, l, H) \<in> T. l \<noteq> MonitorMutex")
    case True
    then obtain m L l H where "(m, L, l, H) \<in> T" "l \<noteq> MonitorMutex" by blast
    with each show ?thesis by fast
  next
    case False
    obtain m L l H where "(m, L, l, H) \<in> T" using assms(1) by (metis ex_in_conv prod_cases4)
    moreover have "H' = {}" if "(m', L', l', H') \<in> T" for m' L' l' H'
    proof -
      have "l' = MonitorMutex" using False that by auto
      then show ?thesis by (rule each(2) [OF that])
    qed
    ultimately show ?thesis by fastforce
  qed
  ultimately show ?thesis ..
qed

text \<open>A heartbeat waits for the mutex of the monitor, whose owner waits for that of the past events.\<close>

theorem no_deadlock_witness:
  "let beat = run_emitter example_env (EventEmitter 3 0 2);
       notify = invoke example_env 2 CbNotifyPast example_header example_notify_log;
       T = {(beat, {}, MonitorMutex, {}), (notify, {MonitorMutex}, PastEventStoreMutex, {MonitorMutex})} in
     enclave_thread example_env {} beat \<and> enclave_thread example_env {MonitorMutex} notify \<and>
     blocked beat (example_registered\<lparr>held := {}\<rparr>) MonitorMutex {} \<and>
     blocked notify (example_registered\<lparr>held := {MonitorMutex}\<rparr>) PastEventStoreMutex {MonitorMutex} \<and>
     (\<exists>(m, L, l, H) \<in> T. \<forall>(m', L', l', H') \<in> T. l \<notin> H')"
proof -
  let ?beat = "run_emitter example_env (EventEmitter 3 0 2)"
  let ?notify = "invoke example_env 2 CbNotifyPast example_header example_notify_log"
  let ?T = "{(?beat, {}, MonitorMutex, {}), (?notify, {MonitorMutex}, PastEventStoreMutex, {MonitorMutex})}"
  have beat: "blocked ?beat (example_registered\<lparr>held := {}\<rparr>) MonitorMutex {}"
    by (simp add: blocked_def emitter_handler_def prog_run get_monitor_sec_state_def with_lock_twice try_catch_def
        event_queue_drain_run)
  have notify: "blocked ?notify (example_registered\<lparr>held := {MonitorMutex}\<rparr>) PastEventStoreMutex {MonitorMutex}"
    by (simp add: blocked_def notify_past_event_handler_def prog_run with_lock_twice insert_commute)
  have all: "\<forall>(m, L, l, H) \<in> ?T. enclave_thread example_env L m \<and> blocked m (example_registered\<lparr>held := L\<rparr>) l H"
    using beat notify heartbeat_thread closure_thread by (simp del: run_emitter.simps invoke.simps)
  show ?thesis unfolding Let_def
    by (intro conjI heartbeat_thread closure_thread beat notify no_deadlock [OF insert_not_empty all, THEN conjunct2])
qed

end
