(* ===== verification/PubsubSpec.thy ===== *)
theory PubsubSpec
  imports Delivery
begin

text \<open>
  What the event service promises, without queues in a heap, mutexes, listeners and tasks: an
  abstract service knows which publisher has which event manager, the list of events each manager has
  published, and the events that wait for each subscription. It moves by guarded actions. The system of
  \<open>PubsubSystem\<close> refines it: every step of a reachable state is the action its label names, and the
  public methods answer what the abstract service says.
\<close>

section \<open>The abstract service\<close>

record spec =
  deployed :: bool
  managers :: "bytes \<rightharpoonup> bytes"
  published :: "bytes \<rightharpoonup> event_data_queue"
  waiting :: "qref \<Rightarrow> event_data_queue"

definition spec_init :: spec where
  "spec_init = \<lparr>deployed = False, managers = Map.empty, published = Map.empty, waiting = (\<lambda>_. [])\<rparr>"

datatype spec_action =
    Idle
  | Deploy
  | Announce bytes bytes
  | Open bytes
  | Publish bytes event_data
  | Queue qref event_data
  | Take qref event_data_queue

text \<open>\<open>None\<close>: the action is not enabled.\<close>

fun spec_next :: "spec_action \<Rightarrow> spec \<Rightarrow> spec option" where
  "spec_next Idle s = Some s"
| "spec_next Deploy s = Some (s\<lparr>deployed := True\<rparr>)"
| "spec_next (Announce p a) s =
     (if deployed s then Some (s\<lparr>managers := (managers s)(p \<mapsto> a)\<rparr>) else None)"
| "spec_next (Open a) s =
     (if deployed s then Some (s\<lparr>published := emplace a [] (published s)\<rparr>) else None)"
| "spec_next (Publish a e) s =
     (case published s a of
        None \<Rightarrow> None
      | Some evs \<Rightarrow> Some (s\<lparr>published := (published s)(a \<mapsto> evs @ [e])\<rparr>))"
| "spec_next (Queue q e) s = Some (s\<lparr>waiting := (waiting s)(q := waiting s q @ [e])\<rparr>)"
| "spec_next (Take q evs) s =
     (if waiting s q = evs then Some (s\<lparr>waiting := (waiting s)(q := [])\<rparr>) else None)"

fun spec_run :: "spec_action list \<Rightarrow> spec \<Rightarrow> spec option" where
  "spec_run [] s = Some s"
| "spec_run (a # as) s = (case spec_next a s of None \<Rightarrow> None | Some t \<Rightarrow> spec_run as t)"

section \<open>What a step means\<close>

definition event_of :: "env \<Rightarrow> header \<Rightarrow> log_entry \<Rightarrow> event_data option" where
  "event_of E hdr log =
     (case abi_bytes E (log_data log) of
        Inl e \<Rightarrow> None
      | Inr (msg, rest) \<Rightarrow> Some [raw_number hdr, msg])"

fun action_of :: "env \<Rightarrow> label \<Rightarrow> spec_action" where
  "action_of E Silent = Idle"
| "action_of E (Drains q evs) = Take q evs"
| "action_of E (Opens a) = Open a"
| "action_of E (Delivers CbDeploy hdr log) = Deploy"
| "action_of E (Delivers CbReg hdr log) =
     (case reg_addresses E log of Inl e \<Rightarrow> Idle | Inr (p, a) \<Rightarrow> Announce p a)"
| "action_of E (Delivers CbNotifyPast hdr log) =
     (case event_of E hdr log of None \<Rightarrow> Idle | Some e \<Rightarrow> Publish (contract_addr log) e)"
| "action_of E (Delivers (CbNotify q logger) hdr log) =
     (case event_of E hdr log of None \<Rightarrow> Idle | Some e \<Rightarrow> Queue q e)"
| "action_of E (Delivers (CbReceipt q logger) hdr log) = Idle"

definition abs_spec :: "system \<Rightarrow> spec" where
  "abs_spec w = \<lparr>deployed = is_deployed (svc w), managers = ev_mgr_addr_map (svc w),
     published = (\<lambda>a. map_option (\<lambda>_. past_events w a) (past_event_store (svc w) a)),
     waiting = (\<lambda>q. if sub_queue w q then evqs w ! q else [])\<rparr>"

lemma abs_spec_simps [simp]:
  "deployed (abs_spec w) = is_deployed (svc w)" "managers (abs_spec w) = ev_mgr_addr_map (svc w)"
  "published (abs_spec w) a = map_option (\<lambda>_. past_events w a) (past_event_store (svc w) a)"
  by (simp_all add: abs_spec_def)

lemma waiting_abs: "waiting (abs_spec w) q = (if sub_queue w q then evqs w ! q else [])"
  by (simp add: abs_spec_def)

lemma notified_event: "notified E hdr log = (case event_of E hdr log of None \<Rightarrow> [] | Some e \<Rightarrow> [e])"
  by (auto simp: notified_def event_of_def split: sum.split prod.split)

section \<open>What a step does to the service\<close>

fun svc_after :: "env \<Rightarrow> label \<Rightarrow> system \<Rightarrow> pubsub_store" where
  "svc_after E (Delivers CbDeploy hdr log) w = (svc w)\<lparr>is_deployed := True\<rparr>"
| "svc_after E (Delivers CbReg hdr log) w =
     (case reg_addresses E log of
        Inl e \<Rightarrow> svc w
      | Inr (p, a) \<Rightarrow> (svc w)\<lparr>ev_mgr_addr_map := (ev_mgr_addr_map (svc w))(p \<mapsto> a)\<rparr>)"
| "svc_after E (Opens a) w =
     (svc w)\<lparr>past_event_store := emplace a (length (evqs w)) (past_event_store (svc w))\<rparr>"
| "svc_after E _ w = svc w"

text \<open>What the invariant gives a step of each label.\<close>

fun enabled :: "label \<Rightarrow> system \<Rightarrow> bool" where
  "enabled (Delivers CbReg hdr log) w = is_deployed (svc w)"
| "enabled (Delivers CbNotifyPast hdr log) w = (past_event_store (svc w) (contract_addr log) \<noteq> None)"
| "enabled (Delivers (CbNotify q logger) hdr log) w = sub_queue w q"
| "enabled (Opens a) w = is_deployed (svc w)"
| "enabled (Drains q evs) w = (sub_queue w q \<and> evs = evqs w ! q)"
| "enabled _ w = True"

lemma invoke_svc:
  assumes "sys_inv w" "listeners (history w) i = Some d" "log_matches d log" "ed_callback d \<noteq> CbReg"
    and "invoke E i (ed_callback d) hdr log (in_monitor w) = (r, u)"
  shows "enabled (Delivers (ed_callback d) hdr log) w \<and> svc u = svc_after E (Delivers (ed_callback d) hdr log) w"
proof -
  have cb: "cb_inv w d (ed_callback d)" and valid: "past_refs_valid w"
    using assms(1,2) by (auto simp: sys_inv_def store_inv_def)
  show ?thesis
  proof (cases "ed_callback d")
    case CbDeploy
    with assms(5) have "deploy_event_handler E hdr i (in_monitor w) = (r, u)" by simp
    from deploy_outcome [OF this] CbDeploy show ?thesis by simp
  next
    case CbReg
    with assms(4) show ?thesis by simp
  next
    case CbNotifyPast
    with assms(5) have "notify_past_event_handler E hdr log (in_monitor w) = (r, u)" by simp
    from notify_past_outcome(2) [OF _ _ this] valid cb CbNotifyPast assms(3) show ?thesis
      by (auto simp: log_matches_def)
  next
    case (CbNotify q logger)
    with assms(5) have "notify_event_handler E q logger hdr log (in_monitor w) = (r, u)" by simp
    from notify_outcome(2) [OF _ _ this] cb CbNotify show ?thesis by (simp add: sub_queue_def)
  next
    case (CbReceipt q logger)
    with assms(5) have "subscribed_receipt_handler q logger hdr log (in_monitor w) = (r, u)" by simp
    from receipt_outcome(2) [OF _ _ this] cb CbReceipt show ?thesis by simp
  qed
qed

lemma reg_callback:
  assumes "sys_inv w" "listeners (history w) i = Some d" "ed_callback d = CbReg"
  shows "is_deployed (svc w)"
  using assms by (force simp: sys_inv_def)

lemma quiet_svc_snd: "guar quiet m \<Longrightarrow> svc (snd (m w)) = svc w"
  by (metis guarD prod.collapse quiet_def)

lemma task_svc:
  assumes "sys_inv w" "t \<in> set (tasks w)" "task_prog E t (w\<lparr>held := task_locks t\<rparr>) = (r, u)"
  shows "enabled (task_label t) w \<and> svc u = svc_after E (task_label t) w"
proof -
  have idle: "w\<lparr>held := {}\<rparr> = w" using assms(1) by (simp add: sys_inv_def)
  show ?thesis
  proof (cases t)
    case (RListen s a order)
    with assms(3) idle show ?thesis by (auto simp: prog_run Let_def split: sum.splits)
  next
    case (RAttach e)
    with assms(3) idle show ?thesis
      by (auto simp: attach_section_def add_emitter_def prog_run split: sum.splits)
  next
    case (GStore hdr p a)
    with assms(1,2) have "is_deployed (svc w)" by (force simp: sys_inv_def)
    with GStore assms(3) show ?thesis by (auto simp: in_monitor_alt reg_store_run bnd_run)
  next
    case (GListen hdr p a)
    then obtain q where "reg_listen_section E hdr p a (in_monitor w) = (q, u)"
      using assms(3) by (auto simp: in_monitor_alt bnd_run split: prod.splits sum.splits)
    from reg_listen_outcome(2) [OF this] GListen show ?thesis by simp
  qed (use assms(3) idle guarD [OF guar_quiet_task, of t E w r u] in \<open>simp_all add: quiet_def\<close>)
qed

lemma step_svc:
  assumes "sys_step E w l u" "sys_inv w"
  shows "enabled l w \<and> svc u = svc_after E l w"
  using assms(1)
proof cases
  case (step_notify i d log hdr)
  then show ?thesis using invoke_svc [OF assms(2) step_notify(3-5) surjective_pairing] by simp
next
  case (step_reg i d log p a v hdr)
  then show ?thesis using reg_callback [OF assms(2) step_reg(3,5)] by (auto simp: reg_map_run)
next
  case (step_reg_malformed i d log e hdr)
  then show ?thesis using reg_callback [OF assms(2) step_reg_malformed(3,5)] by simp
next
  case (step_take e load v order)
  then have em: "em_inv w e" "held w = {}" using assms(2) by (auto simp: sys_inv_def)
  with step_take take_outcome(1) [OF em step_take(4)] show ?thesis
    by (cases e) (auto simp: prog_run sub_queue_def)
next
  case (step_lookup msg p a v order s)
  then show ?thesis using guarD [OF quiet_sections(1) step_lookup(3)] by (simp add: quiet_def)
next
  case (step_receipt_listen msg addr topics r v s)
  then show ?thesis by (auto simp: receipt_listen_section_def prog_run listen_def split: sum.splits)
next
  case (step_task t r v)
  then show ?thesis using task_svc [OF assms(2) step_task(3,4)] by simp
qed (simp_all add: quiet_svc_snd quiet_block)

section \<open>The refinement\<close>

lemma waiting_after:
  assumes "sys_ext w u" "accounted E l w u"
  shows "drained q l @ waiting (abs_spec u) q
    = waiting (abs_spec w) q @ (if sub_queue w q then queue_gain E q l else drained q l)"
proof -
  have "sub_queue u q" if "sub_queue w q" using assms(1) that by (rule sys_ext_sub_queue)
  moreover have "evqs u ! q = []" if "sub_queue u q" "\<not> sub_queue w q"
  proof -
    have "length (evqs w) \<le> q"
    proof (rule ccontr)
      assume "\<not> length (evqs w) \<le> q"
      with that(2) obtain a where "past_event_store (svc w) a = Some q" by (auto simp: sub_queue_def)
      with assms(1) have "past_event_store (svc u) a = Some q" by (auto simp: sys_ext_def map_le_def dom_def)
      with that(1) show False by (simp add: sub_queue_def)
    qed
    with assms(2) that(1) show ?thesis by (simp add: accounted_def sub_queue_def)
  qed
  ultimately show ?thesis using assms(2) by (auto simp: accounted_def waiting_abs)
qed

lemma spec_eqI:
  fixes s t :: spec
  assumes "deployed s = deployed t" "managers s = managers t" "\<And>a. published s a = published t a"
    and "\<And>q. waiting s q = waiting t q"
  shows "s = t"
  using assms by (cases s; cases t) (simp add: fun_eq_iff)

text \<open>The two laws that say how a step changes an abstract state, and the cases of the refinement.\<close>

lemma abs_same:
  assumes "svc u = svc w" "\<And>a. past_events u a = past_events w a"
    and "\<And>q. waiting (abs_spec u) q = waiting (abs_spec w) q"
  shows "abs_spec u = abs_spec w"
  by (rule spec_eqI) (simp_all add: assms)

lemma refines_announcement:
  assumes "past_events u = past_events w" "is_deployed (svc w)"
    and "svc u = (svc w)\<lparr>ev_mgr_addr_map := (ev_mgr_addr_map (svc w))(p \<mapsto> a)\<rparr>"
    and "waiting (abs_spec u) = waiting (abs_spec w)"
  shows "spec_next (Announce p a) (abs_spec w) = Some (abs_spec u)"
proof -
  have "abs_spec u = (abs_spec w)\<lparr>managers := (managers (abs_spec w))(p \<mapsto> a)\<rparr>"
    by (rule spec_eqI) (simp_all add: assms)
  with assms(2) show ?thesis by simp
qed

lemma refines_opening:
  assumes "past_events u = past_events w" "is_deployed (svc w)"
    and "svc u = (svc w)\<lparr>past_event_store := emplace a q (past_event_store (svc w))\<rparr>"
    and "waiting (abs_spec u) = waiting (abs_spec w)"
  shows "spec_next (Open a) (abs_spec w) = Some (abs_spec u)"
proof -
  have "abs_spec u = (abs_spec w)\<lparr>published := emplace a [] (published (abs_spec w))\<rparr>"
    by (rule spec_eqI) (simp_all add: assms emplace_apply past_events_def)
  with assms(2) show ?thesis by simp
qed

lemma refines_publish:
  assumes "svc u = svc w" "past_event_store (svc w) a \<noteq> None"
    and "\<And>b. past_events u b = past_events w b @ (if a = b then [e] else [])"
    and "waiting (abs_spec u) = waiting (abs_spec w)"
  shows "spec_next (Publish a e) (abs_spec w) = Some (abs_spec u)"
proof -
  have "abs_spec u = (abs_spec w)\<lparr>published := (published (abs_spec w))(a \<mapsto> past_events w a @ [e])\<rparr>"
    by (rule spec_eqI) (use assms in auto)
  with assms(2) show ?thesis by auto
qed

lemma step_refines:
  assumes "sys_step E w l u" "sys_inv w"
  shows "spec_next (action_of E l) (abs_spec w) = Some (abs_spec u)"
proof -
  have ext: "sys_ext w u" and acc: "accounted E l w u" using step_account [OF assms] by blast+
  have en: "enabled l w" and svc: "svc u = svc_after E l w" using step_svc [OF assms] by blast+
  have pub: "\<And>a. past_events u a = past_events w a @ past_gain E a l"
    using acc by (simp add: accounted_def)
  note wait = waiting_after [OF ext acc]
  have calm: "waiting (abs_spec u) = waiting (abs_spec w)"
    if "\<And>q. queue_gain E q l = []" "\<And>q. drained q l = []"
    using wait that by (simp add: fun_eq_iff)
  have idle: "abs_spec u = abs_spec w" if "svc u = svc w" "\<And>a. past_gain E a l = []"
    "\<And>q. queue_gain E q l = []" "\<And>q. drained q l = []"
    by (rule abs_same) (use that calm pub in simp_all)
  show ?thesis
  proof (cases l)
    case (Opens a)
    with svc en pub calm show ?thesis by (auto simp del: spec_next.simps(4) intro!: refines_opening)
  next
    case (Drains q evs)
    with en have w: "sub_queue w q" "waiting (abs_spec w) q = evs" by (simp_all add: waiting_abs)
    have "waiting (abs_spec u) p = (if p = q then [] else waiting (abs_spec w) p)" for p
      using wait [of p] w Drains by (auto split: if_splits)
    with svc pub Drains have "abs_spec u = (abs_spec w)\<lparr>waiting := (waiting (abs_spec w))(q := [])\<rparr>"
      by (intro spec_eqI) simp_all
    with Drains w show ?thesis by simp
  next
    case (Delivers c hdr log)
    show ?thesis
    proof (cases c)
      case CbDeploy
      have "abs_spec u = (abs_spec w)\<lparr>deployed := True\<rparr>"
        using svc pub calm Delivers CbDeploy by (intro spec_eqI) (simp_all add: past_events_def)
      with Delivers CbDeploy show ?thesis by simp
    next
      case CbReg
      with Delivers svc en pub calm idle show ?thesis
        by (cases "reg_addresses E log") (auto simp del: spec_next.simps(3) intro!: refines_announcement)
    next
      case CbNotifyPast
      with Delivers svc en pub calm idle show ?thesis
        by (cases "event_of E hdr log") (simp_all add: refines_publish notified_event del: spec_next.simps(5))
    next
      case (CbNotify q logger)
      show ?thesis
      proof (cases "event_of E hdr log")
        case (Some e)
        then have "abs_spec u = (abs_spec w)\<lparr>waiting := (waiting (abs_spec w))(q := waiting (abs_spec w) q @ [e])\<rparr>"
          using svc en pub wait Delivers CbNotify by (intro spec_eqI) (simp_all add: notified_event)
        with Delivers CbNotify Some show ?thesis by simp
      qed (use Delivers CbNotify svc idle in \<open>simp add: notified_event\<close>)
    next
      case (CbReceipt q logger)
      with Delivers svc idle show ?thesis by simp
    qed
  qed (use svc idle in simp)
qed

lemma run_refines:
  assumes "sys_run E w ls u" "sys_inv w"
  shows "spec_run (map (action_of E) ls) (abs_spec w) = Some (abs_spec u)"
  using assms
  by (induction rule: sys_run.induct) (simp_all add: step_refines step_keeps_inv)

lemma abs_initialised: "initialised E w \<Longrightarrow> abs_spec w = spec_init"
  using initialised_state [of E w]
  by (intro spec_eqI) (auto simp: sys_inv_def store_inv_def spec_init_def waiting_abs sub_queue_def)

lemma service_follows_spec:
  assumes "initialised E v" "sys_run E v ls w"
  shows "spec_run (map (action_of E) ls) spec_init = Some (abs_spec w) \<and> sys_inv w"
  using run_refines [OF assms(2) initialised_inv [OF assms(1)]] abs_initialised [OF assms(1)]
    run_keeps_inv [OF assms(2) initialised_inv [OF assms(1)]]
  by simp

lemma spec_lookup:
  assumes "sys_inv w"
  shows "get_event_mgr_addr p w
    = (Inr (case managers (abs_spec w) p of None \<Rightarrow> zero_addr | Some a \<Rightarrow> a), w)"
  using assms by (simp add: sys_inv_def get_event_mgr_addr_run)

lemma spec_past_events:
  assumes "sys_inv w"
  shows "get_past_events a w
    = (Inr (case published (abs_spec w) a of None \<Rightarrow> [] | Some evs \<Rightarrow> evs), w)"
  using inv_past_events [OF assms] by (simp add: past_events_def split: option.split)

section \<open>Subscribers do not matter to the service\<close>

fun service_action :: "spec_action \<Rightarrow> bool" where
  "service_action Deploy = True"
| "service_action (Announce p a) = True"
| "service_action (Open a) = True"
| "service_action (Publish a e) = True"
| "service_action _ = False"

fun service_label :: "label \<Rightarrow> bool" where
  "service_label (Delivers CbDeploy hdr log) = True"
| "service_label (Delivers CbReg hdr log) = True"
| "service_label (Delivers CbNotifyPast hdr log) = True"
| "service_label (Opens a) = True"
| "service_label _ = False"

definition same_service :: "spec \<Rightarrow> spec \<Rightarrow> bool" where
  "same_service s t \<longleftrightarrow> deployed s = deployed t \<and> managers s = managers t \<and> published s = published t"

lemma other_labels: "\<not> service_label l \<Longrightarrow> \<not> service_action (action_of E l)"
  by (cases l rule: service_label.cases) (auto split: option.split sum.split prod.split)

lemma service_step:
  assumes "spec_next a s = Some t" "same_service s s'"
  shows "if service_action a then \<exists>t'. spec_next a s' = Some t' \<and> same_service t t' else same_service t s'"
  using assms by (cases a) (auto simp: same_service_def split: if_splits option.splits)

lemma service_run:
  "spec_run as s = Some t \<Longrightarrow> same_service s s' \<Longrightarrow>
     \<exists>t'. spec_run (filter service_action as) s' = Some t' \<and> same_service t t'"
proof (induction as arbitrary: s s')
  case (Cons a as)
  then obtain u where "spec_next a s = Some u" "spec_run as u = Some t"
    by (auto split: option.splits)
  with service_step [OF this(1) Cons.prems(2)] Cons.IH [of u] show ?case
    by (auto split: if_splits)
qed simp

lemma service_actions:
  "filter service_action (map (action_of E) (filter service_label ls))
     = filter service_action (map (action_of E) ls)"
  by (induction ls) (auto simp: other_labels)

section \<open>A concrete run\<close>

definition example_labels :: "label list" where
  "example_labels =
     [Delivers CbDeploy example_header example_deploy_log, Delivers CbReg example_header example_reg_log,
      Opens (replicate 20 2), Silent, Silent, Silent,
      Delivers CbNotifyPast example_header example_notify_log,
      Delivers (CbNotify 1 ''Event Manager @hex'') example_header example_notify_log]"

lemma example_run: "sys_run example_env example_started example_labels example_both_seen"
proof -
  have "sys_run example_env example_registered [Silent, Silent] example_listening"
    using example_lookup example_asked by (blast intro: sys_run.intros)
  from sys_run_append [OF this example_delivery] show ?thesis
    using example_steps by (auto simp: example_labels_def intro: sys_run.intros)
qed

lemma example_actions:
  "map (action_of example_env) example_labels =
     [Deploy, Announce (replicate 20 1) (replicate 20 2), Open (replicate 20 2), Idle, Idle, Idle,
      Publish (replicate 20 2) [[7], [1, 2, 3]], Queue 1 [[7], [1, 2, 3]]]"
  by (simp add: example_labels_def reg_addresses_def copy_to_array_def event_of_def example_reg_log_def
      example_notify_log_def example_header_def)

text \<open>The same without a subscriber.\<close>

definition example_unsubscribed :: system where
  "example_unsubscribed = unlocked (snd (invoke example_env 2 CbNotifyPast example_header
     example_notify_log (in_monitor example_registered)))"

lemma example_unsubscribed_run:
  "sys_run example_env example_started
     [Delivers CbDeploy example_header example_deploy_log, Delivers CbReg example_header example_reg_log,
      Opens (replicate 20 2), Silent, Delivers CbNotifyPast example_header example_notify_log] example_unsubscribed"
proof -
  let ?past = "build_notify_past_event_descr (replicate 20 2) (svc example_started)"
  have "sys_step example_env example_registered (Delivers (ed_callback ?past) example_header example_notify_log)
      (unlocked (snd (invoke example_env 2 (ed_callback ?past) example_header example_notify_log
        (in_monitor example_registered))))"
    by (rule step_notify) (simp_all add: log_matches_def example_notify_log_def build_notify_past_event_descr_def)
  then have "sys_step example_env example_registered
      (Delivers CbNotifyPast example_header example_notify_log) example_unsubscribed"
    by (simp add: build_notify_past_event_descr_def example_unsubscribed_def)
  with example_steps show ?thesis by (blast intro: sys_run.intros)
qed

section \<open>Properties\<close>

text \<open>C2: the system refines the abstract service: from its initialisation on, whatever the threads,
the libraries and the host do, the actions that the labels of a run name are enabled in the abstract
service one after another, and its state then says what the real one answers and holds: the manager of
every publisher, the past events of every manager, the deployment flag, the queue of every
subscription.\<close>

theorem system_refines_spec:
  assumes "initialised E v" "sys_run E v ls w"
  shows "\<exists>s. spec_run (map (action_of E) ls) spec_init = Some s \<and> is_deployed (svc w) = deployed s \<and>
    (\<forall>p. get_event_mgr_addr p w = (Inr (case managers s p of None \<Rightarrow> zero_addr | Some a \<Rightarrow> a), w)) \<and>
    (\<forall>a. get_past_events a w = (Inr (case published s a of None \<Rightarrow> [] | Some evs \<Rightarrow> evs), w)) \<and>
    (\<forall>e s' q i. EmitterAdded (EventEmitter s' q i) \<in> set (history w) \<longrightarrow>
       event_queue_contents w q = waiting s q)"
proof -
  have run: "spec_run (map (action_of E) ls) spec_init = Some (abs_spec w)" and inv: "sys_inv w"
    using service_follows_spec [OF assms] by blast+
  have "event_queue_contents w q = waiting (abs_spec w) q"
    if "EmitterAdded (EventEmitter s' q i) \<in> set (history w)" for s' q i
    using that inv by (force simp: sys_inv_def waiting_abs event_queue_contents_def sub_queue_def)
  with run spec_lookup [OF inv] spec_past_events [OF inv] show ?thesis by auto
qed

theorem system_refines_spec_witness:
  "is_deployed (svc example_both_seen) \<and>
   get_event_mgr_addr (replicate 20 1) example_both_seen = (Inr (replicate 20 2), example_both_seen) \<and>
   get_past_events (replicate 20 2) example_both_seen = (Inr [[[7], [1, 2, 3]]], example_both_seen)"
  using system_refines_spec [OF example_initialised example_run]
  by (auto simp: example_actions spec_init_def)

text \<open>C9: the service is not influenced by its subscribers: in two runs in which the service's own
listeners are called for the same log entries in the same order, whatever subscriptions, heartbeats,
receipts, transactions and failures happen in between, and however the connections behave, every
lookup and every list of past events is the same.\<close>

theorem subscribers_do_not_interfere:
  assumes "initialised E v" "sys_run E v ls w" "initialised E v'" "sys_run E v' ls' w'"
    and "filter service_label ls = filter service_label ls'"
  shows "fst (get_event_mgr_addr p w) = fst (get_event_mgr_addr p w') \<and>
    fst (get_past_events a w) = fst (get_past_events a w') \<and> is_deployed (svc w) = is_deployed (svc w')"
proof -
  note w = service_follows_spec [OF assms(1,2)] and w' = service_follows_spec [OF assms(3,4)]
  have refl: "same_service spec_init spec_init" by (simp add: same_service_def)
  have "filter service_action (map (action_of E) ls) = filter service_action (map (action_of E) ls')"
    using service_actions [of E ls] service_actions [of E ls'] assms(5) by simp
  with service_run [OF conjunct1 [OF w] refl] service_run [OF conjunct1 [OF w'] refl]
  have "same_service (abs_spec w) (abs_spec w')" by (auto simp: same_service_def)
  then show ?thesis
    using w w' by (simp add: spec_lookup spec_past_events same_service_def fun_eq_iff)
qed

theorem subscribers_do_not_interfere_witness:
  "fst (get_past_events (replicate 20 2) example_both_seen) =
   fst (get_past_events (replicate 20 2) example_unsubscribed)"
  using subscribers_do_not_interfere [OF example_initialised example_run
      example_initialised example_unsubscribed_run]
  by (simp add: example_labels_def)

end
