(* ===== verification/Registrations.thy ===== *)
theory Registrations
  imports PubsubSpec
begin

text \<open>
  A registration event enters a publisher's manager into one map and its store of past events into another,
  in two critical sections. Other threads can look up the manager in between; this is the only time at
  which a registered manager has no store.
\<close>

definition managers_stored :: "system \<Rightarrow> bool" where
  "managers_stored w \<longleftrightarrow> (\<forall>p a. ev_mgr_addr_map (svc w) p = Some a \<longrightarrow>
     past_event_store (svc w) a \<noteq> None \<or> (\<exists>hdr p'. GStore hdr p' a \<in> set (tasks w)))"

lemma store_stays:
  assumes "sys_step E w l u" "sys_inv w" "past_event_store (svc w) a \<noteq> None"
  shows "past_event_store (svc u) a \<noteq> None"
  using step_svc [OF assms(1,2)] assms(3)
  by (cases "(E, l, w)" rule: svc_after.cases) (auto simp: emplace_apply split: sum.splits)

text \<open>A pending store is opened by the step that ends its task.\<close>

lemma store_opened:
  assumes "sys_step E w l u" "sys_inv w" "GStore hdr p a \<in> set (tasks w)"
  shows "GStore hdr p a \<in> set (tasks u) \<or> past_event_store (svc u) a \<noteq> None"
  using step_tasks [OF assms(1)]
proof
  assume "\<exists>new. tasks u = new @ tasks w"
  with assms(3) show ?thesis by auto
next
  assume "\<exists>t r. t \<in> set (tasks w) \<and> l = task_label t \<and> (\<exists>v. task_prog E t (w\<lparr>held := task_locks t\<rparr>) = (r, v)) \<and>
      tasks u = (case r of Inl e \<Rightarrow> [] | Inr ts \<Rightarrow> ts) @ remove1 t (tasks w)"
  then obtain t and r :: "task list res" where t: "l = task_label t" "tasks u = (case r of Inl e \<Rightarrow> [] | Inr ts \<Rightarrow> ts) @ remove1 t (tasks w)"
    by blast
  show ?thesis
  proof (cases "t = GStore hdr p a")
    case True
    with t(1) step_svc [OF assms(1,2)] show ?thesis by (simp add: emplace_apply)
  next
    case False
    then have "GStore hdr p a \<in> set (remove1 t (tasks w))" using assms(3) by simp
    then have "GStore hdr p a \<in> set (tasks u)" by (simp add: t(2))
    then show ?thesis by blast
  qed
qed

text \<open>A new entry of the map of managers has its store pending.\<close>

lemma manager_entered:
  assumes "sys_step E w l u" "sys_inv w" "ev_mgr_addr_map (svc u) p = Some a"
  shows "ev_mgr_addr_map (svc w) p = Some a \<or> (\<exists>hdr p'. GStore hdr p' a \<in> set (tasks u))"
proof (cases "\<exists>hdr log. l = Delivers CbReg hdr log")
  case False
  then show ?thesis
    using step_svc [OF assms(1,2)] assms(3) by (cases "(E, l, w)" rule: svc_after.cases) auto
next
  case True
  then obtain hdr log where l: "l = Delivers CbReg hdr log" by blast
  show ?thesis
    using assms(1)
  proof cases
    case (step_notify i d log hdr)
    with l show ?thesis by simp
  next
    case (step_reg i d log' p' a' v hdr')
    then have u: "ev_mgr_addr_map (svc u) = (ev_mgr_addr_map (svc w))(p' \<mapsto> a')" "GStore hdr' p' a' \<in> set (tasks u)"
      by (auto simp: reg_map_run)
    show ?thesis
    proof (cases "p = p'")
      case True
      with u assms(3) have "GStore hdr' p' a \<in> set (tasks u)" by simp
      then show ?thesis by blast
    qed (use u assms(3) in simp)
  next
    case (step_task t r v)
    with l show ?thesis by (cases t) simp_all
  next
    case (step_take e load v order)
    with l show ?thesis by (cases "(e, load)" rule: take_label.cases) simp_all
  qed (use l assms(3) in simp_all)
qed

lemma step_keeps_stored:
  assumes "sys_step E w l u" "sys_inv w" "managers_stored w"
  shows "managers_stored u"
  unfolding managers_stored_def
proof (intro allI impI)
  fix p a
  assume "ev_mgr_addr_map (svc u) p = Some a"
  from manager_entered [OF assms(1,2) this] consider "ev_mgr_addr_map (svc w) p = Some a"
    | "\<exists>hdr p'. GStore hdr p' a \<in> set (tasks u)" by blast
  then show "past_event_store (svc u) a \<noteq> None \<or> (\<exists>hdr p'. GStore hdr p' a \<in> set (tasks u))"
  proof cases
    case 1
    with assms(3) consider "past_event_store (svc w) a \<noteq> None"
      | hdr p' where "GStore hdr p' a \<in> set (tasks w)" unfolding managers_stored_def by blast
    then show ?thesis
      using store_stays [OF assms(1,2)] store_opened [OF assms(1,2)] by cases blast+
  qed blast
qed

lemma run_keeps_stored: "sys_run E w ls u \<Longrightarrow> sys_inv w \<Longrightarrow> managers_stored w \<Longrightarrow> managers_stored u"
  by (induction rule: sys_run.induct) (blast intro: step_keeps_stored step_keeps_inv)+

lemma reachable_stored:
  assumes "reachable E w"
  shows "managers_stored w"
proof -
  obtain v ls where init: "initialised E v" and run: "sys_run E v ls w"
    using assms unfolding reachable_def by blast
  have "ev_mgr_addr_map (svc v) = Map.empty"
    using initialised_state [OF init] by (simp add: sys_inv_def store_inv_def)
  then have "managers_stored v" by (simp add: managers_stored_def)
  with run initialised_inv [OF init] show ?thesis by (rule run_keeps_stored)
qed

section \<open>Properties\<close>

text \<open>C16: in every state that the enclave can reach under the mutex of the monitor, a manager that a
publisher is registered with has its store of past events, so that the past events are what is recorded
there, except while the block thread, holding the mutex, is between the two maps for that manager.\<close>

theorem registered_managers_stored:
  assumes "excl_reachable E (busy, w)" "get_event_mgr_addr p w = (Inr a, w)" "a \<noteq> zero_addr"
  shows "(\<exists>q. past_event_store (svc w) a = Some q \<and> q < length (evqs w) \<and> get_past_events a w = (Inr (evqs w ! q), w)) \<or>
    (busy \<and> (\<exists>hdr p'. callbacks w = [GStore hdr p' a]) \<and> get_past_events a w = (Inr [], w))"
proof -
  have w: "reachable E w" using excl_reachable_system [OF assms(1)] by simp
  then have inv: "held w = {}" "past_refs_valid w"
    using reachable_inv by (auto simp: sys_inv_def store_inv_def)
  then have past: "get_past_events a w = (Inr (past_events w a), w)" by (simp add: get_past_events_run)
  have "ev_mgr_addr_map (svc w) p = Some a"
    using assms(2,3) inv(1) by (auto simp: get_event_mgr_addr_run split: option.splits)
  with reachable_stored [OF w] consider (stored) q where "past_event_store (svc w) a = Some q"
    | (pending) hdr p' where "GStore hdr p' a \<in> set (tasks w)" "past_event_store (svc w) a = None"
    unfolding managers_stored_def by blast
  then show ?thesis
  proof cases
    case stored
    with past inv past_refs_validD show ?thesis by (auto simp: past_events_def)
  next
    case pending
    then have "GStore hdr p' a \<in> set (callbacks w)" by (simp add: callbacks_def)
    moreover have "length (callbacks w) \<le> 1" "busy \<or> idle w" using excl_sequential [OF assms(1)] by simp_all
    ultimately have "callbacks w = [GStore hdr p' a]" "busy" by (cases "callbacks w"; auto simp: idle_def)+
    with past pending(2) show ?thesis by (auto simp: past_events_def)
  qed
qed

theorem registered_managers_stored_witness:
  "\<exists>q. past_event_store (svc example_registered) (replicate 20 2) = Some q \<and>
    get_past_events (replicate 20 2) example_registered = (Inr (evqs example_registered ! q), example_registered)"
proof -
  have "get_event_mgr_addr (replicate 20 1) example_registered = (Inr (replicate 20 2), example_registered)"
    by (simp add: get_event_mgr_addr_run reg_store_def)
  moreover have "replicate 20 2 \<noteq> zero_addr" by (simp add: zero_addr_def)
  ultimately show ?thesis
    using registered_managers_stored [OF example_excl_reachable] by auto
qed

end
