(* ===== verification/InitEcall.thy ===== *)
theory InitEcall
  imports ConcreteRun
begin

text \<open>
  The ECALL that starts the enclave (\<^verbatim>\<open>ecall_decent_ethereum_init\<close> of src/Trusted/Enclave.cpp), against the
  reachable states of \<open>PubsubSystem\<close>: none of its steps has undefined behaviour, so that it always
  answers, and what it leaves when it answers success is where the runs of the system begin.
\<close>

lemma ext_result_defined: "\<not> is_undef (fst (ext_result g c w))"
  by (simp add: ext_result_def split: sum.split)

lemma init_parts_defined:
  "\<not> is_undef (fst (global_initialization E w))" "\<not> is_undef (fst (print_my_info E w))"
  "\<not> is_undef (fst (request_app_cert E cs key w))" "\<not> is_undef (fst (setup_step E name w))"
  "\<not> is_undef (fst (register_handler E name f w))"
  unfolding global_initialization_def print_my_info_def request_app_cert_def setup_step_def
    register_handler_def read_info_def platform_print_def
  by (intro for_each_defined bnd_defined ext_result_defined; simp add: log_msg_run)+

lemma manager_defined: "\<not> is_undef (fst (blockchain_mgr E config n a sg st w))"
  by (auto simp: blockchain_mgr_def prog_run refresh_bootstrap_plan_def start_service_def listen_def
      of_lib_def split: sum.splits prod.splits)

lemma init_defined: "\<not> is_undef (fst (init_enclave E config n a sg p w))"
  unfolding init_enclave_def by (intro bnd_defined init_parts_defined manager_defined) simp

lemma ecall_cases:
  assumes "\<not> is_undef (fst (m w))"
  obtains (success) u where "m w = (Inr (), u)" "ecall m w = (Inr SGX_SUCCESS, u)"
    | (failure) what u where "m w = (Inl (Raised what), u)"
        "ecall m w = (Inr SGX_ERROR_UNEXPECTED, u\<lparr>history := Logged Error ''Platform::Print'' what # history u\<rparr>)"
proof (cases "m w")
  case (Pair r u)
  with assms that show thesis
    by (cases r) (auto simp: is_undef_def ecall_def platform_print_def log_msg_run try_catch_def bnd_run
        split: fault.splits)
qed

text \<open>C24: the ECALL that initialises a fresh enclave always answers, whatever the platform, the
certificate authority, the monitor and the host do. Success means that the manager is set, the three
message handlers are registered and the state is a reachable one, so that all that is shown of reachable
states holds from then on. Any exception becomes the error status with a log line, and then a handler
that was registered before the failure still finds its manager.\<close>

theorem init_always_answers:
  fixes v :: system
  assumes "fresh_process v" "length in_sync_addr = 20" "length in_pubsub_addr = 20"
  shows "\<exists>status w. ecall_decent_ethereum_init E in_conf start_num in_sync_addr in_sync_esign in_pubsub_addr v
      = (Inr status, w) \<and>
    (status = SGX_SUCCESS \<and> reachable E w \<and> mgr_set w \<and>
       {HandlerRegistered ''PubSub.Subscribe'' PubsubSubHandler,
        HandlerRegistered ''Receipt.Subscribe'' ReceiptSubHandler,
        HandlerRegistered ''Transaction.SendRaw'' SendRawHandler} \<subseteq> set (history w) \<or>
     status = SGX_ERROR_UNEXPECTED \<and> (\<exists>what h. history w = Logged Error ''Platform::Print'' what # h) \<and>
       (mgr_set w \<or> (\<forall>name f. HandlerRegistered name f \<notin> set (history w))))"
proof -
  let ?m = "bnd (lib (parse_config E in_conf)) (\<lambda>config.
     bnd (lift_res (copy_to_array 0 20 in_sync_addr)) (\<lambda>sync_addr.
     bnd (lift_res (copy_to_array 0 20 in_pubsub_addr)) (\<lambda>pubsub_addr.
     init_enclave E config start_num sync_addr in_sync_esign pubsub_addr))) :: (system, unit) prog"
  have ready: "mgr_ready v" using assms(1) by (simp add: fresh_process_def mgr_ready_def)
  show ?thesis
  proof (cases "parse_config E in_conf")
    case (Inl e)
    then show ?thesis
      using assms(1)
      by (simp add: ecall_decent_ethereum_init_def ecall_def platform_print_def prog_run fresh_process_def)
  next
    case (Inr config)
    let ?run = "init_enclave E config start_num in_sync_addr in_sync_esign in_pubsub_addr :: (system, unit) prog"
    have eq: "ecall_decent_ethereum_init E in_conf start_num in_sync_addr in_sync_esign in_pubsub_addr v = ecall ?m v"
      unfolding ecall_decent_ethereum_init_def by (rule refl)
    have m: "?m v = ?run v" using Inr assms(2,3) by (simp add: bnd_run copy_to_array_def)
    then have "\<not> is_undef (fst (?m v))" by (simp add: init_defined)
    then show ?thesis
    proof (cases rule: ecall_cases)
      case (success u)
      then have run: "?run v = (Inr (), u)" by (simp only: m)
      then have "initialised E u" unfolding initialised_def using assms(1) by blast
      then have "reachable E u" unfolding reachable_def using run_nil by blast
      with init_registers [OF run ready] show ?thesis unfolding eq success(2) by simp
    next
      case (failure what u)
      then have "?run v = (Inl (Raised what), u)" by (simp only: m)
      from init_registers [OF this ready] have "mgr_ready u" by simp
      then show ?thesis unfolding eq failure(2) by (auto simp: mgr_ready_def)
    qed
  qed
qed

theorem init_always_answers_witness:
  "\<exists>w. ecall_decent_ethereum_init example_env [] 8 (replicate 20 1) ''Sync'' (replicate 20 7) example_fresh
    = (Inr SGX_SUCCESS, w) \<and> reachable example_env w \<and> mgr_set w"
proof -
  let ?run = "ecall_decent_ethereum_init example_env [] 8 (replicate 20 1) ''Sync'' (replicate 20 7) example_fresh"
  have "fst ?run = Inr SGX_SUCCESS"
    by (simp add: ecall_decent_ethereum_init_def ecall_def copy_to_array_def init_enclave_def
        global_initialization_def print_my_info_def request_app_cert_def setup_step_def platform_print_def
        read_info_def register_handler_def blockchain_mgr_def refresh_bootstrap_plan_def start_service_def
        listen_def prog_run)
  moreover have "fresh_process example_fresh" by (simp add: fresh_process_def example_fresh_def)
  ultimately show ?thesis
    using init_always_answers [of example_fresh "replicate 20 1" "replicate 20 7" example_env "[]" 8 "''Sync''"]
    by auto
qed

end
