(* ===== verification/HostRuntime.thy ===== *)
theory HostRuntime
  imports Prelude
begin

text \<open>
  The outside of the host process, in the form of \<open>Runtime\<close>: the record \<open>host_env\<close> has one field per
  library call (libcurl, SimpleJson, SimpleRlp, the hexadecimal codec, the SGX edge routines, the
  tick timer of SimpleConcurrency), and every call that has an effect enters \<open>host_log\<close>, newest first.
\<close>

text \<open>The JSON values of SimpleObjects.\<close>

datatype json =
    JNull
  | JBool bool
  | JNumber int
  | JString string
  | JList "json list"
  | JDict "string \<Rightarrow> json option"

datatype host_call =
    Posted string string
  | Slept nat
  | HostLogged string
  | Delivered nat bytes
  | DeliveryFailed nat bytes
  | Printed string
  | TaskAdded string int
  | HostSetup string
  | EnclaveCreated bytes u64 "byte option list" string bytes bytes string string
  | IntervalDisabled
  | IntervalSet int int
  | HostRefused string

type_synonym host_history = "host_call list"

record host_env =
  curl_at :: "host_history \<Rightarrow> string \<Rightarrow> string \<Rightarrow> string list \<Rightarrow> string \<Rightarrow> nat \<Rightarrow> string list \<times> unit lib"
  json_dump :: "json \<Rightarrow> string lib"
  json_load :: "string \<Rightarrow> json lib"
  json_dict_at :: "json \<Rightarrow> string \<Rightarrow> json lib"
  json_as_string :: "json \<Rightarrow> string lib"
  json_as_list :: "json \<Rightarrow> json list lib"
  hex_decode :: "string \<Rightarrow> bytes lib"
  hex_encode_with :: "string \<Rightarrow> bytes \<Rightarrow> string"
  hex_encode_num :: "u64 \<Rightarrow> string"
  u64_from_bytes :: "bytes \<Rightarrow> u64 lib"
  eth_header_number :: "bytes \<Rightarrow> bytes lib"
  write_rlp :: "bytes list \<Rightarrow> bytes lib"
  receiver_alive_at :: "host_history \<Rightarrow> nat \<Rightarrow> bool"
  service_alive_at :: "host_history \<Rightarrow> bool"
  ecall_recv_at :: "host_history \<Rightarrow> nat \<Rightarrow> bytes \<Rightarrow> sgx_status \<times> sgx_status"
  check_ecall :: "sgx_status \<Rightarrow> sgx_status \<Rightarrow> unit lib"
  interval_enabled_at :: "host_history \<Rightarrow> bool"
  host_setup_at :: "host_history \<Rightarrow> string \<Rightarrow> unit lib"
  read_file_at :: "host_history \<Rightarrow> string \<Rightarrow> string lib"
  auth_list_of :: "json \<Rightarrow> bytes lib"
  monitor_config_rlp :: "bytes lib"
  enclave_at :: "host_history \<Rightarrow> bytes \<Rightarrow> u64 \<Rightarrow> byte option list \<Rightarrow> string \<Rightarrow> bytes \<Rightarrow> bytes \<Rightarrow>
      string \<Rightarrow> string \<Rightarrow> sgx_status \<times> sgx_status"
  json_as_u32 :: "json \<Rightarrow> 32 word lib"
  json_as_u64 :: "json \<Rightarrow> u64 lib"
  show_rate :: "u64 \<Rightarrow> int \<Rightarrow> string"

record host_rt =
  host_log :: host_history

definition host_note :: "host_call \<Rightarrow> ('z host_rt_scheme, unit) prog" where
  "host_note c = updates (\<lambda>w. w\<lparr>host_log := c # host_log w\<rparr>)"

definition host_ask :: "(host_history \<Rightarrow> 'a) \<Rightarrow> ('z host_rt_scheme, 'a) prog" where
  "host_ask f = reads (\<lambda>w. f (host_log w))"

lemma host_note_run [prog_run]: "host_note c w = (Inr (), w\<lparr>host_log := c # host_log w\<rparr>)"
  by (simp add: host_note_def)

lemma host_ask_run [prog_run]: "host_ask f w = (Inr (f (host_log w)), w)"
  by (simp add: host_ask_def)

text \<open>Headers handed to a receiver without an exception, oldest first.\<close>

fun delivered :: "host_history \<Rightarrow> bytes list" where
  "delivered [] = []"
| "delivered (Delivered r b # h) = delivered h @ [b]"
| "delivered (_ # h) = delivered h"

definition host_ext :: "(host_history \<Rightarrow> 'a lib) \<Rightarrow> host_call \<Rightarrow> ('z host_rt_scheme, 'a) prog" where
  "host_ext query entry = (\<lambda>w.
     case query (host_log w) of
       Inr x \<Rightarrow> (Inr x, w\<lparr>host_log := entry # host_log w\<rparr>)
     | Inl m \<Rightarrow> (Inl (Raised m), w\<lparr>host_log := HostRefused m # host_log w\<rparr>))"

lemma host_ext_run [prog_run]:
  "host_ext query entry w =
     (case query (host_log w) of
       Inr x \<Rightarrow> (Inr x, w\<lparr>host_log := entry # host_log w\<rparr>)
     | Inl m \<Rightarrow> (Inl (Raised m), w\<lparr>host_log := HostRefused m # host_log w\<rparr>))"
  by (simp add: host_ext_def)

section \<open>A concrete outside\<close>

text \<open>A node that answers every request with the string \<open>0x01\<close>, and an enclave that accepts every block.\<close>

definition example_host_env :: host_env where
  "example_host_env =
     \<lparr>curl_at = (\<lambda>h url m hs body code. ([''re'', ''ply''], Inr ())),
      json_dump = (\<lambda>v. Inr ''json''),
      json_load = (\<lambda>s. Inr (JDict [''result'' \<mapsto> JString ''0x01''])),
      json_dict_at = (\<lambda>v k. case v of JDict d \<Rightarrow> (case d k of None \<Rightarrow> Inl ''key'' | Some x \<Rightarrow> Inr x)
                                  | _ \<Rightarrow> Inl ''type''),
      json_as_string = (\<lambda>v. case v of JString s \<Rightarrow> Inr s | _ \<Rightarrow> Inl ''type''),
      json_as_list = (\<lambda>v. case v of JList xs \<Rightarrow> Inr xs | _ \<Rightarrow> Inl ''type''),
      hex_decode = (\<lambda>s. Inr (replicate (length s div 2) 1)),
      hex_encode_with = (\<lambda>p b. p @ ''01''),
      hex_encode_num = (\<lambda>n. ''0x01''),
      u64_from_bytes = (\<lambda>b. Inr 9),
      eth_header_number = (\<lambda>b. Inr b),
      write_rlp = (\<lambda>xs. Inr (concat xs)),
      receiver_alive_at = (\<lambda>h r. True),
      service_alive_at = (\<lambda>h. True),
      ecall_recv_at = (\<lambda>h r b. (SGX_SUCCESS, SGX_SUCCESS)),
      check_ecall = (\<lambda>s r. if s = SGX_SUCCESS \<and> r = SGX_SUCCESS then Inr () else Inl ''sgx''),
      interval_enabled_at = (\<lambda>h. False),
      host_setup_at = (\<lambda>h n. Inr ()),
      read_file_at = (\<lambda>h n. Inr ''json''),
      auth_list_of = (\<lambda>v. Inr []),
      monitor_config_rlp = Inr [2],
      enclave_at = (\<lambda>h c n a s p l i t. (SGX_SUCCESS, SGX_SUCCESS)),
      json_as_u32 = (\<lambda>v. Inr 8545),
      json_as_u64 = (\<lambda>v. case v of JNumber n \<Rightarrow> Inr (of_int n) | _ \<Rightarrow> Inl ''type''),
      show_rate = (\<lambda>d i. ''rate'')\<rparr>"

lemma example_host_env_simps [simp]:
  "curl_at example_host_env h url m hs body code = ([''re'', ''ply''], Inr ())"
  "json_dump example_host_env v = Inr ''json''"
  "json_load example_host_env txt = Inr (JDict [''result'' \<mapsto> JString ''0x01''])"
  "json_dict_at example_host_env (JDict f) k = (case f k of None \<Rightarrow> Inl ''key'' | Some x \<Rightarrow> Inr x)"
  "json_as_string example_host_env (JString txt) = Inr txt"
  "json_as_list example_host_env (JList xs) = Inr xs"
  "hex_decode example_host_env txt = Inr (replicate (length txt div 2) 1)"
  "hex_encode_with example_host_env pre bs = pre @ ''01''" "hex_encode_num example_host_env n = ''0x01''"
  "u64_from_bytes example_host_env bs = Inr 9" "eth_header_number example_host_env bs = Inr bs"
  "write_rlp example_host_env bss = Inr (concat bss)"
  "receiver_alive_at example_host_env h r" "service_alive_at example_host_env h"
  "ecall_recv_at example_host_env h r bs = (SGX_SUCCESS, SGX_SUCCESS)"
  "check_ecall example_host_env st rv = (if st = SGX_SUCCESS \<and> rv = SGX_SUCCESS then Inr () else Inl ''sgx'')"
  "host_setup_at example_host_env h nm = Inr ()" "read_file_at example_host_env h nm = Inr ''json''"
  "auth_list_of example_host_env v = Inr []" "monitor_config_rlp example_host_env = Inr [2]"
  "enclave_at example_host_env h bs n sa sg pa al ip tp = (SGX_SUCCESS, SGX_SUCCESS)"
  "json_as_u32 example_host_env v = Inr 8545" "json_as_u64 example_host_env (JNumber i) = Inr (of_int i)"
  by (simp_all add: example_host_env_def)

end
