(* ===== verification/GethRequester.thy ===== *)
theory GethRequester
  imports HostRuntime
begin

text \<open>
  \<^verbatim>\<open>class GethRequester\<close> of Untrusted/GethRequester.hpp: JSON-RPC requests to a Geth node and the
  checks on its replies. A requester is its URL. Decoding of a reply does not touch the state: it is
  a function to \<open>res\<close>; the requests are methods over the host's state, which grows by the posts made.
\<close>

section \<open>Building requests\<close>

definition build_request_body :: "host_env \<Rightarrow> string \<Rightarrow> json list \<Rightarrow> string lib" where
  "build_request_body E method params =
     json_dump E (JDict [''method'' \<mapsto> JString method,
                         ''params'' \<mapsto> JList params,
                         ''id'' \<mapsto> JNumber 1,
                         ''jsonrpc'' \<mapsto> JString ''2.0''])"

text \<open>The body arrives in pieces, which the content callback appends.\<close>

definition content_callback :: "string \<Rightarrow> string \<Rightarrow> string" where
  "content_callback resp_body chunk = resp_body @ chunk"

definition post_request :: "host_env \<Rightarrow> string \<Rightarrow> string \<Rightarrow> ('z host_rt_scheme, string) prog" where
  "post_request E url req_body =
     bnd (host_ask (\<lambda>h. curl_at E h url ''POST'' [''Content-Type: application/json''] req_body 200))
       (\<lambda>(chunks, outcome).
     bnd (host_note (Posted url req_body)) (\<lambda>_.
     bnd (lib outcome) (\<lambda>_.
     ret (foldl content_callback [] chunks))))"

section \<open>Decoding replies\<close>

definition decode_hex_str :: "host_env \<Rightarrow> string \<Rightarrow> bytes res" where
  "decode_hex_str E hex_str =
     (if length hex_str < 3 \<or> hex_str ! 0 \<noteq> CHR ''0'' \<or> hex_str ! 1 \<noteq> CHR ''x''
      then Inl (Raised ''Invalid response from Geth'')
      else of_lib (hex_decode E (drop 2 hex_str)))"

definition resp_result :: "host_env \<Rightarrow> string \<Rightarrow> json res" where
  "resp_result E resp_body =
     bind_res (of_lib (json_load E resp_body)) (\<lambda>j. of_lib (json_dict_at E j ''result''))"

definition proc_resp_single_bytes :: "host_env \<Rightarrow> string \<Rightarrow> bytes res" where
  "proc_resp_single_bytes E resp_body =
     bind_res (resp_result E resp_body) (\<lambda>res_obj.
     bind_res (of_lib (json_as_string E res_obj)) (\<lambda>res_hex.
     decode_hex_str E res_hex))"

definition proc_resp_single_bytes_array :: "host_env \<Rightarrow> nat \<Rightarrow> string \<Rightarrow> bytes res" where
  "proc_resp_single_bytes_array E n resp_body =
     bind_res (proc_resp_single_bytes E resp_body) (\<lambda>vec.
     if length vec \<noteq> n
     then Inl (Raised (''Geth returned a byte string that is not of the length of '' @ dec_string n))
     else copy_to_array 0 n vec)"

definition proc_resp_list_of_bytes :: "host_env \<Rightarrow> string \<Rightarrow> bytes list res" where
  "proc_resp_list_of_bytes E resp_body =
     bind_res (resp_result E resp_body) (\<lambda>res_obj.
     bind_res (of_lib (json_as_list E res_obj)) (\<lambda>res_list.
     map_res (\<lambda>res_hex. bind_res (of_lib (json_as_string E res_hex)) (decode_hex_str E)) res_list))"

definition proc_resp_object :: "host_env \<Rightarrow> string \<Rightarrow> string res" where
  "proc_resp_object E resp_body =
     bind_res (resp_result E resp_body) (\<lambda>res_obj. of_lib (json_dump E res_obj))"

definition proc_resp_int :: "host_env \<Rightarrow> string \<Rightarrow> u64 res" where
  "proc_resp_int E resp_body =
     bind_res (proc_resp_single_bytes E resp_body) (\<lambda>res_bytes. of_lib (u64_from_bytes E res_bytes))"

definition convert_blk_num_to_hex :: "host_env \<Rightarrow> u64 \<Rightarrow> string" where
  "convert_blk_num_to_hex E block_num = hex_encode_num E block_num"

section \<open>Requests\<close>

definition geth_call :: "host_env \<Rightarrow> string \<Rightarrow> string \<Rightarrow> json list \<Rightarrow> ('z host_rt_scheme, string) prog" where
  "geth_call E url method params =
     bnd (lib (build_request_body E method params)) (\<lambda>req_body. post_request E url req_body)"

definition get_header_rlp_by_param :: "host_env \<Rightarrow> string \<Rightarrow> string \<Rightarrow> ('z host_rt_scheme, bytes) prog" where
  "get_header_rlp_by_param E url param =
     bnd (geth_call E url ''debug_getRawHeader'' [JString param]) (\<lambda>resp.
     lift_res (proc_resp_single_bytes E resp))"

definition get_body_rlp_by_param :: "host_env \<Rightarrow> string \<Rightarrow> string \<Rightarrow> ('z host_rt_scheme, bytes) prog" where
  "get_body_rlp_by_param E url param =
     bnd (geth_call E url ''debug_getRawBlock'' [JString param]) (\<lambda>resp.
     lift_res (proc_resp_single_bytes E resp))"

definition get_receipts_rlp_by_param ::
    "host_env \<Rightarrow> string \<Rightarrow> string \<Rightarrow> ('z host_rt_scheme, bytes list) prog" where
  "get_receipts_rlp_by_param E url param =
     bnd (geth_call E url ''debug_getRawReceipts'' [JString param]) (\<lambda>resp.
     lift_res (proc_resp_list_of_bytes E resp))"

definition send_raw_transaction_by_param ::
    "host_env \<Rightarrow> string \<Rightarrow> string \<Rightarrow> ('z host_rt_scheme, bytes) prog" where
  "send_raw_transaction_by_param E url param =
     bnd (geth_call E url ''eth_sendRawTransaction'' [JString param]) (\<lambda>resp.
     bnd (host_note (HostLogged (''Received response: '' @ resp))) (\<lambda>_.
     lift_res (proc_resp_single_bytes_array E 32 resp)))"

definition send_raw_transaction_by_bytes ::
    "host_env \<Rightarrow> string \<Rightarrow> bytes \<Rightarrow> ('z host_rt_scheme, bytes) prog" where
  "send_raw_transaction_by_bytes E url txn =
     send_raw_transaction_by_param E url (hex_encode_with E ''0x'' txn)"

definition get_header_rlp_by_num :: "host_env \<Rightarrow> string \<Rightarrow> u64 \<Rightarrow> ('z host_rt_scheme, bytes) prog" where
  "get_header_rlp_by_num E url n = get_header_rlp_by_param E url (convert_blk_num_to_hex E n)"

definition get_body_rlp_by_num :: "host_env \<Rightarrow> string \<Rightarrow> u64 \<Rightarrow> ('z host_rt_scheme, bytes) prog" where
  "get_body_rlp_by_num E url n = get_body_rlp_by_param E url (convert_blk_num_to_hex E n)"

definition get_receipts_rlp_of_num ::
    "host_env \<Rightarrow> string \<Rightarrow> u64 \<Rightarrow> ('z host_rt_scheme, bytes list) prog" where
  "get_receipts_rlp_of_num E url n = get_receipts_rlp_by_param E url (convert_blk_num_to_hex E n)"

definition get_transaction_receipt :: "host_env \<Rightarrow> string \<Rightarrow> bytes \<Rightarrow> ('z host_rt_scheme, string) prog" where
  "get_transaction_receipt E url txn_hash =
     bnd (geth_call E url ''eth_getTransactionReceipt'' [JString (hex_encode_with E ''0x'' txn_hash)])
       (\<lambda>resp.
     bnd (host_note (HostLogged (''Received response: '' @ resp))) (\<lambda>_.
     lift_res (proc_resp_object E resp)))"

text \<open>The loop has no bound of its own: \<open>None\<close> is a loop that does not end.\<close>

partial_function (option) wait_and_get_transaction_receipt ::
    "host_env \<Rightarrow> string \<Rightarrow> bytes \<Rightarrow> 'z host_rt_scheme \<Rightarrow> (string res \<times> 'z host_rt_scheme) option" where
  "wait_and_get_transaction_receipt E url txn_hash w =
     (case get_transaction_receipt E url txn_hash w of
        (Inl e, t) \<Rightarrow> Some (Inl e, t)
      | (Inr obj_str, t) \<Rightarrow>
          if obj_str = ''null''
          then wait_and_get_transaction_receipt E url txn_hash (t\<lparr>host_log := Slept 1000 # host_log t\<rparr>)
          else Some (Inr obj_str, t))"

definition get_block_number :: "host_env \<Rightarrow> string \<Rightarrow> ('z host_rt_scheme, u64) prog" where
  "get_block_number E url =
     bnd (geth_call E url ''eth_blockNumber'' []) (\<lambda>resp. lift_res (proc_resp_int E resp))"

section \<open>How the decoders and requests run\<close>

lemma decode_hex_str_Inr_iff:
  "decode_hex_str E hex = Inr b \<longleftrightarrow> (\<exists>digits. hex = ''0x'' @ digits \<and> digits \<noteq> [] \<and> hex_decode E digits = Inr b)"
proof
  assume "decode_hex_str E hex = Inr b"
  then have "length hex \<ge> 3" "hex ! 0 = CHR ''0''" "hex ! 1 = CHR ''x''" "hex_decode E (drop 2 hex) = Inr b"
    by (auto simp: decode_hex_str_def split: if_splits)
  then show "\<exists>digits. hex = ''0x'' @ digits \<and> digits \<noteq> [] \<and> hex_decode E digits = Inr b"
    by (cases hex rule: remdups_adj.cases) (auto simp: neq_Nil_conv Suc_le_length_iff numeral_3_eq_3)
next
  assume "\<exists>digits. hex = ''0x'' @ digits \<and> digits \<noteq> [] \<and> hex_decode E digits = Inr b"
  then show "decode_hex_str E hex = Inr b"
    by (auto simp: decode_hex_str_def neq_Nil_conv)
qed

lemma decode_hex_str_defined: "\<not> is_undef (decode_hex_str E hex)"
  by (simp add: decode_hex_str_def)

lemma is_undef_bind: "is_undef (bind_res r f) \<longleftrightarrow> is_undef r \<or> (\<exists>x. r = Inr x \<and> is_undef (f x))"
  by (cases r) (auto simp: is_undef_Inl)

lemma is_undef_map_res: "is_undef (map_res f xs) \<Longrightarrow> \<exists>x \<in> set xs. is_undef (f x)"
proof -
  assume "is_undef (map_res f xs)"
  then obtain m where "map_res f xs = Inl (Undef m)"
    by (auto simp: is_undef_def split: sum.splits fault.splits)
  from map_res_InlD [OF this] obtain x where "x \<in> set xs" "f x = Inl (Undef m)" by blast
  then show ?thesis by (intro bexI [of _ x]) simp_all
qed

lemma decoders_defined:
  "\<not> is_undef (resp_result E resp)" "\<not> is_undef (proc_resp_single_bytes E resp)"
  "\<not> is_undef (proc_resp_single_bytes_array E n resp)" "\<not> is_undef (proc_resp_list_of_bytes E resp)"
  "\<not> is_undef (proc_resp_object E resp)" "\<not> is_undef (proc_resp_int E resp)"
  by (auto simp: resp_result_def proc_resp_single_bytes_def proc_resp_single_bytes_array_def
      proc_resp_list_of_bytes_def proc_resp_object_def proc_resp_int_def is_undef_bind decode_hex_str_defined
      copy_to_array_def dest!: is_undef_map_res)

text \<open>A request makes at most one post; only the log of the state changes.\<close>

definition only_posts :: "'z host_rt_scheme \<Rightarrow> 'z host_rt_scheme \<Rightarrow> bool" where
  "only_posts w u \<longleftrightarrow> (\<exists>new. u = w\<lparr>host_log := new @ host_log w\<rparr> \<and>
     list_all (\<lambda>c. (\<exists>url body. c = Posted url body) \<or> (\<exists>m. c = HostLogged m)) new)"

interpretation posts_frame: frame_relation only_posts
proof
  show "only_posts w w" for w :: "'z host_rt_scheme"
    unfolding only_posts_def by (rule exI [of _ "[]"]) simp
  show "only_posts w v" if "only_posts w u" "only_posts u v" for w u v :: "'z host_rt_scheme"
  proof -
    from that obtain n1 n2 where "u = w\<lparr>host_log := n1 @ host_log w\<rparr>" "v = u\<lparr>host_log := n2 @ host_log u\<rparr>"
      "list_all (\<lambda>c. (\<exists>url body. c = Posted url body) \<or> (\<exists>m. c = HostLogged m)) (n2 @ n1)"
      unfolding only_posts_def by auto
    then show ?thesis unfolding only_posts_def by (intro exI [of _ "n2 @ n1"]) simp
  qed
qed

lemma only_posts_note:
  "guar only_posts (host_note (Posted url body))" "guar only_posts (host_note (HostLogged m))"
  "guar only_posts (host_ask f)"
  by (auto simp: guar_def host_note_run host_ask_run only_posts_def intro: exI [of _ "[Posted url body]"]
      exI [of _ "[HostLogged m]"] exI [of _ "[]"])

lemma only_posts_requests:
  "guar only_posts (post_request E url body)" "guar only_posts (geth_call E url method params)"
  "guar only_posts (get_header_rlp_by_param E url param)" "guar only_posts (get_header_rlp_by_num E url k)"
  "guar only_posts (get_block_number E url)" "guar only_posts (get_transaction_receipt E url h)"
  unfolding post_request_def geth_call_def get_header_rlp_by_param_def get_header_rlp_by_num_def
    get_block_number_def get_transaction_receipt_def
  by (auto intro!: posts_frame.guar_bnd posts_frame.guar_pure only_posts_note split: prod.split)

lemma only_posts_delivered: "only_posts w u \<Longrightarrow> delivered (host_log u) = delivered (host_log w)"
proof -
  have "delivered (new @ h) = delivered h"
    if "list_all (\<lambda>c. (\<exists>url body. c = Posted url body) \<or> (\<exists>m. c = HostLogged m)) new" for new h
    using that by (induction new) auto
  then show "only_posts w u \<Longrightarrow> ?thesis" by (auto simp: only_posts_def)
qed

text \<open>The states between the polls of the wait loop, as long as the reply is \<open>null\<close>.\<close>

fun polls :: "host_env \<Rightarrow> string \<Rightarrow> bytes \<Rightarrow> nat \<Rightarrow> 'z host_rt_scheme \<Rightarrow> 'z host_rt_scheme option" where
  "polls E url h 0 w = Some w"
| "polls E url h (Suc n) w =
     (case get_transaction_receipt E url h w of
        (Inr v, t) \<Rightarrow> if v = ''null'' then polls E url h n (t\<lparr>host_log := Slept 1000 # host_log t\<rparr>) else None
      | _ \<Rightarrow> None)"

lemma wait_returns:
  assumes "polls E url h n w = Some v" "get_transaction_receipt E url h v = (r, t)" "r \<noteq> Inr ''null''"
  shows "wait_and_get_transaction_receipt E url h w = Some (r, t)"
  using assms
proof (induction n arbitrary: w)
  case 0
  then show ?case
    by (subst wait_and_get_transaction_receipt.simps) (cases r; simp)
next
  case (Suc n)
  then show ?case
    by (auto simp: wait_and_get_transaction_receipt.simps [of E url h w] split: prod.splits sum.splits if_splits)
qed

lemma wait_returned:
  assumes "wait_and_get_transaction_receipt E url h w = Some res"
  shows "fst res \<noteq> Inr ''null'' \<and> (\<exists>n v. polls E url h n w = Some v \<and> get_transaction_receipt E url h v = res)"
proof (rule wait_and_get_transaction_receipt.raw_induct [where P = "\<lambda>E url h w res. fst res \<noteq> Inr ''null'' \<and>
    (\<exists>n v. polls E url h n w = Some v \<and> get_transaction_receipt E url h v = res)", OF _ assms])
  fix loop and E url h and w :: "'z host_rt_scheme" and res
  assume IH: "\<And>E url h w res. loop E url h w = Some res \<Longrightarrow> fst res \<noteq> Inr ''null'' \<and>
      (\<exists>n v. polls E url h n w = Some v \<and> get_transaction_receipt E url h v = res)"
    and eq: "(case get_transaction_receipt E url h w of
        (Inl e, t) \<Rightarrow> Some (Inl e, t)
      | (Inr obj_str, t) \<Rightarrow>
          if obj_str = ''null'' then loop E url h (t\<lparr>host_log := Slept 1000 # host_log t\<rparr>)
          else Some (Inr obj_str, t)) = Some res"
  obtain r t where get: "get_transaction_receipt E url h w = (r, t)" by fastforce
  show "fst res \<noteq> Inr ''null'' \<and> (\<exists>n v. polls E url h n w = Some v \<and> get_transaction_receipt E url h v = res)"
  proof (cases "r = Inr ''null''")
    case True
    with eq get have "loop E url h (t\<lparr>host_log := Slept 1000 # host_log t\<rparr>) = Some res" by simp
    from IH [OF this] obtain n v where "fst res \<noteq> Inr ''null''"
        "polls E url h n (t\<lparr>host_log := Slept 1000 # host_log t\<rparr>) = Some v" "get_transaction_receipt E url h v = res"
      by blast
    moreover from this(2) get True have "polls E url h (Suc n) w = Some v" by simp
    ultimately show ?thesis by blast
  next
    case False
    with eq get have "res = (r, t)" by (auto split: sum.splits if_splits)
    with get False show ?thesis by (auto intro!: exI [of _ 0])
  qed
qed

section \<open>Properties\<close>

text \<open>C8: a byte string is taken from a reply of the node exactly when the reply is a JSON dictionary
whose result is a string that begins with \<open>0x\<close> and has hexadecimal digits after it; everything else is
an exception, and nothing is undefined. An array of \<open>n\<close> bytes is the same with exactly \<open>n\<close> bytes.\<close>

theorem bytes_reply_checked:
  "(proc_resp_single_bytes E resp = Inr b \<longleftrightarrow>
     (\<exists>j v digits. json_load E resp = Inr j \<and> json_dict_at E j ''result'' = Inr v \<and>
        json_as_string E v = Inr (''0x'' @ digits) \<and> digits \<noteq> [] \<and> hex_decode E digits = Inr b)) \<and>
   (proc_resp_single_bytes_array E n resp = Inr b \<longleftrightarrow> proc_resp_single_bytes E resp = Inr b \<and> length b = n) \<and>
   \<not> is_undef (proc_resp_single_bytes E resp) \<and> \<not> is_undef (proc_resp_single_bytes_array E n resp)"
proof (intro conjI decoders_defined)
  show "proc_resp_single_bytes E resp = Inr b \<longleftrightarrow>
     (\<exists>j v digits. json_load E resp = Inr j \<and> json_dict_at E j ''result'' = Inr v \<and>
        json_as_string E v = Inr (''0x'' @ digits) \<and> digits \<noteq> [] \<and> hex_decode E digits = Inr b)"
    by (auto simp: proc_resp_single_bytes_def resp_result_def bind_res_Inr_iff decode_hex_str_Inr_iff)
  show "proc_resp_single_bytes_array E n resp = Inr b \<longleftrightarrow> proc_resp_single_bytes E resp = Inr b \<and> length b = n"
    by (auto simp: proc_resp_single_bytes_array_def bind_res_Inr_iff split: if_splits)
qed

text \<open>A list of byte strings is taken from a reply whole or not at all: it is returned exactly when
every element of the node's list decodes, in its order; one bad element fails the request.\<close>

theorem list_reply_all_or_nothing:
  "proc_resp_list_of_bytes E resp = Inr bs \<longleftrightarrow>
     (\<exists>v xs. resp_result E resp = Inr v \<and> json_as_list E v = Inr xs \<and>
        list_all2 (\<lambda>x b. \<exists>digits. json_as_string E x = Inr (''0x'' @ digits) \<and> digits \<noteq> [] \<and>
          hex_decode E digits = Inr b) xs bs)"
proof -
  have "(bind_res (of_lib (json_as_string E x)) (decode_hex_str E) = Inr b) =
      (\<exists>digits. json_as_string E x = Inr (''0x'' @ digits) \<and> digits \<noteq> [] \<and> hex_decode E digits = Inr b)"
    for x b
    by (auto simp: bind_res_Inr_iff decode_hex_str_Inr_iff)
  then show ?thesis
    by (auto simp: proc_resp_list_of_bytes_def bind_res_Inr_iff map_res_Inr_iff)
qed

text \<open>C30: the wait for a transaction's receipt returns exactly what the first poll that is not answered
with \<open>null\<close> gives, exceptions included, after that many polls; it returns nothing exactly when every
poll is answered with \<open>null\<close>, however long it waits.\<close>

theorem wait_ends_at_first_reply:
  "wait_and_get_transaction_receipt E url h w = Some (r, t) \<longleftrightarrow>
     r \<noteq> Inr ''null'' \<and>
     (\<exists>n v. polls E url h n w = Some v \<and> get_transaction_receipt E url h v = (r, t))"
  using wait_returns wait_returned by fastforce

end
