(* ===== verification/HostBlockService.thy ===== *)
theory HostBlockService
  imports GethRequester
begin

text \<open>
  \<^verbatim>\<open>class HostBlockService\<close> of Untrusted/HostBlockService.hpp: the cursor \<open>curr_block_num\<close> of the next
  block to push, the weak pointer to the \<^verbatim>\<open>BlockReceiver\<close>, and the loop body that fetches the block at
  the cursor and pushes it. \<^verbatim>\<open>BlockReceiver::RecvBlock\<close> is virtual: it is the parameter \<open>recv\<close>.
\<close>

record host_svc = host_rt +
  geth_url :: string
  block_receiver :: "nat option"
  curr_block_num :: u64

type_synonym 'z recv_block_fn = "nat \<Rightarrow> bytes \<Rightarrow> ('z host_svc_scheme, unit) prog"

definition create_service :: "string \<Rightarrow> host_history \<Rightarrow> host_svc" where
  "create_service url h =
     \<lparr>host_log = h, geth_url = url, block_receiver = None, curr_block_num = 0\<rparr>"

definition get_curr_block_num :: "('z host_svc_scheme, u64) prog" where
  "get_curr_block_num = reads curr_block_num"

definition set_upd_svc_start_block :: "u64 \<Rightarrow> ('z host_svc_scheme, unit) prog" where
  "set_upd_svc_start_block start_num = updates (\<lambda>w. w\<lparr>curr_block_num := start_num\<rparr>)"

definition bind_receiver :: "nat \<Rightarrow> ('z host_svc_scheme, unit) prog" where
  "bind_receiver r = updates (\<lambda>w. w\<lparr>block_receiver := Some r\<rparr>)"

text \<open>\<^verbatim>\<open>m_blockReceiver.lock()\<close>: null when nothing is bound or the receiver is gone.\<close>

definition lock_receiver :: "host_env \<Rightarrow> ('z host_svc_scheme, nat option) prog" where
  "lock_receiver E = reads (\<lambda>w.
     case block_receiver w of
       None \<Rightarrow> None
     | Some r \<Rightarrow> if receiver_alive_at E (host_log w) r then Some r else None)"

definition push_block_rlp :: "'z recv_block_fn \<Rightarrow> host_env \<Rightarrow> bytes \<Rightarrow> ('z host_svc_scheme, unit) prog" where
  "push_block_rlp recv E header_rlp =
     bnd (lock_receiver E) (\<lambda>receiver.
     case receiver of
       None \<Rightarrow> raise ''HostBlockService - BlockReceiver is not available''
     | Some r \<Rightarrow> recv r header_rlp)"

definition push_block_num :: "'z recv_block_fn \<Rightarrow> host_env \<Rightarrow> u64 \<Rightarrow> ('z host_svc_scheme, unit) prog" where
  "push_block_num recv E block_num =
     bnd (reads geth_url) (\<lambda>url.
     bnd (get_header_rlp_by_num E url block_num) (\<lambda>header_rlp.
     push_block_rlp recv E header_rlp))"

text \<open>The \<^verbatim>\<open>try\<close> block: \<open>None\<close> is \<^verbatim>\<open>return false\<close>.\<close>

definition fetch_new_block :: "host_env \<Rightarrow> ('z host_svc_scheme, bytes option) prog" where
  "fetch_new_block E =
     try_catch
       (bnd (reads geth_url) (\<lambda>url.
        bnd (get_block_number E url) (\<lambda>latest_block_num.
        bnd (reads curr_block_num) (\<lambda>curr.
        if latest_block_num < curr then ret None
        else bnd (get_header_rlp_by_num E url curr) (\<lambda>header_rlp. ret (Some header_rlp))))))
       (\<lambda>_. ret None)"

definition try_push_new_block :: "'z recv_block_fn \<Rightarrow> host_env \<Rightarrow> ('z host_svc_scheme, bool) prog" where
  "try_push_new_block recv E =
     bnd (fetch_new_block E) (\<lambda>fetched.
     case fetched of
       None \<Rightarrow> ret False
     | Some header_rlp \<Rightarrow>
         bnd (push_block_rlp recv E header_rlp) (\<lambda>_.
         bnd (updates (\<lambda>w. w\<lparr>curr_block_num := curr_block_num w + 1\<rparr>)) (\<lambda>_.
         ret True)))"

definition get_receipts_rlp_of_block :: "host_env \<Rightarrow> u64 \<Rightarrow> ('z host_svc_scheme, bytes list) prog" where
  "get_receipts_rlp_of_block E block_num =
     bnd (reads geth_url) (\<lambda>url. get_receipts_rlp_of_num E url block_num)"

definition get_latest_block_num_host :: "host_env \<Rightarrow> ('z host_svc_scheme, u64) prog" where
  "get_latest_block_num_host E =
     bnd (reads geth_url) (\<lambda>url.
     bnd (get_header_rlp_by_param E url ''latest'') (\<lambda>hdr_rlp.
     bnd (lib (eth_header_number E hdr_rlp)) (\<lambda>num_bytes.
     lib (u64_from_bytes E num_bytes))))"

definition send_raw_transaction_host :: "host_env \<Rightarrow> bytes \<Rightarrow> ('z host_svc_scheme, bytes) prog" where
  "send_raw_transaction_host E txn =
     bnd (reads geth_url) (\<lambda>url. send_raw_transaction_by_bytes E url txn)"

section \<open>How fetching runs\<close>

lemma post_only_fields:
  assumes "only_posts w u"
  shows "curr_block_num u = curr_block_num w" "geth_url u = geth_url w"
    "block_receiver u = block_receiver w" "delivered (host_log u) = delivered (host_log w)"
  using assms only_posts_delivered [OF assms] by (auto simp: only_posts_def)

lemma only_posts_fetch: "guar only_posts (fetch_new_block E)"
  unfolding fetch_new_block_def
  by (auto intro!: posts_frame.guar_try_catch posts_frame.guar_bnd posts_frame.guar_pure only_posts_requests)

lemma fetch_new_block_Some:
  assumes "fetch_new_block E w = (Inr (Some b), u)"
  shows "\<exists>latest v. get_block_number E (geth_url w) w = (Inr latest, v) \<and> curr_block_num w \<le> latest \<and>
    get_header_rlp_by_num E (geth_url w) (curr_block_num w) v = (Inr b, u)"
proof -
  obtain q t where number: "get_block_number E (geth_url w) w = (q, t)" by fastforce
  have t: "curr_block_num t = curr_block_num w" "geth_url t = geth_url w"
    using post_only_fields [OF guarD [OF only_posts_requests(5) number]] by simp_all
  show ?thesis
    using assms number t
    by (auto simp: fetch_new_block_def try_catch_def bnd_def not_less
        split: prod.splits sum.splits fault.splits if_splits)
qed

section \<open>The receiver contract\<close>

text \<open>What \<open>HostBlockService\<close> relies on: a receiver does not touch the service, and a header it returns
from has been delivered, one it throws on has not. The lemmas hold for every receiver with this
contract; \<open>HostTasks\<close> interprets it on the enclave.\<close>

locale block_receiver_contract =
  fixes recv :: "nat \<Rightarrow> bytes \<Rightarrow> ('z host_svc_scheme, unit) prog"
  assumes recv_frame: "recv r b w = (q, u) \<Longrightarrow> curr_block_num u = curr_block_num w \<and> geth_url u = geth_url w"
    and recv_accepts: "recv r b w = (Inr (), u) \<Longrightarrow> delivered (host_log u) = delivered (host_log w) @ [b]"
    and recv_rejects: "recv r b w = (Inl e, u) \<Longrightarrow> delivered (host_log u) = delivered (host_log w)"
begin

lemma push_block_rlp_cases:
  assumes "push_block_rlp recv E b w = (q, u)"
  shows "curr_block_num u = curr_block_num w \<and> geth_url u = geth_url w \<and>
    delivered (host_log u) = delivered (host_log w) @ (if q = Inr () then [b] else [])"
proof (cases "fst (lock_receiver E w) = Inr None")
  case True
  with assms show ?thesis by (auto simp: push_block_rlp_def lock_receiver_def bnd_def)
next
  case False
  then obtain r where "recv r b w = (q, u)"
    using assms by (auto simp: push_block_rlp_def lock_receiver_def bnd_def split: option.splits if_splits)
  with recv_frame [OF this] recv_accepts [of r b w u] recv_rejects [of r b w _ u] show ?thesis
    by (cases q) auto
qed

lemma try_push_cases:
  assumes "try_push_new_block recv E w = (q, u)"
  shows "geth_url u = geth_url w \<and>
    ((\<exists>b latest v t. q = Inr True \<and> get_block_number E (geth_url w) w = (Inr latest, v) \<and> curr_block_num w \<le> latest \<and>
        get_header_rlp_by_num E (geth_url w) (curr_block_num w) v = (Inr b, t) \<and>
        delivered (host_log u) = delivered (host_log w) @ [b] \<and> curr_block_num u = curr_block_num w + 1) \<or>
     q \<noteq> Inr True \<and> delivered (host_log u) = delivered (host_log w) \<and> curr_block_num u = curr_block_num w)"
proof -
  obtain f v where fetch: "fetch_new_block E w = (f, v)" by fastforce
  note v = post_only_fields [OF guarD [OF only_posts_fetch fetch]]
  show ?thesis
  proof (cases "\<exists>b. f = Inr (Some b)")
    case False
    with assms fetch v show ?thesis
      by (auto simp: try_push_new_block_def bnd_def split: sum.splits option.splits)
  next
    case True
    then obtain b where f: "f = Inr (Some b)" by blast
    obtain p t where push: "push_block_rlp recv E b v = (p, t)" by fastforce
    note t = push_block_rlp_cases [OF push]
    show ?thesis
    proof (cases p)
      case (Inl e)
      with assms fetch f push t v show ?thesis by (auto simp: try_push_new_block_def bnd_def)
    next
      case (Inr x)
      with assms fetch f push t v fetch_new_block_Some [of E w b v] show ?thesis
        by (auto simp: try_push_new_block_def bnd_def)
    qed
  qed
qed

end

text \<open>Any number of ticks: each tries once, and the next one starts from whatever state is left.\<close>

fun push_attempts :: "'z recv_block_fn \<Rightarrow> host_env \<Rightarrow> nat \<Rightarrow> 'z host_svc_scheme \<Rightarrow> 'z host_svc_scheme" where
  "push_attempts recv E 0 w = w"
| "push_attempts recv E (Suc n) w = push_attempts recv E n (snd (try_push_new_block recv E w))"

context block_receiver_contract
begin

lemma attempts_consecutive:
  assumes "\<And>url k (w :: 'z host_svc_scheme) b u. get_header_rlp_by_num E url k w = (Inr b, u) \<Longrightarrow> b = hdr k"
  shows "\<exists>j \<le> n. curr_block_num (push_attempts recv E n w) = curr_block_num w + of_nat j \<and>
    delivered (host_log (push_attempts recv E n w)) =
      delivered (host_log w) @ map (\<lambda>i. hdr (curr_block_num w + of_nat i)) [0..<j]"
proof (induction n arbitrary: w)
  case 0
  then show ?case by simp
next
  case (Suc n)
  obtain q u where run: "try_push_new_block recv E w = (q, u)" by fastforce
  from Suc.IH [of u] obtain j where j: "j \<le> n"
    "curr_block_num (push_attempts recv E n u) = curr_block_num u + of_nat j"
    "delivered (host_log (push_attempts recv E n u)) =
      delivered (host_log u) @ map (\<lambda>i. hdr (curr_block_num u + of_nat i)) [0..<j]" by blast
  from try_push_cases [OF run] consider
      (pushed) b and v t :: "'z host_svc_scheme" where "get_header_rlp_by_num E (geth_url w) (curr_block_num w) v = (Inr b, t)"
        "delivered (host_log u) = delivered (host_log w) @ [b]" "curr_block_num u = curr_block_num w + 1"
    | (idle) "delivered (host_log u) = delivered (host_log w)" "curr_block_num u = curr_block_num w"
    by blast
  then show ?case
  proof cases
    case pushed
    then have "b = hdr (curr_block_num w)" using assms by blast
    moreover have "map (\<lambda>i. hdr (curr_block_num w + of_nat i)) [0..<Suc j]
        = hdr (curr_block_num w) # map (\<lambda>i. hdr (curr_block_num w + 1 + of_nat i)) [0..<j]"
      by (simp only: map_upt_Suc) (simp add: algebra_simps)
    ultimately show ?thesis
      using pushed j run by (intro exI [of _ "Suc j"]) (simp add: algebra_simps del: upt_Suc)
  next
    case idle
    with j run show ?thesis by (intro exI [of _ j]) simp
  qed
qed

end

end
