(* ===== verification/HostTasks.thy ===== *)
theory HostTasks
  imports HostBlockService
begin

text \<open>
  Untrusted/HostBlockServiceTasks.hpp and the untrusted side of the block path: the task that keeps
  pushing blocks and switches its tick interval, the task that reports progress, and
  \<^verbatim>\<open>DecentEthereumEnclave::RecvBlock\<close> (src/Untrusted/DecentEthereumEnclave.hpp), the \<^verbatim>\<open>BlockReceiver\<close>
  that hands a header to the enclave through the ECALL.

  The timer of \<^verbatim>\<open>TickingTask\<close> is a library: \<open>interval_enabled_at\<close> reads it, and switching it enters the
  log. The quotient printed as a rate is a \<^verbatim>\<open>float\<close>, left to \<open>show_rate\<close>.
\<close>

section \<open>DecentEthereumEnclave as a BlockReceiver\<close>

definition check_delivery :: "host_env \<Rightarrow> nat \<Rightarrow> bytes \<Rightarrow> sgx_status \<Rightarrow> sgx_status \<Rightarrow> ('z host_rt_scheme, unit) prog" where
  "check_delivery E r block_rlp status retval =
     (case check_ecall E status retval of
        Inl what \<Rightarrow> bnd (host_note (DeliveryFailed r block_rlp)) (\<lambda>_. raise what)
      | Inr _ \<Rightarrow> host_note (Delivered r block_rlp))"

definition enclave_recv_block :: "host_env \<Rightarrow> nat \<Rightarrow> bytes \<Rightarrow> ('z host_rt_scheme, unit) prog" where
  "enclave_recv_block E r block_rlp =
     bnd (host_ask (\<lambda>h. ecall_recv_at E h r block_rlp)) (\<lambda>(status, retval).
     check_delivery E r block_rlp status retval)"

lemma check_delivery_run [prog_run]:
  "check_delivery E r b status retval w =
     (case check_ecall E status retval of
        Inl what \<Rightarrow> (Inl (Raised what), w\<lparr>host_log := DeliveryFailed r b # host_log w\<rparr>)
      | Inr _ \<Rightarrow> (Inr (), w\<lparr>host_log := Delivered r b # host_log w\<rparr>))"
  by (simp add: check_delivery_def prog_run split: sum.split)

section \<open>BlockUpdatorServiceTask\<close>

definition task_upd_interval_mli_sec :: int where
  "task_upd_interval_mli_sec = 200"

definition updator_tick ::
    "'z recv_block_fn \<Rightarrow> host_env \<Rightarrow> int \<Rightarrow> ('z host_svc_scheme, unit) prog" where
  "updator_tick recv E retry_interval =
     bnd (host_ask (service_alive_at E)) (\<lambda>alive.
     if alive then
       bnd (try_push_new_block recv E) (\<lambda>pushed.
       bnd (host_ask (interval_enabled_at E)) (\<lambda>enabled.
       if pushed then
         (if enabled then host_note IntervalDisabled else ret ())
       else
         (if \<not> enabled then host_note (IntervalSet task_upd_interval_mli_sec retry_interval)
          else ret ())))
     else raise ''BlockUpdatorServiceTask - HostBlockService is not available'')"

section \<open>HostBlockStatusLogTask\<close>

record status_svc = host_svc +
  last_block_num :: u64

definition host_block_status_log_task :: "host_svc \<Rightarrow> status_svc" where
  "host_block_status_log_task w = host_svc.extend w \<lparr>last_block_num = 0\<rparr>"

definition status_tick :: "host_env \<Rightarrow> int \<Rightarrow> ('z status_svc_scheme, unit) prog" where
  "status_tick E upd_interval =
     bnd (host_ask (service_alive_at E)) (\<lambda>alive.
     if alive then
       bnd get_curr_block_num (\<lambda>curr.
       bnd (reads last_block_num) (\<lambda>last.
       bnd (host_note (Printed
              (''HostBlockServiceStatus: '' @ ''BlockNum='' @ to_string curr @ '', '' @
               ''Rate='' @ show_rate E (curr - last) upd_interval @ '' blocks/sec''))) (\<lambda>_.
       updates (\<lambda>w. w\<lparr>last_block_num := curr\<rparr>))))
     else raise ''HostBlockStatusLogTask - HostBlockService is not available'')"

section \<open>The enclave keeps the receiver contract\<close>

interpretation enclave_receiver: block_receiver_contract "enclave_recv_block E" for E
  by unfold_locales
    (auto simp: enclave_recv_block_def prog_run split: prod.splits sum.splits)

definition example_host :: host_svc where
  "example_host = \<lparr>host_log = [], geth_url = ''http://node'', block_receiver = Some 4, curr_block_num = 5\<rparr>"

lemma example_header_reply:
  "get_header_rlp_by_num example_host_env url k w = (Inr [1], w\<lparr>host_log := Posted url ''json'' # host_log w\<rparr>)"
  by (simp add: get_header_rlp_by_num_def get_header_rlp_by_param_def geth_call_def build_request_body_def
      post_request_def prog_run proc_resp_single_bytes_def resp_result_def decode_hex_str_def)

lemma example_number_reply:
  "get_block_number example_host_env url w = (Inr 9, w\<lparr>host_log := Posted url ''json'' # host_log w\<rparr>)"
  by (simp add: get_block_number_def geth_call_def build_request_body_def post_request_def prog_run
      proc_resp_int_def proc_resp_single_bytes_def resp_result_def decode_hex_str_def)

lemma example_push:
  "fst (try_push_new_block (enclave_recv_block example_host_env) example_host_env example_host) = Inr True"
  by (simp add: try_push_new_block_def fetch_new_block_def prog_run example_number_reply example_header_reply
      push_block_rlp_def lock_receiver_def enclave_recv_block_def example_host_def)

lemma attempt_pushes:
  fixes w :: "'z host_svc_scheme"
  assumes "\<And>url (w :: 'z host_svc_scheme). \<exists>u. get_block_number E url w = (Inr latest, u)"
    and "\<And>url k (w :: 'z host_svc_scheme). k \<le> latest \<Longrightarrow> \<exists>u. get_header_rlp_by_num E url k w = (Inr (hdr k), u)"
    and "\<And>h. receiver_alive_at E h r" "\<And>h b. ecall_recv_at E h r b = (SGX_SUCCESS, SGX_SUCCESS)"
    and "check_ecall E SGX_SUCCESS SGX_SUCCESS = Inr ()" "block_receiver w = Some r" "curr_block_num w \<le> latest"
  shows "\<exists>u. try_push_new_block (enclave_recv_block E) E w = (Inr True, u) \<and> block_receiver u = Some r \<and>
    curr_block_num u = curr_block_num w + 1 \<and>
    delivered (host_log u) = delivered (host_log w) @ [hdr (curr_block_num w)]"
proof -
  obtain v where number: "get_block_number E (geth_url w) w = (Inr latest, v)" using assms(1) by blast
  note v = post_only_fields [OF guarD [OF only_posts_requests(5) number]]
  obtain t where header: "get_header_rlp_by_num E (geth_url w) (curr_block_num w) v = (Inr (hdr (curr_block_num w)), t)"
    using assms(2,7) by blast
  note t = post_only_fields [OF guarD [OF only_posts_requests(4) header]]
  have "fetch_new_block E w = (Inr (Some (hdr (curr_block_num w))), t)"
    using number header v(1) assms(7) by (simp add: fetch_new_block_def prog_run not_less)
  with assms(3-6) v t show ?thesis
    by (simp add: try_push_new_block_def push_block_rlp_def lock_receiver_def enclave_recv_block_def prog_run)
qed

text \<open>A status tick reports the number of blocks since the previous tick, modulo \<open>2 ^ 64\<close>; the first
one, with the counter still at zero, reports the block number itself.\<close>

lemma status_reports_progress:
  assumes "service_alive_at E (host_log w)"
  shows "status_tick E interval w =
    (Inr (), w\<lparr>last_block_num := curr_block_num w,
       host_log := Printed (''HostBlockServiceStatus: BlockNum='' @ to_string (curr_block_num w) @
         '', Rate='' @ show_rate E (curr_block_num w - last_block_num w) interval @ '' blocks/sec'') # host_log w\<rparr>) \<and>
    unat (curr_block_num w - last_block_num w) =
      (if last_block_num w \<le> curr_block_num w then unat (curr_block_num w) - unat (last_block_num w)
       else unat (curr_block_num w) + 2 ^ 64 - unat (last_block_num w)) \<and>
    (last_block_num w = 0 \<longrightarrow> curr_block_num w - last_block_num w = curr_block_num w)"
proof (intro conjI)
  show "unat (curr_block_num w - last_block_num w) =
      (if last_block_num w \<le> curr_block_num w then unat (curr_block_num w) - unat (last_block_num w)
       else unat (curr_block_num w) + 2 ^ 64 - unat (last_block_num w))"
    by (simp add: unat_sub_if_size word_size word_le_nat_alt)
qed (use assms in \<open>simp_all add: status_tick_def get_curr_block_num_def prog_run\<close>)

lemma first_status_counts_from_zero:
  assumes "service_alive_at E (host_log w)"
  shows "host_log (snd (status_tick E interval (host_block_status_log_task w))) =
    Printed (''HostBlockServiceStatus: BlockNum='' @ to_string (curr_block_num w) @ '', Rate='' @
      show_rate E (curr_block_num w) interval @ '' blocks/sec'') # host_log w"
  using assms status_reports_progress [of E "host_block_status_log_task w" interval]
  by (simp add: host_block_status_log_task_def host_svc.defs)

section \<open>Properties\<close>

text \<open>C28: the loop makes progress: as long as the node has the blocks, serves their headers and the
enclave accepts them, every attempt pushes one: after \<open>n\<close> attempts exactly \<open>n\<close> headers have been
delivered, those of the next \<open>n\<close> block numbers in order, and the cursor has moved by \<open>n\<close>.\<close>

theorem every_attempt_pushes:
  fixes w :: "'z host_svc_scheme"
  assumes "\<And>url (w :: 'z host_svc_scheme). \<exists>u. get_block_number E url w = (Inr latest, u)"
    and "\<And>url k (w :: 'z host_svc_scheme). k \<le> latest \<Longrightarrow> \<exists>u. get_header_rlp_by_num E url k w = (Inr (hdr k), u)"
    and "\<And>h. receiver_alive_at E h r" "\<And>h b. ecall_recv_at E h r b = (SGX_SUCCESS, SGX_SUCCESS)"
    and "check_ecall E SGX_SUCCESS SGX_SUCCESS = Inr ()" "block_receiver w = Some r"
    and "unat (curr_block_num w) + n \<le> Suc (unat latest)"
  shows "curr_block_num (push_attempts (enclave_recv_block E) E n w) = curr_block_num w + of_nat n \<and>
    delivered (host_log (push_attempts (enclave_recv_block E) E n w)) =
      delivered (host_log w) @ map (\<lambda>i. hdr (curr_block_num w + of_nat i)) [0..<n]"
  using assms(6,7)
proof (induction n arbitrary: w)
  case 0
  then show ?case by simp
next
  case (Suc n)
  then have "curr_block_num w \<le> latest" by (simp add: word_le_nat_alt)
  with attempt_pushes [OF assms(1-5) Suc.prems(1)] obtain u where
      push: "try_push_new_block (enclave_recv_block E) E w = (Inr True, u)" "block_receiver u = Some r"
      "curr_block_num u = curr_block_num w + 1" "delivered (host_log u) = delivered (host_log w) @ [hdr (curr_block_num w)]"
    by blast
  have "unat (curr_block_num w + 1) \<le> Suc (unat (curr_block_num w))"
    by (simp add: unat_word_ariths)
  with Suc.prems(2) push(3) have "unat (curr_block_num u) + n \<le> Suc (unat latest)" by simp
  note rest = Suc.IH [OF push(2) this]
  have "map (\<lambda>i. hdr (curr_block_num w + of_nat i)) [0..<Suc n]
      = hdr (curr_block_num w) # map (\<lambda>i. hdr (curr_block_num w + 1 + of_nat i)) [0..<n]"
    by (simp only: map_upt_Suc) (simp add: algebra_simps)
  with rest push show ?case by (simp add: algebra_simps del: upt_Suc)
qed

theorem every_attempt_pushes_witness:
  "delivered (host_log (push_attempts (enclave_recv_block example_host_env) example_host_env 3 example_host))
    = [[1], [1], [1]]"
proof -
  have "curr_block_num (push_attempts (enclave_recv_block example_host_env) example_host_env 3 example_host)
        = curr_block_num example_host + of_nat 3 \<and>
      delivered (host_log (push_attempts (enclave_recv_block example_host_env) example_host_env 3 example_host)) =
        delivered (host_log example_host) @ map (\<lambda>i. (\<lambda>u. [1]) (curr_block_num example_host + of_nat i)) [0..<3]"
    by (rule every_attempt_pushes [where latest = 9 and r = 4])
      (simp_all add: example_number_reply example_header_reply example_host_def)
  then show ?thesis by (simp add: example_host_def upt_rec)
qed

text \<open>The tick interval as the calls of the task leave it.\<close>

fun interval_on :: "bool \<Rightarrow> host_history \<Rightarrow> bool" where
  "interval_on b [] = b"
| "interval_on b (IntervalDisabled # h) = False"
| "interval_on b (IntervalSet every limit # h) = True"
| "interval_on b (_ # h) = interval_on b h"

text \<open>After a tick that has pushed a block the tick interval is off, so that the next block follows
without delay, and after one that has not it is on; the timer is switched only when it has to be.\<close>

theorem tick_interval_follows:
  assumes "\<And>h. interval_enabled_at E h = interval_on b h" "service_alive_at E (host_log w)"
    and "try_push_new_block recv E w = (Inr pushed, v)"
  shows "\<exists>u. updator_tick recv E retry w = (Inr (), u) \<and> interval_on b (host_log u) = (\<not> pushed) \<and>
    (interval_on b (host_log v) = (\<not> pushed) \<longrightarrow> u = v)"
  using assms by (auto simp: updator_tick_def prog_run)

theorem tick_interval_follows_witness:
  "\<exists>u. updator_tick (enclave_recv_block example_host_env)
      (example_host_env\<lparr>interval_enabled_at := interval_on True\<rparr>) 1000 example_host = (Inr (), u) \<and>
    \<not> interval_on True (host_log u)"
proof -
  let ?E = "example_host_env\<lparr>interval_enabled_at := interval_on True\<rparr>"
  have "fst (try_push_new_block (enclave_recv_block example_host_env) ?E example_host) = Inr True"
    by (simp add: try_push_new_block_def fetch_new_block_def prog_run get_block_number_def
        get_header_rlp_by_num_def get_header_rlp_by_param_def geth_call_def build_request_body_def
        post_request_def proc_resp_int_def proc_resp_single_bytes_def resp_result_def decode_hex_str_def
        convert_blk_num_to_hex_def push_block_rlp_def lock_receiver_def enclave_recv_block_def example_host_def)
  then have run: "try_push_new_block (enclave_recv_block example_host_env) ?E example_host
      = (Inr True, snd (try_push_new_block (enclave_recv_block example_host_env) ?E example_host))"
    by (metis prod.collapse)
  show ?thesis
    using tick_interval_follows [of ?E True example_host, OF _ _ run] by auto
qed

end
