(* ===== verification/HostAndEnclave.thy ===== *)
theory HostAndEnclave
  imports BlockProcessing HostTasks
begin

text \<open>
  The host process and its enclave together. \<open>linked_recv_block\<close> is
  \<^verbatim>\<open>DecentEthereumEnclave::RecvBlock\<close> with the ECALL it makes resolved to the function of
  \<open>EnclaveMain\<close> that implements it, so that the two halves of the model share one run: the host's
  loop fetches a header from the node and the enclave processes it. Only the transport of the call
  is left to the outside: it is the first status of \<open>ecall_recv_at\<close>, and a call whose transport fails
  has not run in the enclave.

  The linked receiver keeps the contract of a block receiver (a second interpretation of
  \<open>block_receiver_contract\<close>), and the host's loop drives the enclave through exactly the headers it
  counts as delivered.
\<close>

record attached = host_svc +
  enclave_sys :: system

type_synonym sys_update = "unit system_ext process_ext monitor_update"
type_synonym sys_check = "unit system_ext process_ext check_events"

definition linked_recv_block ::
    "sys_update \<Rightarrow> sys_check \<Rightarrow> env \<Rightarrow> host_env \<Rightarrow> nat \<Rightarrow> bytes \<Rightarrow> ('z attached_scheme, unit) prog" where
  "linked_recv_block upd chk EE E r block_rlp = (\<lambda>w.
     case ecall_recv_at E (host_log w) r block_rlp of (status, garbage) \<Rightarrow>
       if status \<noteq> SGX_SUCCESS then check_delivery E r block_rlp status garbage w
       else
         (case ecall_decent_ethereum_recv_block upd chk EE block_rlp (enclave_sys w) of
            (Inl e, t) \<Rightarrow> (Inl e, w\<lparr>enclave_sys := t\<rparr>)
          | (Inr retval, t) \<Rightarrow> check_delivery E r block_rlp status retval (w\<lparr>enclave_sys := t\<rparr>)))"

interpretation linked_receiver: block_receiver_contract "linked_recv_block upd chk EE E" for upd chk EE E
  by unfold_locales
    (auto simp: linked_recv_block_def check_delivery_run split: prod.splits sum.splits if_splits)

text \<open>The macro \<^verbatim>\<open>DECENTENCLAVE_SGX_ECALL_CHECK_ERROR_E_R\<close> throws unless both statuses are success.\<close>

definition checks_ecall :: "host_env \<Rightarrow> bool" where
  "checks_ecall E \<longleftrightarrow>
     (\<forall>status retval. (check_ecall E status retval = Inr ()) = (status = SGX_SUCCESS \<and> retval = SGX_SUCCESS))"

text \<open>The enclave goes from one state to another by processing a list of headers, in order, each without
an exception, and between them any headers on which it threw.\<close>

inductive fed :: "sys_update \<Rightarrow> sys_check \<Rightarrow> env \<Rightarrow> system \<Rightarrow> bytes list \<Rightarrow> system \<Rightarrow> bool" for upd chk EE where
  fed_nil: "fed upd chk EE w [] w"
| fed_accepted: "append_block upd chk EE b w = (Inr (), v) \<Longrightarrow> fed upd chk EE v bs u \<Longrightarrow> fed upd chk EE w (b # bs) u"
| fed_rejected: "append_block upd chk EE b w = (Inl (Raised what), v) \<Longrightarrow>
    fed upd chk EE (v\<lparr>history := Logged Error ''Platform::Print'' what # history v\<rparr>) bs u \<Longrightarrow> fed upd chk EE w bs u"

lemma fed_append: "fed upd chk EE w bs v \<Longrightarrow> fed upd chk EE v bs' u \<Longrightarrow> fed upd chk EE w (bs @ bs') u"
  by (induction rule: fed.induct) (auto intro: fed.intros)

section \<open>One block through the ECALL\<close>

lemma ecall_feeds:
  assumes "reachable EE w" "abi_word_sized EE" "runs_callbacks upd" "runs_listeners (invoke EE) chk"
    and "ecall_decent_ethereum_recv_block upd chk EE b w = (q, u)"
  shows "(q = Inr SGX_SUCCESS \<and> fed upd chk EE w [b] u \<or> q = Inr SGX_ERROR_UNEXPECTED \<and> fed upd chk EE w [] u) \<and>
    reachable EE u"
proof -
  obtain r v where run: "append_block upd chk EE b w = (r, v)" by fastforce
  have set: "mgr_set w" using assms(1) by (rule reachable_mgr_set)
  from append_block_steps [OF reachable_inv [OF assms(1)] assms(2-4) run]
  obtain ls where ls: "sys_run EE w ls v" "\<not> is_undef r" by blast
  then have v: "reachable EE v" using reachable_run [OF assms(1)] by blast
  show ?thesis
  proof (cases r)
    case (Inr x)
    with run set assms(5) have "q = Inr SGX_SUCCESS" "u = v"
      by (simp_all add: ecall_decent_ethereum_recv_block_def ecall_def recv_block_def deref_mgr_def)
    with run Inr v show ?thesis by (auto intro: fed.intros)
  next
    case (Inl e)
    with ls(2) obtain what where e: "e = Raised what" by (cases e) simp_all
    let ?u = "v\<lparr>history := Logged Error ''Platform::Print'' what # history v\<rparr>"
    have "q = Inr SGX_ERROR_UNEXPECTED" "u = ?u"
      using run set assms(5) Inl e
      by (simp_all add: ecall_decent_ethereum_recv_block_def ecall_def recv_block_def deref_mgr_def
          platform_print_def log_msg_run try_catch_def)
    moreover have "reachable EE ?u"
      using reachable_step [OF v step_log] by (simp add: log_msg_run)
    moreover have "fed upd chk EE w [] ?u"
      using run Inl e by (auto intro: fed_rejected fed_nil)
    ultimately show ?thesis by simp
  qed
qed

lemma linked_recv_feeds:
  assumes "reachable EE (enclave_sys w)" "abi_word_sized EE" "runs_callbacks upd" "runs_listeners (invoke EE) chk"
    and "checks_ecall E" "linked_recv_block upd chk EE E r b w = (q, u)"
  shows "\<exists>bs. delivered (host_log u) = delivered (host_log w) @ bs \<and>
    fed upd chk EE (enclave_sys w) bs (enclave_sys u) \<and> reachable EE (enclave_sys u)"
proof -
  obtain status garbage where link: "ecall_recv_at E (host_log w) r b = (status, garbage)" by fastforce
  obtain p t where ecall: "ecall_decent_ethereum_recv_block upd chk EE b (enclave_sys w) = (p, t)" by fastforce
  note feeds = ecall_feeds [OF assms(1-4) ecall]
  show ?thesis
  proof (cases "status = SGX_SUCCESS")
    case False
    with assms(5) obtain m where "check_ecall E status garbage = Inl m"
      unfolding checks_ecall_def by (cases "check_ecall E status garbage") auto
    with assms(1,6) link False show ?thesis
      by (intro exI [of _ "[]"]) (auto simp: linked_recv_block_def check_delivery_run intro: fed_nil)
  next
    case True
    from feeds consider "p = Inr SGX_SUCCESS" "fed upd chk EE (enclave_sys w) [b] t"
      | "p = Inr SGX_ERROR_UNEXPECTED" "fed upd chk EE (enclave_sys w) [] t" by blast
    then show ?thesis
    proof cases
      case 1
      with assms(5) have "check_ecall E SGX_SUCCESS SGX_SUCCESS = Inr ()" by (simp add: checks_ecall_def)
      with assms(6) link True ecall feeds 1 show ?thesis
        by (intro exI [of _ "[b]"]) (auto simp: linked_recv_block_def check_delivery_run)
    next
      case 2
      with assms(5) obtain m where "check_ecall E SGX_SUCCESS SGX_ERROR_UNEXPECTED = Inl m"
        unfolding checks_ecall_def by (cases "check_ecall E SGX_SUCCESS SGX_ERROR_UNEXPECTED") auto
      with assms(6) link True ecall feeds 2 show ?thesis
        by (intro exI [of _ "[]"]) (auto simp: linked_recv_block_def check_delivery_run)
    qed
  qed
qed

lemma attempt_feeds:
  assumes "reachable EE (enclave_sys w)" "abi_word_sized EE" "runs_callbacks upd" "runs_listeners (invoke EE) chk"
    and "checks_ecall E" "try_push_new_block (linked_recv_block upd chk EE E) E w = (q, u)"
  shows "\<exists>bs. delivered (host_log u) = delivered (host_log w) @ bs \<and>
    fed upd chk EE (enclave_sys w) bs (enclave_sys u) \<and> reachable EE (enclave_sys u)"
proof -
  obtain f v where fetch: "fetch_new_block E w = (f, v)" by fastforce
  have posts: "only_posts w v" using only_posts_fetch fetch by (rule guarD)
  then have "enclave_sys v = enclave_sys w" by (auto simp: only_posts_def)
  note v = this only_posts_delivered [OF posts]
  have idle: ?thesis if "enclave_sys u = enclave_sys v" "delivered (host_log u) = delivered (host_log v)"
    using that v assms(1) by (intro exI [of _ "[]"]) (simp add: fed_nil)
  show ?thesis
  proof (cases "\<exists>b r. f = Inr (Some b) \<and> lock_receiver E v = (Inr (Some r), v)")
    case False
    then show ?thesis
      using fetch assms(6)
      by (intro idle) (auto simp: try_push_new_block_def push_block_rlp_def lock_receiver_def bnd_def
          split: sum.splits option.splits if_splits)
  next
    case True
    then obtain b r where f: "f = Inr (Some b)" "lock_receiver E v = (Inr (Some r), v)" by blast
    obtain p t where recv: "linked_recv_block upd chk EE E r b v = (p, t)" by fastforce
    have "enclave_sys u = enclave_sys t" "host_log u = host_log t"
      using fetch f recv assms(6)
      by (auto simp: try_push_new_block_def push_block_rlp_def bnd_def split: sum.splits)
    with linked_recv_feeds [OF _ assms(2-5) recv] assms(1) v show ?thesis by simp
  qed
qed

lemma attempts_feed:
  assumes "reachable EE (enclave_sys w)" "abi_word_sized EE" "runs_callbacks upd" "runs_listeners (invoke EE) chk"
    and "checks_ecall E"
  defines "recv \<equiv> linked_recv_block upd chk EE E"
  shows "\<exists>bs. delivered (host_log (push_attempts recv E n w)) = delivered (host_log w) @ bs \<and>
    fed upd chk EE (enclave_sys w) bs (enclave_sys (push_attempts recv E n w)) \<and>
    reachable EE (enclave_sys (push_attempts recv E n w))"
  using assms(1)
proof (induction n arbitrary: w)
  case 0
  then show ?case by (intro exI [of _ "[]"]) (simp add: fed_nil)
next
  case (Suc n)
  obtain q u where run: "try_push_new_block recv E w = (q, u)" by fastforce
  from attempt_feeds [OF Suc.prems assms(2-5)] run obtain bs where
      one: "delivered (host_log u) = delivered (host_log w) @ bs" "fed upd chk EE (enclave_sys w) bs (enclave_sys u)"
      "reachable EE (enclave_sys u)" unfolding recv_def by blast
  from Suc.IH [OF one(3)] obtain bs' where
      "delivered (host_log (push_attempts recv E n u)) = delivered (host_log u) @ bs'"
      "fed upd chk EE (enclave_sys u) bs' (enclave_sys (push_attempts recv E n u))"
      "reachable EE (enclave_sys (push_attempts recv E n u))" by blast
  with one run show ?case
    by (intro exI [of _ "bs @ bs'"]) (simp add: fed_append)
qed

section \<open>Properties\<close>

text \<open>C11: end to end: however many attempts the host makes and however each ends, its loop takes the
enclave through the headers of consecutive block numbers, from its first cursor on, each processed by
the manager once without an exception and in order; the enclave is in a reachable state, and the
cursor is the next number. The node is assumed to answer a block number with one header.\<close>

theorem host_feeds_enclave:
  assumes "\<And>url k (w :: 'z attached_scheme) b u. get_header_rlp_by_num E url k w = (Inr b, u) \<Longrightarrow> b = hdr k"
    and "checks_ecall E" "reachable EE (enclave_sys w)" "abi_word_sized EE"
    and "runs_callbacks upd" "runs_listeners (invoke EE) chk"
  shows "\<exists>j \<le> n.
    fed upd chk EE (enclave_sys (w :: 'z attached_scheme)) (map (\<lambda>i. hdr (curr_block_num w + of_nat i)) [0..<j])
      (enclave_sys (push_attempts (linked_recv_block upd chk EE E) E n w)) \<and>
    curr_block_num (push_attempts (linked_recv_block upd chk EE E) E n w) = curr_block_num w + of_nat j \<and>
    reachable EE (enclave_sys (push_attempts (linked_recv_block upd chk EE E) E n w))"
proof -
  let ?u = "push_attempts (linked_recv_block upd chk EE E) E n w"
  obtain bs where bs: "delivered (host_log ?u) = delivered (host_log w) @ bs"
      "fed upd chk EE (enclave_sys w) bs (enclave_sys ?u)" "reachable EE (enclave_sys ?u)"
    using attempts_feed [OF assms(3-6,2)] by blast
  have "\<exists>j \<le> n. curr_block_num ?u = curr_block_num w + of_nat j \<and>
      delivered (host_log ?u) = delivered (host_log w) @ map (\<lambda>i. hdr (curr_block_num w + of_nat i)) [0..<j]"
    by (rule linked_receiver.attempts_consecutive) (rule assms(1))
  with bs show ?thesis by auto
qed

definition example_attached :: attached where
  "example_attached = host_svc.extend example_host \<lparr>enclave_sys = example_registered\<rparr>"

theorem host_feeds_enclave_witness:
  "\<exists>j \<le> 3. fed (\<lambda>v c rlp. v example_header)
      (\<lambda>hdr getter. call_listener (invoke example_env) hdr 2 example_notify_log) example_env
      example_registered (replicate j [1])
      (enclave_sys (push_attempts (linked_recv_block (\<lambda>v c rlp. v example_header)
        (\<lambda>hdr getter. call_listener (invoke example_env) hdr 2 example_notify_log) example_env example_host_env)
        example_host_env 3 example_attached))"
proof -
  let ?upd = "\<lambda>v c rlp. v example_header :: (system, unit) prog"
    and ?chk = "\<lambda>hdr getter. call_listener (invoke example_env) hdr 2 example_notify_log :: (system, unit) prog"
  let ?u = "push_attempts (linked_recv_block ?upd ?chk example_env example_host_env) example_host_env 3 example_attached"
  have attached: "enclave_sys example_attached = example_registered"
    by (simp add: example_attached_def host_svc.defs)
  have "checks_ecall example_host_env" by (simp add: checks_ecall_def)
  moreover have "b = [1]" if "get_header_rlp_by_num example_host_env url k w = (Inr b, u)"
    for url k b and w u :: attached
    using that by (simp add: example_header_reply)
  ultimately have "\<exists>j \<le> 3. fed ?upd ?chk example_env (enclave_sys example_attached)
      (map (\<lambda>i. (\<lambda>k. [1]) (curr_block_num example_attached + of_nat i)) [0..<j]) (enclave_sys ?u) \<and>
      curr_block_num ?u = curr_block_num example_attached + of_nat j \<and> reachable example_env (enclave_sys ?u)"
    using example_reachable(3) attached
    by (intro host_feeds_enclave example_abi_word_sized example_quiet_libraries) simp_all
  then show ?thesis
    using attached by (auto simp: map_replicate_const)
qed

end
