(* ===== verification/HostMain.thy ===== *)
theory HostMain
  imports HostTasks
begin

text \<open>
  src/Untrusted/Main.cpp: reading the configuration, building the enclave and starting the block
  update tasks, and the three functions the enclave calls through OCALLs. The event loop of the
  process is \<open>SignalLoop\<close>. An array that no statement has written has indeterminate bytes: it is a
  list of \<open>byte option\<close>, \<open>None\<close> where the byte is indeterminate.
\<close>

section \<open>Configuration\<close>

text \<open>\<^verbatim>\<open>std::string s = obj.AsString().c_str()\<close> ends at the first NUL.\<close>

definition c_str :: "string \<Rightarrow> string" where
  "c_str s = takeWhile (\<lambda>c. c \<noteq> CHR 0x00) s"

definition config_path :: "string list \<Rightarrow> string option" where
  "config_path argv =
     (if length argv = 1 then Some ''../../src/components_config.json''
      else if length argv = 2 then Some (argv ! 1)
      else None)"

definition uninit_array :: "nat \<Rightarrow> byte option list" where
  "uninit_array n = replicate n None"

text \<open>\<^verbatim>\<open>std::copy(src.begin(), src.end(), arr.begin())\<close> into an array at least as long.\<close>

definition copy_into :: "byte option list \<Rightarrow> bytes \<Rightarrow> byte option list res" where
  "copy_into arr src =
     (if length src \<le> length arr then Inr (map Some src @ drop (length src) arr)
      else Inl (Undef (BadCall ''std::copy'')))"

record main_config =
  geth_url_cfg :: string
  sync_addr_cfg :: "byte option list"
  pubsub_addr_cfg :: "byte option list"
  start_block_cfg :: u64
  img_path_cfg :: string
  token_path_cfg :: string

definition json_string_at :: "host_env \<Rightarrow> json \<Rightarrow> string \<Rightarrow> string res" where
  "json_string_at E d key =
     bind_res (of_lib (json_dict_at E d key)) (\<lambda>v.
     bind_res (of_lib (json_as_string E v)) (\<lambda>s. Inr (c_str s)))"

definition read_main_config :: "host_env \<Rightarrow> json \<Rightarrow> main_config res" where
  "read_main_config E config =
     bind_res (of_lib (json_dict_at E config ''Geth'')) (\<lambda>geth.
     bind_res (json_string_at E geth ''Protocol'') (\<lambda>geth_proto.
     bind_res (json_string_at E geth ''Host'') (\<lambda>geth_host.
     bind_res (of_lib (json_dict_at E geth ''Port'')) (\<lambda>port_obj.
     bind_res (of_lib (json_as_u32 E port_obj)) (\<lambda>geth_port.
     bind_res (json_string_at E geth ''SyncAddr'') (\<lambda>sync_addr_hex.
     bind_res (of_lib (hex_decode E sync_addr_hex)) (\<lambda>sync_addr_bytes.
     let sync_addr = uninit_array 20 in
     if length sync_addr_bytes \<noteq> length sync_addr
     then Inl (Raised ''Invalid Sync contract address.'')
     else
     let geth_url = geth_proto @ ''://'' @ geth_host @ '':'' @ dec_string (unat geth_port) in
     bind_res (of_lib (json_dict_at E config ''PubSub'')) (\<lambda>pubsub.
     bind_res (json_string_at E pubsub ''PubSubAddr'') (\<lambda>pubsub_addr_hex.
     bind_res (of_lib (json_dict_at E pubsub ''StartBlock'')) (\<lambda>start_obj.
     bind_res (of_lib (json_as_u64 E start_obj)) (\<lambda>start_block.
     bind_res (of_lib (hex_decode E pubsub_addr_hex)) (\<lambda>pubsub_addr_bytes.
     let pubsub_addr = uninit_array 20 in
     if length pubsub_addr_bytes \<noteq> length pubsub_addr
     then Inl (Raised ''Invalid Pub-Sub contract address.'')
     else
     bind_res (copy_into pubsub_addr pubsub_addr_bytes) (\<lambda>pubsub_addr.
     bind_res (of_lib (json_dict_at E config ''EnclaveImage'')) (\<lambda>img.
     bind_res (json_string_at E img ''ImagePath'') (\<lambda>img_path.
     bind_res (json_string_at E img ''TokenPath'') (\<lambda>token_path.
     Inr \<lparr>geth_url_cfg = geth_url, sync_addr_cfg = sync_addr, pubsub_addr_cfg = pubsub_addr,
          start_block_cfg = start_block, img_path_cfg = img_path, token_path_cfg = token_path\<rparr>))))))))))))))))"

section \<open>Starting to send blocks\<close>

definition start_sending_blocks :: "u64 \<Rightarrow> ('z host_svc_scheme, unit) prog" where
  "start_sending_blocks start_num =
     bnd get_curr_block_num (\<lambda>curr.
     if curr \<noteq> 0 then raise ''Block update service already started.''
     else
       bnd (set_upd_svc_start_block start_num) (\<lambda>_.
       bnd (host_note (TaskAdded ''HostBlockStatusLogTask'' (10 * 1000))) (\<lambda>_.
       host_note (TaskAdded ''BlockUpdatorServiceTask'' (1 * 1000)))))"

section \<open>OCALLs\<close>

text \<open>An OCALL returns its status and, when it succeeds, what it writes to the output pointers.\<close>

definition ocall :: "string \<Rightarrow> ('z host_rt_scheme, 'a) prog \<Rightarrow> ('z host_rt_scheme, sgx_status \<times> 'a option) prog" where
  "ocall name m =
     try_catch (bnd m (\<lambda>x. ret (SGX_SUCCESS, Some x)))
       (\<lambda>what. bnd (host_note (HostLogged (name @ '' failed with error '' @ what))) (\<lambda>_.
               ret (SGX_ERROR_UNEXPECTED, None)))"

definition ocall_decent_ethereum_get_receipts ::
    "host_env \<Rightarrow> u64 \<Rightarrow> ('z host_svc_scheme, sgx_status \<times> bytes option) prog" where
  "ocall_decent_ethereum_get_receipts E blk_num =
     ocall ''ocall_decent_ethereum_get_receipts''
       (bnd (get_receipts_rlp_of_block E blk_num) (\<lambda>receipts. lib (write_rlp E receipts)))"

definition ocall_decent_ethereum_get_latest_blknum ::
    "host_env \<Rightarrow> ('z host_svc_scheme, sgx_status \<times> u64 option) prog" where
  "ocall_decent_ethereum_get_latest_blknum E =
     ocall ''ocall_decent_ethereum_get_latest_blknum'' (get_latest_block_num_host E)"

definition ocall_decent_ethereum_send_raw_transaction ::
    "host_env \<Rightarrow> bytes \<Rightarrow> ('z host_svc_scheme, sgx_status \<times> bytes option) prog" where
  "ocall_decent_ethereum_send_raw_transaction E txn =
     ocall ''ocall_decent_ethereum_send_raw_transaction'' (send_raw_transaction_host E txn)"

section \<open>The start of main\<close>

definition host_setup :: "host_env \<Rightarrow> string \<Rightarrow> ('z host_rt_scheme, unit) prog" where
  "host_setup E name = host_ext (\<lambda>h. host_setup_at E h name) (HostSetup name)"

text \<open>The constructor of \<^verbatim>\<open>DecentEthereumEnclave\<close>.\<close>

definition create_enclave :: "host_env \<Rightarrow> bytes \<Rightarrow> main_config \<Rightarrow> ('z host_rt_scheme, unit) prog" where
  "create_enclave E auth_list cfg =
     bnd (lib (monitor_config_rlp E)) (\<lambda>m_conf.
     let pubsub_addr = map the (pubsub_addr_cfg cfg); sign = ''SyncMsg(bytes16,bytes32)'' in
     bnd (host_ask (\<lambda>h. enclave_at E h m_conf (start_block_cfg cfg) (sync_addr_cfg cfg) sign
            pubsub_addr auth_list (img_path_cfg cfg) (token_path_cfg cfg))) (\<lambda>(status, retval).
     bnd (host_note (EnclaveCreated m_conf (start_block_cfg cfg) (sync_addr_cfg cfg) sign
            pubsub_addr auth_list (img_path_cfg cfg) (token_path_cfg cfg))) (\<lambda>_.
     lib (check_ecall E status retval))))"

text \<open>\<open>main\<close> up to its event loop: \<open>Some code\<close> is an early \<^verbatim>\<open>return code\<close>. The new service replaces
whatever the state holds, since \<open>main\<close> is the first to run.\<close>

definition main_start :: "host_env \<Rightarrow> nat \<Rightarrow> string list \<Rightarrow> ('z host_svc_scheme, int option) prog" where
  "main_start E enclave_id argv =
     (case config_path argv of
        None \<Rightarrow>
          bnd (host_note (HostLogged ''Unexpected number of arguments.'')) (\<lambda>_.
          bnd (host_note (HostLogged
            ''Only the path to the components configuration file is needed.'')) (\<lambda>_.
          ret (Some (-1))))
      | Some path \<Rightarrow>
          bnd (host_setup E ''MbedTlsInit'') (\<lambda>_.
          bnd (host_setup E ''ThreadPool'') (\<lambda>_.
          bnd (host_ext (\<lambda>h. read_file_at E h path) (HostSetup path)) (\<lambda>config_text.
          bnd (lib (json_load E config_text)) (\<lambda>config.
          bnd (lib (auth_list_of E config)) (\<lambda>auth_list.
          bnd (host_setup E ''BoostAsioService'') (\<lambda>_.
          bnd (host_setup E ''EndpointsMgr'') (\<lambda>_.
          bnd (lift_res (read_main_config E config)) (\<lambda>cfg.
          bnd (updates (\<lambda>w. w\<lparr>geth_url := geth_url_cfg cfg, block_receiver := None,
                              curr_block_num := 0\<rparr>)) (\<lambda>_.
          bnd (create_enclave E auth_list cfg) (\<lambda>_.
          bnd (bind_receiver enclave_id) (\<lambda>_.
          bnd (start_sending_blocks (start_block_cfg cfg)) (\<lambda>_.
          bnd (host_setup E ''LambdaFuncServer DecentEthereum'') (\<lambda>_.
          bnd (host_note (TaskAdded ''HeartbeatEmitterService'' 2000)) (\<lambda>_.
          bnd (host_note (TaskAdded ''BoostAsioService'' 0)) (\<lambda>_.
          ret None))))))))))))))))"

section \<open>How the configuration is read\<close>

lemma copy_into_full: "length src = length arr \<Longrightarrow> copy_into arr src = Inr (map Some src)"
  by (simp add: copy_into_def)

lemma uninit_array_length [simp]: "length (uninit_array n) = n"
  by (simp add: uninit_array_def)

lemma read_main_config_fields:
  assumes "read_main_config E config = Inr cfg"
  shows "sync_addr_cfg cfg = replicate 20 None"
    and "\<exists>b. length b = 20 \<and> pubsub_addr_cfg cfg = map Some b"
  using assms
  by (auto simp: read_main_config_def bind_res_Inr_iff Let_def copy_into_full uninit_array_def
      split: if_splits)

text \<open>The addresses and the first block that a configuration gives, as the enclave is to get them.\<close>

definition configured :: "host_env \<Rightarrow> json \<Rightarrow> u64 \<Rightarrow> bytes \<Rightarrow> bool" where
  "configured E config start_num pubsub_addr \<longleftrightarrow> (\<exists>pubsub hex start_obj.
     json_dict_at E config ''PubSub'' = Inr pubsub \<and> json_string_at E pubsub ''PubSubAddr'' = Inr hex \<and>
     hex_decode E hex = Inr pubsub_addr \<and> length pubsub_addr = 20 \<and>
     json_dict_at E pubsub ''StartBlock'' = Inr start_obj \<and> json_as_u64 E start_obj = Inr start_num)"

lemma read_main_config_configured:
  assumes "read_main_config E config = Inr cfg"
  shows "configured E config (start_block_cfg cfg) (map the (pubsub_addr_cfg cfg))"
  using assms
  by (auto simp: read_main_config_def configured_def bind_res_Inr_iff Let_def copy_into_full comp_def split: if_splits)

text \<open>The calls that a method adds to the log.\<close>

definition logs :: "(host_call \<Rightarrow> bool) \<Rightarrow> 'z host_rt_scheme \<Rightarrow> 'z host_rt_scheme \<Rightarrow> bool" where
  "logs P w u \<longleftrightarrow> (\<exists>new. host_log u = new @ host_log w \<and> (\<forall>c \<in> set new. P c))"

interpretation logs_frame: frame_relation "logs P" for P
proof
  show "logs P w w" for w :: "'z host_rt_scheme" by (simp add: logs_def)
  show "logs P w v" if "logs P w u" "logs P u v" for w u v :: "'z host_rt_scheme"
  proof -
    from that obtain n1 n2 where "host_log u = n1 @ host_log w" "host_log v = n2 @ host_log u"
      "\<forall>c \<in> set n1. P c" "\<forall>c \<in> set n2. P c" unfolding logs_def by blast
    then show ?thesis unfolding logs_def by (intro exI [of _ "n2 @ n1"]) auto
  qed
qed

lemma logs_calls:
  "P c \<Longrightarrow> guar (logs P) (host_note c)" "guar (logs P) (host_ask f)"
  "(\<And>w. host_log (g w) = host_log w) \<Longrightarrow> guar (logs P) (updates g)"
  by (simp_all add: guar_def logs_def host_note_run host_ask_run)

lemma logs_ext_bnd:
  assumes "P c" "\<And>m. P (HostRefused m)" "\<And>h x. query h = Inr x \<Longrightarrow> guar (logs P) (f x)"
  shows "guar (logs P) (bnd (host_ext query c) f)"
proof (rule guarI)
  fix w r u
  assume run: "bnd (host_ext query c) f w = (r, u)"
  show "logs P w u"
  proof (cases "query (host_log w)")
    case (Inl m)
    with run assms(2) show ?thesis by (auto simp: host_ext_run bnd_run logs_def)
  next
    case (Inr x)
    let ?v = "w\<lparr>host_log := c # host_log w\<rparr>"
    have "f x ?v = (r, u)" using run Inr by (simp add: host_ext_run bnd_run)
    then have "logs P ?v u" by (rule guarD [OF assms(3) [OF Inr]])
    moreover have "logs P w ?v" using assms(1) by (simp add: logs_def)
    ultimately show ?thesis by (rule logs_frame.frame_trans [rotated])
  qed
qed

lemma logs_lift_bnd:
  "(\<And>x. r = Inr x \<Longrightarrow> guar (logs P) (f x)) \<Longrightarrow> guar (logs P) (bnd (lift_res r) f)"
  "(\<And>x. q = Inr x \<Longrightarrow> guar (logs P) (f x)) \<Longrightarrow> guar (logs P) (bnd (lib q) f)"
  by (cases r; cases q; auto simp: guar_def bnd_run logs_frame.frame_refl)+

text \<open>The call that creates the enclave gets the Sync address as it was declared, and what was configured.\<close>

definition creates_as_configured :: "host_env \<Rightarrow> string list \<Rightarrow> host_call \<Rightarrow> bool" where
  "creates_as_configured E argv c \<longleftrightarrow> (\<forall>m_conf start_num sync sign pubsub auth img token.
     c = EnclaveCreated m_conf start_num sync sign pubsub auth img token \<longrightarrow> sync = replicate 20 None \<and>
     (\<exists>path h text config. config_path argv = Some path \<and> read_file_at E h path = Inr text \<and>
        json_load E text = Inr config \<and> configured E config start_num pubsub))"

lemma main_start_logs: "guar (logs (creates_as_configured E argv)) (main_start E enclave_id argv)"
proof -
  let ?P = "creates_as_configured E argv"
  have other: "?P (HostLogged m)" "?P (HostSetup m)" "?P (HostRefused m)" "?P (TaskAdded m k)" for m k
    by (simp_all add: creates_as_configured_def)
  have blocks: "guar (logs ?P) (start_sending_blocks n)" "guar (logs ?P) (bind_receiver enclave_id)" for n
    unfolding start_sending_blocks_def get_curr_block_num_def set_upd_svc_start_block_def bind_receiver_def
    by (auto intro!: logs_frame.guar_bnd logs_frame.guar_pure logs_calls other)
  have create: "guar (logs ?P) (create_enclave E auth cfg)"
    if "config_path argv = Some path" "read_file_at E h path = Inr json" "json_load E json = Inr config"
      "read_main_config E config = Inr cfg" for auth cfg path h json config
  proof -
    have "?P (EnclaveCreated m (start_block_cfg cfg) (sync_addr_cfg cfg) sign (map the (pubsub_addr_cfg cfg)) auth i k)"
      for m sign i k
      using that read_main_config_fields(1) [OF that(4)] read_main_config_configured [OF that(4)]
      unfolding creates_as_configured_def by blast
    then show ?thesis unfolding create_enclave_def Let_def
      by (auto intro!: logs_frame.guar_bnd logs_frame.guar_pure logs_calls split: prod.split)
  qed
  show ?thesis
  proof (cases "config_path argv")
    case None
    then show ?thesis
      by (auto simp: main_start_def intro!: logs_frame.guar_bnd logs_frame.guar_pure logs_calls other)
  next
    case (Some path)
    show ?thesis
      unfolding main_start_def host_setup_def Some option.case
      by ((rule logs_ext_bnd [OF other(2,3)] logs_lift_bnd blocks logs_calls(1) logs_frame.guar_pure
          logs_frame.guar_bnd | rule other | (rule create, rule Some, assumption+) | (rule logs_calls(3), simp))+)
  qed
qed

lemma create_enclave_entry:
  assumes "create_enclave E auth cfg v = (Inr (), t)"
  shows "curr_block_num t = curr_block_num v \<and> (\<exists>m_conf. host_log t =
    EnclaveCreated m_conf (start_block_cfg cfg) (sync_addr_cfg cfg) ''SyncMsg(bytes16,bytes32)''
      (map the (pubsub_addr_cfg cfg)) auth (img_path_cfg cfg) (token_path_cfg cfg) # host_log v)"
  using assms by (auto simp: create_enclave_def prog_run Let_def split: sum.splits prod.splits)

definition example_config :: json where
  "example_config = JDict
     [''Geth'' \<mapsto> JDict [''Protocol'' \<mapsto> JString ''http'', ''Host'' \<mapsto> JString ''node'',
        ''Port'' \<mapsto> JNumber 8545, ''SyncAddr'' \<mapsto> JString (replicate 40 CHR ''1'')],
      ''PubSub'' \<mapsto> JDict [''PubSubAddr'' \<mapsto> JString (replicate 40 CHR ''2''), ''StartBlock'' \<mapsto> JNumber 7],
      ''EnclaveImage'' \<mapsto> JDict [''ImagePath'' \<mapsto> JString ''image'', ''TokenPath'' \<mapsto> JString ''token'']]"

definition example_main_env :: host_env where
  "example_main_env = example_host_env\<lparr>json_load := \<lambda>s. Inr example_config\<rparr>"

lemma example_main_env_simps [simp]:
  "json_load example_main_env txt = Inr example_config"
  "host_setup_at example_main_env h nm = Inr ()" "read_file_at example_main_env h nm = Inr ''json''"
  "auth_list_of example_main_env v = Inr []" "monitor_config_rlp example_main_env = Inr [2]"
  "enclave_at example_main_env h bs n sa sg pa al ip tp = (SGX_SUCCESS, SGX_SUCCESS)"
  "check_ecall example_main_env st rv = (if st = SGX_SUCCESS \<and> rv = SGX_SUCCESS then Inr () else Inl ''sgx'')"
  by (simp_all add: example_main_env_def)

lemma example_config_read: "\<exists>cfg. read_main_config example_main_env example_config = Inr cfg"
  by (simp add: read_main_config_def example_main_env_def example_config_def json_string_at_def c_str_def
      copy_into_full)

lemma example_start: "fst (main_start example_main_env 4 [''app''] example_host) = Inr None"
proof -
  obtain cfg where cfg: "read_main_config example_main_env example_config = Inr cfg"
    using example_config_read by blast
  then show ?thesis
    by (simp add: main_start_def config_path_def prog_run host_setup_def create_enclave_def Let_def
        bind_receiver_def start_sending_blocks_def get_curr_block_num_def set_upd_svc_start_block_def)
qed

lemma main_start_success:
  assumes "main_start E enclave_id argv w = (Inr None, u)"
  shows "block_receiver u = Some enclave_id" "\<exists>m_conf sync sign pubsub auth img token n1 n2.
    host_log u = n1 @ EnclaveCreated m_conf (curr_block_num u) sync sign pubsub auth img token # n2 @ host_log w"
proof -
  obtain path where "config_path argv = Some path"
    using assms by (cases "config_path argv") (auto simp: main_start_def prog_run)
  with assms obtain cfg x auth t t1 t2 t3 where
      create: "create_enclave E auth cfg x = (Inr (), t)" and
      rest: "bind_receiver enclave_id t = (Inr (), t1)" "start_sending_blocks (start_block_cfg cfg) t1 = (Inr (), t2)"
        "host_note (TaskAdded ''HeartbeatEmitterService'' 2000)
           (t2\<lparr>host_log := HostSetup ''LambdaFuncServer DecentEthereum'' # host_log t2\<rparr>) = (Inr (), t3)"
        "host_note (TaskAdded ''BoostAsioService'' 0) t3 = (Inr (), u)" and
      x: "host_log x = HostSetup ''EndpointsMgr'' # HostSetup ''BoostAsioService'' # HostSetup path #
        HostSetup ''ThreadPool'' # HostSetup ''MbedTlsInit'' # host_log w" "curr_block_num x = 0"
    unfolding main_start_def
    by (auto elim!: bnd_cases simp: lift_res_def updates_def host_setup_def host_ext_run
        split: sum.splits)
  obtain m_conf where entry: "host_log t = EnclaveCreated m_conf (start_block_cfg cfg) (sync_addr_cfg cfg)
      ''SyncMsg(bytes16,bytes32)'' (map the (pubsub_addr_cfg cfg)) auth (img_path_cfg cfg) (token_path_cfg cfg) #
      host_log x" and "curr_block_num t = 0"
    using create_enclave_entry [OF create] x(2) by auto
  with rest have u: "block_receiver u = Some enclave_id" "curr_block_num u = start_block_cfg cfg"
      "\<exists>n. host_log u = n @ host_log t"
    by (auto simp: bind_receiver_def start_sending_blocks_def get_curr_block_num_def set_upd_svc_start_block_def
        host_setup_def prog_run split: sum.splits)
  then show "block_receiver u = Some enclave_id" by simp
  show "\<exists>m_conf sync sign pubsub auth img token n1 n2.
    host_log u = n1 @ EnclaveCreated m_conf (curr_block_num u) sync sign pubsub auth img token # n2 @ host_log w"
  proof -
    obtain n where "host_log u = n @ host_log t" using u(3) by blast
    then have "host_log u = n @ EnclaveCreated m_conf (curr_block_num u) (sync_addr_cfg cfg) ''SyncMsg(bytes16,bytes32)''
        (map the (pubsub_addr_cfg cfg)) auth (img_path_cfg cfg) (token_path_cfg cfg) #
        [HostSetup ''EndpointsMgr'', HostSetup ''BoostAsioService'', HostSetup path, HostSetup ''ThreadPool'',
         HostSetup ''MbedTlsInit''] @ host_log w" using u(2) x(1) entry by simp
    then show ?thesis by blast
  qed
qed

section \<open>Properties\<close>

text \<open>C27: the address of the Sync contract that the configuration gives is checked and then dropped: in every run
of the start of \<open>main\<close>, also one that fails later, an enclave is created with a Sync address none of whose bytes was
ever written, and with the Pub-Sub address and the first block of the configuration file, decoded. When the start
succeeds there is such an enclave, it is the receiver of the blocks, and the first block to send is that of the
configuration.\<close>

theorem sync_address_never_written:
  assumes "main_start E enclave_id argv w = (r, u)"
  shows "\<exists>new. host_log u = new @ host_log w \<and>
    (\<forall>m_conf start_num sync sign pubsub auth img token.
       EnclaveCreated m_conf start_num sync sign pubsub auth img token \<in> set new \<longrightarrow>
       sync = replicate 20 None \<and>
       (\<exists>path h text config. config_path argv = Some path \<and> read_file_at E h path = Inr text \<and>
          json_load E text = Inr config \<and> configured E config start_num pubsub)) \<and>
    (r = Inr None \<longrightarrow> block_receiver u = Some enclave_id \<and>
       (\<exists>m_conf sync sign pubsub auth img token.
          EnclaveCreated m_conf (curr_block_num u) sync sign pubsub auth img token \<in> set new))"
proof -
  obtain new where new: "host_log u = new @ host_log w" "\<forall>c \<in> set new. creates_as_configured E argv c"
    using guarD [OF main_start_logs assms] unfolding logs_def by blast
  have "block_receiver u = Some enclave_id \<and> (\<exists>m_conf sync sign pubsub auth img token.
      EnclaveCreated m_conf (curr_block_num u) sync sign pubsub auth img token \<in> set new)" if "r = Inr None"
  proof -
    note success = main_start_success [OF assms [unfolded that]]
    from success(2) obtain m_conf sync sign pubsub auth img token n1 n2 where
      "host_log u = n1 @ EnclaveCreated m_conf (curr_block_num u) sync sign pubsub auth img token # n2 @ host_log w"
      by blast
    with new(1) have "new = n1 @ EnclaveCreated m_conf (curr_block_num u) sync sign pubsub auth img token # n2" by simp
    then have "EnclaveCreated m_conf (curr_block_num u) sync sign pubsub auth img token \<in> set new" by simp
    with success(1) show ?thesis by blast
  qed
  then show ?thesis using new
    by (intro exI [of _ new]) (simp add: creates_as_configured_def)
qed

text \<open>The configured address of 40 digits is 20 bytes, and 7 the configured block.\<close>

theorem sync_address_never_written_witness:
  "\<exists>u m_conf sync sign pubsub auth img token. main_start example_main_env 4 [''app''] example_host = (Inr None, u) \<and>
    EnclaveCreated m_conf 7 sync sign pubsub auth img token \<in> set (host_log u) \<and>
    sync = replicate 20 None \<and> pubsub = replicate 20 1"
proof -
  let ?u = "snd (main_start example_main_env 4 [''app''] example_host)"
  have run: "main_start example_main_env 4 [''app''] example_host = (Inr None, ?u)"
    using example_start by (metis prod.collapse)
  from sync_address_never_written [OF run] obtain new m_conf start_num sync sign pubsub auth img token h json config where
      entry: "EnclaveCreated m_conf start_num sync sign pubsub auth img token \<in> set (host_log ?u)" "sync = replicate 20 None"
      and config: "read_file_at example_main_env h ''../../src/components_config.json'' = Inr json"
        "json_load example_main_env json = Inr config" "configured example_main_env config start_num pubsub"
    by (fastforce simp: config_path_def)
  have "config = example_config" using config(2) by simp
  with config(3) have "start_num = 7" "pubsub = replicate 20 1"
    by (auto simp: configured_def example_config_def example_main_env_def json_string_at_def c_str_def)
  with run entry show ?thesis by blast
qed

text \<open>C38: the guard against starting to send blocks twice works exactly when the first start was not at
block 0: the second start then fails and adds no task; after a start at block 0 every task is added a
second time.\<close>

theorem second_start_guarded:
  assumes "curr_block_num w = 0"
  shows "\<exists>r u. bnd (start_sending_blocks start_num) (\<lambda>_. start_sending_blocks again) w = (r, u) \<and>
    length (host_log u) = length (host_log w) + (if start_num = 0 then 4 else 2) \<and>
    (r = Inr () \<longleftrightarrow> start_num = 0) \<and>
    (start_num \<noteq> 0 \<longrightarrow> r = Inl (Raised ''Block update service already started.'') \<and> curr_block_num u = start_num)"
  using assms
  by (simp add: start_sending_blocks_def get_curr_block_num_def set_upd_svc_start_block_def prog_run)

theorem second_start_guarded_witness:
  "\<exists>u. bnd (start_sending_blocks 5) (\<lambda>_. start_sending_blocks 9) (example_host\<lparr>curr_block_num := 0\<rparr>)
    = (Inl (Raised ''Block update service already started.''), u) \<and> curr_block_num u = 5"
  using second_start_guarded [of "example_host\<lparr>curr_block_num := 0\<rparr>" 5 9] by auto

lemma ocall_answers:
  assumes "\<not> is_undef (fst (m w))"
  shows "\<exists>status out u. ocall name m w = (Inr (status, out), u) \<and>
    (status = SGX_SUCCESS \<and> (\<exists>x. out = Some x \<and> fst (m w) = Inr x) \<or> status = SGX_ERROR_UNEXPECTED \<and> out = None)"
  using assms
  by (auto simp: ocall_def try_catch_def prog_run is_undef_def split: prod.splits sum.splits fault.splits)

lemma geth_call_defined: "\<not> is_undef (fst (geth_call E url method params w))"
  by (auto simp: geth_call_def post_request_def prog_run of_lib_def split: prod.split sum.split)

lemma host_service_defined:
  "\<not> is_undef (fst (get_receipts_rlp_of_block E k w))"
  "\<not> is_undef (fst (get_latest_block_num_host E w))"
  "\<not> is_undef (fst (send_raw_transaction_host E txn w))"
  unfolding get_receipts_rlp_of_block_def get_receipts_rlp_of_num_def get_receipts_rlp_by_param_def
    get_latest_block_num_host_def get_header_rlp_by_param_def send_raw_transaction_host_def
    send_raw_transaction_by_bytes_def send_raw_transaction_by_param_def
  by (intro bnd_defined; simp add: geth_call_defined decoders_defined host_note_run)+

lemma sent_hash_length:
  assumes "fst (send_raw_transaction_host E txn w) = Inr h"
  shows "length h = 32"
  using assms
  by (auto simp: send_raw_transaction_host_def send_raw_transaction_by_bytes_def
      send_raw_transaction_by_param_def proc_resp_single_bytes_array_def bind_res_Inr_iff prog_run
      split: prod.splits sum.splits if_splits)

text \<open>C37: the functions the enclave calls on the host always return to it with a status: the output is
written exactly when the status is success, a failure of the node or of its reply becomes the error
status, and a transaction hash that is written has 32 bytes.\<close>

theorem ocalls_always_answer:
  "(\<exists>status out u. ocall_decent_ethereum_get_receipts E k w = (Inr (status, out), u) \<and>
     (status = SGX_SUCCESS \<and> out \<noteq> None \<or> status = SGX_ERROR_UNEXPECTED \<and> out = None)) \<and>
   (\<exists>status out u. ocall_decent_ethereum_get_latest_blknum E w = (Inr (status, out), u) \<and>
     (status = SGX_SUCCESS \<and> out \<noteq> None \<or> status = SGX_ERROR_UNEXPECTED \<and> out = None)) \<and>
   (\<exists>status out u. ocall_decent_ethereum_send_raw_transaction E txn w = (Inr (status, out), u) \<and>
     (status = SGX_SUCCESS \<and> (\<exists>h. out = Some h \<and> length h = 32) \<or> status = SGX_ERROR_UNEXPECTED \<and> out = None))"
proof (intro conjI)
  have "\<not> is_undef (fst (bnd (get_receipts_rlp_of_block E k) (\<lambda>receipts. lib (write_rlp E receipts)) w))"
    by (rule bnd_defined) (simp_all add: host_service_defined)
  from ocall_answers [of "bnd (get_receipts_rlp_of_block E k) (\<lambda>receipts. lib (write_rlp E receipts))" w, OF this]
  show "\<exists>status out u. ocall_decent_ethereum_get_receipts E k w = (Inr (status, out), u) \<and>
     (status = SGX_SUCCESS \<and> out \<noteq> None \<or> status = SGX_ERROR_UNEXPECTED \<and> out = None)"
    unfolding ocall_decent_ethereum_get_receipts_def by blast
  from ocall_answers [of "get_latest_block_num_host E" w, OF host_service_defined(2)]
  show "\<exists>status out u. ocall_decent_ethereum_get_latest_blknum E w = (Inr (status, out), u) \<and>
     (status = SGX_SUCCESS \<and> out \<noteq> None \<or> status = SGX_ERROR_UNEXPECTED \<and> out = None)"
    unfolding ocall_decent_ethereum_get_latest_blknum_def by blast
  obtain status out u where
      run: "ocall ''ocall_decent_ethereum_send_raw_transaction'' (send_raw_transaction_host E txn) w = (Inr (status, out), u)"
    and cases: "status = SGX_SUCCESS \<and> (\<exists>h. out = Some h \<and> fst (send_raw_transaction_host E txn w) = Inr h) \<or>
      status = SGX_ERROR_UNEXPECTED \<and> out = None"
    using ocall_answers [of "send_raw_transaction_host E txn" w, OF host_service_defined(3)] by blast
  from cases have "status = SGX_SUCCESS \<and> (\<exists>h. out = Some h \<and> length h = 32) \<or>
      status = SGX_ERROR_UNEXPECTED \<and> out = None"
    by (auto dest: sent_hash_length)
  with run show "\<exists>status out u. ocall_decent_ethereum_send_raw_transaction E txn w = (Inr (status, out), u) \<and>
     (status = SGX_SUCCESS \<and> (\<exists>h. out = Some h \<and> length h = 32) \<or> status = SGX_ERROR_UNEXPECTED \<and> out = None)"
    unfolding ocall_decent_ethereum_send_raw_transaction_def by blast
qed

end
