(* ===== verification/OcallLink.thy ===== *)
theory OcallLink
  imports HostAndEnclave HostMain
begin

text \<open>
  The OCALLs of the enclave with the functions of src/Untrusted/Main.cpp that implement them in place, over
  the state \<open>attached\<close> of the host process and its enclave. The generated code between them is left
  outside as in \<open>linked_recv_block\<close>: the first status of the field \<open>ocall_..._at\<close> says whether the call gets
  through, the rest of the field is what the outputs hold when nobody writes them. A linked operation is the
  operation of the enclave, unchanged, in an outside that answers this call with what the host function has
  answered; so what is proved for every outside holds of it.

  What is shown: the receipts the enclave works on are the elements of the node's reply, in order, or
  there is an exception; and a transaction given to the enclave is posted to the node once, and the
  hash logged inside is the one the node sent.
\<close>

section \<open>Linking a call\<close>

definition resolve_ocall ::
    "sgx_status \<times> sgx_status \<times> 'a \<Rightarrow> ('s, sgx_status \<times> 'a option) prog \<Rightarrow> ('s, sgx_status \<times> sgx_status \<times> 'a) prog" where
  "resolve_ocall outside host_fn =
     (case outside of (status, retval, unwritten) \<Rightarrow>
        if status \<noteq> SGX_SUCCESS then ret (status, retval, unwritten)
        else bnd host_fn (\<lambda>(host_retval, out).
          ret (SGX_SUCCESS, host_retval, case out of None \<Rightarrow> unwritten | Some x \<Rightarrow> x)))"

definition in_enclave :: "(system, 'a) prog \<Rightarrow> ('z attached_scheme, 'a) prog" where
  "in_enclave m = (\<lambda>w. case m (enclave_sys w) of (r, t) \<Rightarrow> (r, w\<lparr>enclave_sys := t\<rparr>))"

text \<open>Outsides that answer one call in one way.\<close>

definition answering_receipts :: "env \<Rightarrow> sgx_status \<times> sgx_status \<times> bytes \<Rightarrow> env" where
  "answering_receipts EE answer = EE\<lparr>ocall_receipts_at := \<lambda>h n. answer\<rparr>"

definition answering_latest :: "env \<Rightarrow> sgx_status \<times> sgx_status \<times> u64 \<Rightarrow> env" where
  "answering_latest EE answer = EE\<lparr>ocall_latest_at := \<lambda>h. answer\<rparr>"

definition answering_send :: "env \<Rightarrow> sgx_status \<times> sgx_status \<times> bytes \<Rightarrow> env" where
  "answering_send EE answer = EE\<lparr>ocall_send_at := \<lambda>h txn. answer\<rparr>"

definition linked_receipts_getter :: "env \<Rightarrow> host_env \<Rightarrow> u64 \<Rightarrow> ('z attached_scheme, obj list) prog" where
  "linked_receipts_getter EE E block_num =
     bnd (reads (\<lambda>w. ocall_receipts_at EE (history (enclave_sys w)) block_num)) (\<lambda>outside.
     bnd (resolve_ocall outside (ocall_decent_ethereum_get_receipts E block_num)) (\<lambda>answer.
     in_enclave (receipts_getter (answering_receipts EE answer) block_num)))"

definition linked_latest_block_num :: "env \<Rightarrow> host_env \<Rightarrow> ('z attached_scheme, u64) prog" where
  "linked_latest_block_num EE E =
     bnd (reads (\<lambda>w. ocall_latest_at EE (history (enclave_sys w)))) (\<lambda>outside.
     bnd (resolve_ocall outside (ocall_decent_ethereum_get_latest_blknum E)) (\<lambda>answer.
     in_enclave (get_latest_block_num (answering_latest EE answer))))"

definition linked_send_raw :: "env \<Rightarrow> host_env \<Rightarrow> bytes \<Rightarrow> ('z attached_scheme, unit) prog" where
  "linked_send_raw EE E msg =
     bnd (reads (\<lambda>w. ocall_send_at EE (history (enclave_sys w)) msg)) (\<lambda>outside.
     bnd (resolve_ocall outside (ocall_decent_ethereum_send_raw_transaction E msg)) (\<lambda>answer.
     in_enclave (send_raw (answering_send EE answer) msg)))"

lemma answering_simps [simp]:
  "ocall_receipts_at (answering_receipts EE a) h n = a" "check_sgx (answering_receipts EE a) = check_sgx EE"
  "simple_rlp_parse (answering_receipts EE a) = simple_rlp_parse EE" "as_list (answering_receipts EE a) = as_list EE"
  "receipts_mgr (answering_receipts EE a) = receipts_mgr EE"
  "ocall_latest_at (answering_latest EE b) h = b" "check_sgx (answering_latest EE b) = check_sgx EE"
  "ocall_send_at (answering_send EE a) h txn = a" "check_sgx (answering_send EE a) = check_sgx EE"
  "hex_encode (answering_send EE a) = hex_encode EE"
  by (simp_all add: answering_receipts_def answering_latest_def answering_send_def)

lemma in_enclave_run [prog_run]:
  "in_enclave m w = (fst (m (enclave_sys w)), w\<lparr>enclave_sys := snd (m (enclave_sys w))\<rparr>)"
  by (simp add: in_enclave_def case_prod_beta)

section \<open>What the host does to answer\<close>

text \<open>The text of the node's reply to one request, and the host's state after it.\<close>

definition node_reply :: "host_env \<Rightarrow> host_history \<Rightarrow> string \<Rightarrow> string \<Rightarrow> string lib" where
  "node_reply E h url body =
     (case curl_at E h url ''POST'' [''Content-Type: application/json''] body 200 of
        (chunks, outcome) \<Rightarrow> map_sum id (\<lambda>_. concat chunks) outcome)"

lemma content_pieces: "foldl content_callback acc chunks = acc @ concat chunks"
  by (induction chunks arbitrary: acc) (simp_all add: content_callback_def)

lemma geth_call_reply:
  assumes "build_request_body E meth params = Inr body"
  shows "geth_call E url meth params w =
    (of_lib (node_reply E (host_log w) url body), w\<lparr>host_log := Posted url body # host_log w\<rparr>)"
  using assms
  by (auto simp: geth_call_def post_request_def node_reply_def prog_run content_pieces split: prod.split sum.split)

text \<open>The OCALL functions turn a failure into a status and a log line.\<close>

definition ocall_result :: "string \<Rightarrow> 'a res \<Rightarrow> host_history \<Rightarrow> (sgx_status \<times> 'a option) \<times> host_history" where
  "ocall_result name r h =
     (case r of Inr x \<Rightarrow> ((SGX_SUCCESS, Some x), h)
      | Inl (Raised what) \<Rightarrow>
          ((SGX_ERROR_UNEXPECTED, None), HostLogged (name @ '' failed with error '' @ what) # h)
      | Inl (Undef what) \<Rightarrow> ((SGX_ERROR_UNEXPECTED, None), h))"

lemma ocall_run:
  assumes "m w = (r, w\<lparr>host_log := h\<rparr>)" "\<not> is_undef r"
  shows "ocall name m w = (Inr (fst (ocall_result name r h)), w\<lparr>host_log := snd (ocall_result name r h)\<rparr>)"
  using assms
  by (auto simp: ocall_def ocall_result_def try_catch_def bnd_def host_note_run is_undef_Inl
      split: sum.split fault.split)


text \<open>What the node's reply is worth: the receipts it lists, and the hash it gives for a transaction.\<close>

definition replied_receipts :: "host_env \<Rightarrow> string lib \<Rightarrow> bytes list res" where
  "replied_receipts E reply = bind_res (of_lib reply) (proc_resp_list_of_bytes E)"

definition replied_hash :: "host_env \<Rightarrow> string lib \<Rightarrow> bytes res" where
  "replied_hash E reply = bind_res (of_lib reply) (proc_resp_single_bytes_array E 32)"

lemma replied_defined: "\<not> is_undef (replied_receipts E reply)" "\<not> is_undef (replied_hash E reply)"
  by (simp_all add: replied_receipts_def replied_hash_def is_undef_bind decoders_defined)

lemma host_receipts_run:
  assumes "build_request_body E ''debug_getRawReceipts'' [JString (hex_encode_num E n)] = Inr body"
  shows "bnd (get_receipts_rlp_of_block E n) (\<lambda>receipts. lib (write_rlp E receipts)) w =
    (bind_res (replied_receipts E (node_reply E (host_log w) (geth_url w) body)) (\<lambda>bs. of_lib (write_rlp E bs)),
     w\<lparr>host_log := Posted (geth_url w) body # host_log w\<rparr>)"
  by (auto simp: get_receipts_rlp_of_block_def get_receipts_rlp_of_num_def get_receipts_rlp_by_param_def
      convert_blk_num_to_hex_def geth_call_reply [OF assms] prog_run replied_receipts_def bind_res_def
      split: sum.split)

lemma host_send_run:
  assumes "build_request_body E ''eth_sendRawTransaction'' [JString (hex_encode_with E ''0x'' txn)] = Inr body"
    and "node_reply E (host_log w) (geth_url w) body = reply"
  shows "send_raw_transaction_host E txn w =
    (replied_hash E reply, w\<lparr>host_log :=
      (case reply of Inl m \<Rightarrow> [] | Inr resp \<Rightarrow> [HostLogged (''Received response: '' @ resp)]) @
      Posted (geth_url w) body # host_log w\<rparr>)"
  using assms(2)
  by (auto simp: send_raw_transaction_host_def send_raw_transaction_by_bytes_def send_raw_transaction_by_param_def
      geth_call_reply [OF assms(1)] prog_run replied_hash_def split: sum.split)

section \<open>The linked operations\<close>

text \<open>The RLP of the host's writer is read back by the enclave's parser as the list of byte strings.\<close>

definition rlp_agrees :: "env \<Rightarrow> host_env \<Rightarrow> bool" where
  "rlp_agrees EE E \<longleftrightarrow> (\<forall>bs b. write_rlp E bs = Inr b \<longrightarrow>
     (\<exists>v. simple_rlp_parse EE b = Inr v \<and> as_list EE v = Inr (map OBytes bs)))"

lemma rlp_agreesD:
  assumes "rlp_agrees EE E" "write_rlp E bs = Inr b"
  obtains v where "simple_rlp_parse EE b = Inr v" "as_list EE v = Inr (map OBytes bs)"
  using assms by (auto simp: rlp_agrees_def)

text \<open>The list in a parsed reply, and the manager of receipts made from it.\<close>

definition read_receipts :: "env \<Rightarrow> obj \<Rightarrow> obj list res" where
  "read_receipts EE v =
     bind_res (of_lib (as_list EE v)) (\<lambda>rs. bind_res (of_lib (receipts_mgr EE rs)) (\<lambda>_. Inr rs))"

lemma getter_answered:
  "receipts_getter (answering_receipts EE (SGX_SUCCESS, retval, out)) n t =
     (bind_res (of_lib (check_sgx EE SGX_SUCCESS retval)) (\<lambda>_.
      bind_res (of_lib (simple_rlp_parse EE out)) (read_receipts EE)),
      t\<lparr>history := ReceiptsFetched n # history t\<rparr>)"
  by (auto simp: receipts_getter_def read_receipts_def prog_run bind_res_def split: sum.split)

lemma send_answered:
  "send_raw (answering_send EE (SGX_SUCCESS, retval, out)) msg t =
     (of_lib (check_sgx EE SGX_SUCCESS retval),
      t\<lparr>history := (case check_sgx EE SGX_SUCCESS retval of Inl m \<Rightarrow> []
        | Inr _ \<Rightarrow> [Logged Info ''DecentEthereum::Trusted::Transaction::SendRaw''
            (''Transaction with hash: '' @ hex_encode EE out @ '' sent'')]) @ TransactionSent msg # history t\<rparr>)"
  by (auto simp: send_raw_def prog_run split: sum.split)


lemma linked_receipts_run:
  assumes "ocall_receipts_at EE (history (enclave_sys w)) n = (SGX_SUCCESS, retval, unwritten)"
    and "build_request_body E ''debug_getRawReceipts'' [JString (hex_encode_num E n)] = Inr body"
    and "bind_res (replied_receipts E (node_reply E (host_log w) (geth_url w) body)) (\<lambda>bs. of_lib (write_rlp E bs)) = reply"
    and "ocall_result ''ocall_decent_ethereum_get_receipts'' reply (Posted (geth_url w) body # host_log w) = ((st, out), h)"
  shows "linked_receipts_getter EE E n w =
    (bind_res (of_lib (check_sgx EE SGX_SUCCESS st)) (\<lambda>_.
     bind_res (of_lib (simple_rlp_parse EE (case out of None \<Rightarrow> unwritten | Some b \<Rightarrow> b))) (read_receipts EE)),
     w\<lparr>host_log := h,
       enclave_sys := (enclave_sys w)\<lparr>history := ReceiptsFetched n # history (enclave_sys w)\<rparr>\<rparr>)"
proof -
  have "\<not> is_undef reply"
    unfolding assms(3) [symmetric] by (simp add: is_undef_bind replied_defined)
  moreover have "bnd (get_receipts_rlp_of_block E n) (\<lambda>receipts. lib (write_rlp E receipts)) w =
      (reply, w\<lparr>host_log := Posted (geth_url w) body # host_log w\<rparr>)"
    using host_receipts_run [OF assms(2), of w] assms(3) by simp
  ultimately show ?thesis
    using ocall_run [of "bnd (get_receipts_rlp_of_block E n) (\<lambda>receipts. lib (write_rlp E receipts))" w reply
      "Posted (geth_url w) body # host_log w" "''ocall_decent_ethereum_get_receipts''"] assms(1,4)
    by (simp add: linked_receipts_getter_def resolve_ocall_def ocall_decent_ethereum_get_receipts_def bnd_run
        in_enclave_run getter_answered)
qed

lemma linked_send_run:
  assumes "ocall_send_at EE (history (enclave_sys w)) msg = (SGX_SUCCESS, retval, unwritten)"
    and "build_request_body E ''eth_sendRawTransaction'' [JString (hex_encode_with E ''0x'' msg)] = Inr body"
    and "send_raw_transaction_host E msg w = (reply, w\<lparr>host_log := g\<rparr>)" "\<not> is_undef reply"
    and "ocall_result ''ocall_decent_ethereum_send_raw_transaction'' reply g = ((st, out), h)"
  shows "\<exists>hash. (case out of None \<Rightarrow> unwritten | Some b \<Rightarrow> b) = hash \<and> linked_send_raw EE E msg w =
    (of_lib (check_sgx EE SGX_SUCCESS st), w\<lparr>host_log := h, enclave_sys := (enclave_sys w)\<lparr>history :=
      (case check_sgx EE SGX_SUCCESS st of Inl m \<Rightarrow> []
        | Inr _ \<Rightarrow> [Logged Info ''DecentEthereum::Trusted::Transaction::SendRaw''
            (''Transaction with hash: '' @ hex_encode EE hash @ '' sent'')]) @
      TransactionSent msg # history (enclave_sys w)\<rparr>\<rparr>)"
  using ocall_run [where m = "send_raw_transaction_host E msg" and w = w, OF assms(3,4),
      of "''ocall_decent_ethereum_send_raw_transaction''"] assms(1,5)
  by (simp add: linked_send_raw_def resolve_ocall_def ocall_decent_ethereum_send_raw_transaction_def bnd_run
      in_enclave_run send_answered)

lemma replied_receipts_iff:
  "replied_receipts E reply = Inr bs \<longleftrightarrow>
     (\<exists>resp v xs. reply = Inr resp \<and> resp_result E resp = Inr v \<and> json_as_list E v = Inr xs \<and>
        list_all2 (\<lambda>x b. \<exists>digits. json_as_string E x = Inr (''0x'' @ digits) \<and> digits \<noteq> [] \<and>
          hex_decode E digits = Inr b) xs bs)"
  unfolding replied_receipts_def bind_res_Inr_iff list_reply_all_or_nothing by auto

lemma linked_receipts_outcome:
  assumes "checks_sgx EE" "rlp_agrees EE E"
    and "ocall_receipts_at EE (history (enclave_sys w)) n = (SGX_SUCCESS, retval, unwritten)"
    and "build_request_body E ''debug_getRawReceipts'' [JString (hex_encode_num E n)] = Inr body"
    and "replied_receipts E (node_reply E (host_log w) (geth_url w) body) = reply"
  shows "\<exists>r extra. linked_receipts_getter EE E n w =
      (r, w\<lparr>host_log := extra @ Posted (geth_url w) body # host_log w,
        enclave_sys := (enclave_sys w)\<lparr>history := ReceiptsFetched n # history (enclave_sys w)\<rparr>\<rparr>) \<and>
    \<not> is_undef r \<and> (\<forall>rs. r = Inr rs \<longleftrightarrow> (\<exists>bs b. reply = Inr bs \<and> write_rlp E bs = Inr b \<and> rs = map OBytes bs \<and>
      receipts_mgr EE rs = Inr ())) \<and>
    (\<forall>c \<in> set extra. \<exists>m. c = HostLogged m)"
proof -
  let ?bytes = "bind_res reply (\<lambda>bs. of_lib (write_rlp E bs))" and ?h = "Posted (geth_url w) body # host_log w"
  note run = linked_receipts_run [OF assms(3,4), unfolded assms(5), OF refl]
  show ?thesis
  proof (cases ?bytes)
    case (Inr b)
    then obtain bs where bs: "reply = Inr bs" "write_rlp E bs = Inr b" by (auto simp: bind_res_Inr_iff)
    from rlp_agreesD [OF assms(2) bs(2)] obtain v where
        "simple_rlp_parse EE b = Inr v" "as_list EE v = Inr (map OBytes bs)" .
    with run [of SGX_SUCCESS "Some b" ?h] Inr bs checks_sgxD [OF assms(1)] show ?thesis
      by (intro exI [of _ "read_receipts EE v"] exI [of _ "[]"])
        (auto simp: ocall_result_def read_receipts_def bind_res_Inr_iff is_undef_bind)
  next
    case (Inl e)
    moreover have "\<not> is_undef ?bytes"
      unfolding assms(5) [symmetric] by (simp add: is_undef_bind replied_defined)
    ultimately obtain what where what: "?bytes = Inl (Raised what)" by (cases e) auto
    obtain m where "check_sgx EE SGX_SUCCESS SGX_ERROR_UNEXPECTED = Inl m"
      using checks_sgx_throws [OF assms(1)] by blast
    with run [of SGX_ERROR_UNEXPECTED None] what show ?thesis
      by (intro exI [of _ "Inl (Raised m)"]
          exI [of _ "[HostLogged (''ocall_decent_ethereum_get_receipts'' @ '' failed with error '' @ what)]"])
        (auto simp: ocall_result_def)
  qed
qed

text \<open>The number of the latest block: that of the header the node calls the latest.\<close>

definition replied_latest :: "host_env \<Rightarrow> string lib \<Rightarrow> u64 res" where
  "replied_latest E reply =
     bind_res (of_lib reply) (\<lambda>resp. bind_res (proc_resp_single_bytes E resp) (\<lambda>hdr.
     bind_res (of_lib (eth_header_number E hdr)) (\<lambda>num. of_lib (u64_from_bytes E num))))"

lemma host_latest_run:
  assumes "build_request_body E ''debug_getRawHeader'' [JString ''latest''] = Inr body"
  shows "get_latest_block_num_host E w =
    (replied_latest E (node_reply E (host_log w) (geth_url w) body),
     w\<lparr>host_log := Posted (geth_url w) body # host_log w\<rparr>)"
  by (auto simp: get_latest_block_num_host_def get_header_rlp_by_param_def geth_call_reply [OF assms] prog_run
      replied_latest_def bind_res_def split: sum.split)

lemma linked_latest_outcome:
  assumes "checks_sgx EE" "ocall_latest_at EE (history (enclave_sys w)) = (SGX_SUCCESS, retval, unwritten)"
    and "build_request_body E ''debug_getRawHeader'' [JString ''latest''] = Inr body"
    and "replied_latest E (node_reply E (host_log w) (geth_url w) body) = reply"
  shows "\<exists>r h. linked_latest_block_num EE E w =
      (r, w\<lparr>host_log := h, enclave_sys := (enclave_sys w)\<lparr>history := LatestFetched # history (enclave_sys w)\<rparr>\<rparr>) \<and>
    (\<forall>n. r = Inr n \<longleftrightarrow> reply = Inr n) \<and> \<not> is_undef r"
proof -
  have "\<not> is_undef reply"
    unfolding assms(4) [symmetric] replied_latest_def by (simp add: is_undef_bind decoders_defined)
  moreover from this have "ocall ''ocall_decent_ethereum_get_latest_blknum'' (get_latest_block_num_host E) w =
      (Inr (fst (ocall_result ''ocall_decent_ethereum_get_latest_blknum'' reply (Posted (geth_url w) body # host_log w))),
       w\<lparr>host_log := snd (ocall_result ''ocall_decent_ethereum_get_latest_blknum'' reply
         (Posted (geth_url w) body # host_log w))\<rparr>)"
    using host_latest_run [OF assms(3), of w] assms(4) by (intro ocall_run) simp_all
  moreover obtain m where "check_sgx EE SGX_SUCCESS SGX_ERROR_UNEXPECTED = Inl m"
    using checks_sgx_throws [OF assms(1)] by blast
  ultimately show ?thesis
    using assms(2) checks_sgxD [OF assms(1)]
    by (cases reply)
      (auto simp: linked_latest_block_num_def resolve_ocall_def ocall_decent_ethereum_get_latest_blknum_def bnd_run
        in_enclave_run get_latest_block_num_run ocall_result_def is_undef_Inl split: fault.split)
qed

section \<open>A concrete node\<close>

text \<open>A node with two receipts, and a codec of lists of short byte strings, each written after its length.\<close>

definition write_short :: "bytes list \<Rightarrow> bytes lib" where
  "write_short bs =
     (if list_all (\<lambda>b. length b < 256) bs then Inr (concat (map (\<lambda>b. of_nat (length b) # b) bs))
      else Inl ''long'')"

fun read_short :: "bytes \<Rightarrow> bytes list" where
  "read_short [] = []"
| "read_short (n # rest) = take (unat n) rest # read_short (drop (unat n) rest)"

lemma read_write_short: "write_short bs = Inr b \<Longrightarrow> read_short b = bs"
proof (induction bs arbitrary: b)
  case Nil
  then show ?case by (simp add: write_short_def)
next
  case (Cons x bs)
  then have "length x < 256" and b: "b = of_nat (length x) # x @ concat (map (\<lambda>b. of_nat (length b) # b) bs)"
      "list_all (\<lambda>b. length b < 256) bs"
    by (auto simp: write_short_def split: if_splits)
  then have "unat (of_nat (length x) :: byte) = length x" by (simp add: unat_of_nat take_bit_nat_eq_self_iff)
  with b Cons.IH show ?case by (simp add: write_short_def)
qed

definition example_node :: host_env where
  "example_node = example_host_env\<lparr>
     json_load := \<lambda>s. Inr (JDict [''result'' \<mapsto> JList [JString ''0x01'', JString ''0x0102'']]),
     write_rlp := write_short\<rparr>"

definition example_reader :: env where
  "example_reader = example_env\<lparr>simple_rlp_parse := \<lambda>b. Inr (OList (map OBytes (read_short b)))\<rparr>"

text \<open>A node that answers a transaction with a hash.\<close>

definition example_hash_node :: host_env where
  "example_hash_node = example_host_env\<lparr>
     json_load := \<lambda>s. Inr (JDict [''result'' \<mapsto> JString (''0x'' @ replicate 64 CHR ''1'')])\<rparr>"

lemma example_agrees: "rlp_agrees example_reader example_node"
  by (auto simp: rlp_agrees_def example_node_def example_reader_def read_write_short)

lemma example_linked [simp]:
  "checks_sgx example_reader" "receipts_mgr example_reader rs = Inr ()" "ocall_receipts_at example_reader h n = (SGX_SUCCESS, SGX_SUCCESS, [])"
  "ocall_send_at example_reader h txn = (SGX_SUCCESS, SGX_SUCCESS, replicate 32 5)"
  "hex_encode example_reader b = ''hex''"
  "build_request_body example_node meth params = Inr ''json''"
  "node_reply example_node g url body = Inr ''reply''"
  "resp_result example_node resp = Inr (JList [JString ''0x01'', JString ''0x0102''])"
  "json_as_list example_node (JList xs) = Inr xs" "json_as_string example_node (JString txt) = Inr txt"
  "hex_decode example_node txt = Inr (replicate (length txt div 2) 1)" "write_rlp example_node = write_short"
  by (simp_all add: example_node_def example_reader_def checks_sgx_def build_request_body_def node_reply_def
      resp_result_def)

section \<open>Properties\<close>

text \<open>C12: end to end: when the OCALL gets through, the receipts on which the enclave checks a block are
the strings of the list in the node's reply, decoded, in the order of the node; for any other reply, down to
one bad element, for a list that the constructor of \<^verbatim>\<open>ReceiptsMgr\<close> rejects, and for a failing request the
enclave gets an exception. The node is asked once, and the
enclave's state is as before.\<close>

theorem receipts_end_to_end:
  assumes "checks_sgx EE" "rlp_agrees EE E"
    and "ocall_receipts_at EE (history (enclave_sys w)) n = (SGX_SUCCESS, retval, unwritten)"
    and "build_request_body E ''debug_getRawReceipts'' [JString (hex_encode_num E n)] = Inr body"
  shows "\<exists>r u extra. linked_receipts_getter EE E n w = (r, u) \<and> \<not> is_undef r \<and>
    (\<forall>rs. r = Inr rs \<longleftrightarrow>
      (\<exists>resp v xs bs b. node_reply E (host_log w) (geth_url w) body = Inr resp \<and>
         resp_result E resp = Inr v \<and> json_as_list E v = Inr xs \<and>
         list_all2 (\<lambda>x b. \<exists>digits. json_as_string E x = Inr (''0x'' @ digits) \<and> digits \<noteq> [] \<and>
           hex_decode E digits = Inr b) xs bs \<and>
         write_rlp E bs = Inr b \<and> rs = map OBytes bs \<and> receipts_mgr EE rs = Inr ())) \<and>
    u = w\<lparr>host_log := extra @ Posted (geth_url w) body # host_log w,
      enclave_sys := (enclave_sys w)\<lparr>history := ReceiptsFetched n # history (enclave_sys w)\<rparr>\<rparr> \<and>
    (\<forall>c \<in> set extra. \<exists>m. c = HostLogged m)"
proof -
  from linked_receipts_outcome [OF assms refl] obtain r extra where
      "linked_receipts_getter EE E n w =
        (r, w\<lparr>host_log := extra @ Posted (geth_url w) body # host_log w,
          enclave_sys := (enclave_sys w)\<lparr>history := ReceiptsFetched n # history (enclave_sys w)\<rparr>\<rparr>)"
      "\<not> is_undef r" "\<forall>c \<in> set extra. \<exists>m. c = HostLogged m"
    and r: "\<And>rs. r = Inr rs \<longleftrightarrow> (\<exists>bs b. replied_receipts E (node_reply E (host_log w) (geth_url w) body) = Inr bs \<and>
      write_rlp E bs = Inr b \<and> rs = map OBytes bs \<and> receipts_mgr EE rs = Inr ())"
    by blast
  note run = this
  have "(r = Inr rs) = (\<exists>resp v xs bs b. node_reply E (host_log w) (geth_url w) body = Inr resp \<and>
      resp_result E resp = Inr v \<and> json_as_list E v = Inr xs \<and>
      list_all2 (\<lambda>x b. \<exists>digits. json_as_string E x = Inr (''0x'' @ digits) \<and> digits \<noteq> [] \<and>
        hex_decode E digits = Inr b) xs bs \<and>
      write_rlp E bs = Inr b \<and> rs = map OBytes bs \<and> receipts_mgr EE rs = Inr ())" for rs
    unfolding r replied_receipts_iff by iprover
  with run(1-3) show ?thesis
    by (intro exI [of _ r] exI [of _ extra] exI conjI allI) (assumption | rule refl)+
qed


theorem receipts_end_to_end_witness:
  "\<exists>u. linked_receipts_getter example_reader example_node 7 example_attached = (Inr [OBytes [1], OBytes [1, 1]], u) \<and>
    enclave_sys u = (enclave_sys example_attached)
      \<lparr>history := ReceiptsFetched 7 # history (enclave_sys example_attached)\<rparr>"
proof -
  obtain r u where run: "linked_receipts_getter example_reader example_node 7 example_attached = (r, u)"
    and rs: "\<And>rs. (r = Inr rs) = (\<exists>resp v xs bs b.
      node_reply example_node (host_log example_attached) (geth_url example_attached) ''json'' = Inr resp \<and>
      resp_result example_node resp = Inr v \<and> json_as_list example_node v = Inr xs \<and>
      list_all2 (\<lambda>x b. \<exists>digits. json_as_string example_node x = Inr (''0x'' @ digits) \<and> digits \<noteq> [] \<and>
        hex_decode example_node digits = Inr b) xs bs \<and>
      write_rlp example_node bs = Inr b \<and> rs = map OBytes bs \<and> receipts_mgr example_reader rs = Inr ())"
    and u: "enclave_sys u = (enclave_sys example_attached)
      \<lparr>history := ReceiptsFetched 7 # history (enclave_sys example_attached)\<rparr>"
    using receipts_end_to_end [of example_reader example_node example_attached 7 SGX_SUCCESS "[]" "''json''"]
      example_agrees by auto
  have "list_all2 (\<lambda>x b. \<exists>digits. json_as_string example_node x = Inr (''0x'' @ digits) \<and> digits \<noteq> [] \<and>
      hex_decode example_node digits = Inr b) [JString ''0x01'', JString ''0x0102''] [[1], [1, 1]]"
    by simp
  moreover have "write_rlp example_node [[1], [1, 1]] = Inr [1, 1, 2, 1, 1]"
    by (simp add: write_short_def)
  ultimately have "r = Inr (map OBytes [[1], [1, 1]])"
    unfolding rs by (intro exI conjI) (rule example_linked refl | assumption)+
  with run u show ?thesis by simp
qed

text \<open>C13: end to end: a raw transaction that a client hands to the enclave is posted to the node once, as the
hexadecimal text of exactly its bytes; when the node's reply is a hash of 32 bytes the request succeeds and
the enclave logs that hash, and otherwise the request fails and the enclave logs nothing.\<close>

theorem transaction_end_to_end:
  assumes "checks_sgx EE"
    and "ocall_send_at EE (history (enclave_sys w)) msg = (SGX_SUCCESS, retval, unwritten)"
    and "build_request_body E ''eth_sendRawTransaction'' [JString (hex_encode_with E ''0x'' msg)] = Inr body"
  shows "\<exists>r extra new. linked_send_raw EE E msg w =
      (r, w\<lparr>host_log := extra @ Posted (geth_url w) body # host_log w,
        enclave_sys := (enclave_sys w)\<lparr>history := new @ TransactionSent msg # history (enclave_sys w)\<rparr>\<rparr>) \<and>
    (\<forall>c \<in> set extra. \<exists>m. c = HostLogged m) \<and>
    (case replied_hash E (node_reply E (host_log w) (geth_url w) body) of
       Inr hash \<Rightarrow> length hash = 32 \<and> r = Inr () \<and>
         new = [Logged Info ''DecentEthereum::Trusted::Transaction::SendRaw''
                  (''Transaction with hash: '' @ hex_encode EE hash @ '' sent'')]
     | Inl e \<Rightarrow> (\<exists>what. r = Inl (Raised what)) \<and> new = [])"
proof -
  define reply where "reply = node_reply E (host_log w) (geth_url w) body"
  define logged where "logged = (case reply of Inl m \<Rightarrow> []
    | Inr resp \<Rightarrow> [HostLogged (''Received response: '' @ resp)])"
  have logged: "\<forall>c \<in> set logged. \<exists>m. c = HostLogged m" by (cases reply) (simp_all add: logged_def)
  have sent: "send_raw_transaction_host E msg w =
      (replied_hash E reply, w\<lparr>host_log := logged @ Posted (geth_url w) body # host_log w\<rparr>)"
    using host_send_run [OF assms(3)] by (simp add: reply_def logged_def)
  note run = linked_send_run [OF assms(2,3) sent replied_defined(2)]
  show ?thesis
  proof (cases "replied_hash E reply")
    case (Inr hash)
    then have "length hash = 32"
      by (auto simp: replied_hash_def bind_res_Inr_iff proc_resp_single_bytes_array_def split: if_splits)
    with run [of SGX_SUCCESS "Some hash" "logged @ Posted (geth_url w) body # host_log w"] Inr logged
      checks_sgxD [OF assms(1)] show ?thesis
      unfolding reply_def [symmetric]
      by (intro exI [of _ "Inr ()"] exI [of _ logged]) (simp add: ocall_result_def)
  next
    case (Inl e)
    then obtain what where what: "e = Raised what"
      using replied_defined(2) [of E reply] by (cases e) simp_all
    obtain m where "check_sgx EE SGX_SUCCESS SGX_ERROR_UNEXPECTED = Inl m"
      using checks_sgx_throws [OF assms(1)] by blast
    with run [of SGX_ERROR_UNEXPECTED None] Inl what logged show ?thesis
      unfolding reply_def [symmetric]
      by (intro exI [of _ "Inl (Raised m)"] exI [of _ "HostLogged
          (''ocall_decent_ethereum_send_raw_transaction'' @ '' failed with error '' @ what) # logged"])
        (simp add: ocall_result_def)
  qed
qed

theorem transaction_end_to_end_witness:
  "\<exists>u. linked_send_raw example_reader example_hash_node [1, 2] example_attached = (Inr (), u) \<and>
    history (enclave_sys u) = Logged Info ''DecentEthereum::Trusted::Transaction::SendRaw''
      (''Transaction with hash: '' @ ''hex'' @ '' sent'') # TransactionSent [1, 2] #
      history (enclave_sys example_attached)"
proof -
  have "build_request_body example_hash_node meth params = Inr ''json''" for meth params
    by (simp add: build_request_body_def example_hash_node_def)
  moreover have "replied_hash example_hash_node (node_reply example_hash_node h url body) = Inr (replicate 32 1)"
    for h url body
    by (simp add: replied_hash_def node_reply_def proc_resp_single_bytes_array_def proc_resp_single_bytes_def
        resp_result_def decode_hex_str_def example_hash_node_def copy_to_array_def)
  ultimately show ?thesis
    using transaction_end_to_end [of example_reader example_attached "[1, 2]" SGX_SUCCESS "replicate 32 5"
      example_hash_node "''json''"] by auto
qed

end
