(* ===== verification/SignalLoop.thy ===== *)
theory SignalLoop
  imports Prelude
begin

text \<open>
  src/Untrusted/RunUntilSignal.hpp: the main loop runs \<open>func\<close> until a handler has stored a signal
  number. A signal that arrives while \<open>func\<close> runs is part of what \<open>func\<close> does to the state. The loop
  has no bound of its own, so it is a partial function: \<open>None\<close> is a loop that does not end.
\<close>

datatype disposition = DefaultAction | CallsHandler

record sig_state =
  sig_val :: int
  on_sigint :: disposition
  on_sigterm :: disposition
  printed :: "string list"

definition sigint :: int where "sigint = 2"
definition sigterm :: int where "sigterm = 15"

definition get_signal_name :: "int \<Rightarrow> string" where
  "get_signal_name sig =
     (if sig = sigint then ''SIGINT'' else if sig = sigterm then ''SIGTERM'' else ''Unknown'')"

definition signal_handler :: "int \<Rightarrow> ('z sig_state_scheme, unit) prog" where
  "signal_handler sig =
     updates (\<lambda>w. w\<lparr>printed := (''Signal received: '' @ get_signal_name sig) # printed w,
                  sig_val := sig\<rparr>)"

partial_function (option) signal_loop ::
    "('z sig_state_scheme, unit) prog \<Rightarrow> 'z sig_state_scheme \<Rightarrow> (unit res \<times> 'z sig_state_scheme) option" where
  "signal_loop func w =
     (if sig_val w \<noteq> 0 then Some (Inr (), w)
      else (case func w of
              (Inl e, t) \<Rightarrow> Some (Inl e, t)
            | (Inr _, t) \<Rightarrow> signal_loop func t))"

definition run_until_signal ::
    "('z sig_state_scheme, unit) prog \<Rightarrow> 'z sig_state_scheme \<Rightarrow> (unit res \<times> 'z sig_state_scheme) option" where
  "run_until_signal func w =
     (case signal_loop func (w\<lparr>on_sigint := CallsHandler, on_sigterm := CallsHandler\<rparr>) of
        None \<Rightarrow> None
      | Some (Inl e, t) \<Rightarrow> Some (Inl e, t)
      | Some (Inr _, t) \<Rightarrow> Some (Inr (), t\<lparr>on_sigint := DefaultAction, on_sigterm := DefaultAction\<rparr>))"

text \<open>\<open>turns func n w\<close>: the state after \<open>n\<close> calls of \<open>func\<close> that all returned.\<close>

fun turns :: "('s, unit) prog \<Rightarrow> nat \<Rightarrow> 's \<Rightarrow> 's option" where
  "turns func 0 w = Some w"
| "turns func (Suc n) w = (case func w of (Inl e, t) \<Rightarrow> None | (Inr _, t) \<Rightarrow> turns func n t)"

lemma signal_loop_returns:
  assumes "turns func n w = Some t" "sig_val t \<noteq> 0"
    and "\<And>m u. m < n \<Longrightarrow> turns func m w = Some u \<Longrightarrow> sig_val u = 0"
  shows "signal_loop func w = Some (Inr (), t)"
  using assms
proof (induction n arbitrary: w)
  case 0
  then show ?case by (simp add: signal_loop.simps)
next
  case (Suc n)
  from Suc.prems(3) [of 0] have idle: "sig_val w = 0" by simp
  from Suc.prems(1) obtain v where v: "func w = (Inr (), v)" "turns func n v = Some t"
    by (auto split: prod.splits sum.splits)
  have "sig_val u = 0" if "m < n" "turns func m v = Some u" for m u
    using Suc.prems(3) [of "Suc m" u] that v by simp
  then have "signal_loop func v = Some (Inr (), t)"
    using Suc.IH [OF v(2) Suc.prems(2)] by blast
  with idle v show ?case by (simp add: signal_loop.simps [of func w])
qed

lemma signal_loop_signalled:
  assumes "signal_loop func w = Some (Inr (), t)"
  shows "sig_val t \<noteq> 0 \<and> (\<exists>n. turns func n w = Some t)"
proof -
  have "\<forall>u. r = (Inr (), u) \<longrightarrow> sig_val u \<noteq> 0 \<and> (\<exists>n. turns func n w = Some u)"
    if ret: "signal_loop func w = Some r" for r
  proof (rule signal_loop.raw_induct [where P = "\<lambda>func w r. \<forall>u. r = (Inr (), u) \<longrightarrow>
      sig_val u \<noteq> 0 \<and> (\<exists>n. turns func n w = Some u)", OF _ ret])
    fix loop and func :: "('z sig_state_scheme, unit) prog" and w r
    assume IH: "\<And>func w r. loop func w = Some r \<Longrightarrow>
        \<forall>u. r = (Inr (), u) \<longrightarrow> sig_val u \<noteq> 0 \<and> (\<exists>n. turns func n w = Some u)"
      and eq: "(if sig_val w \<noteq> 0 then Some (Inr (), w)
        else case func w of (Inl e, t) \<Rightarrow> Some (Inl e, t) | (Inr _, t) \<Rightarrow> loop func t) = Some r"
    show "\<forall>u. r = (Inr (), u) \<longrightarrow> sig_val u \<noteq> 0 \<and> (\<exists>n. turns func n w = Some u)"
    proof (cases "sig_val w = 0")
      case False
      with eq have "r = (Inr (), w)" by simp
      with False show ?thesis by (auto intro: exI [of _ 0])
    next
      case True
      obtain q v where fw: "func w = (q, v)" by fastforce
      show ?thesis
      proof (cases q)
        case (Inl e)
        with True eq fw show ?thesis by auto
      next
        case (Inr x)
        with True eq fw have "loop func v = Some r" by simp
        from IH [OF this]
        have v: "\<forall>u. r = (Inr (), u) \<longrightarrow> sig_val u \<noteq> 0 \<and> (\<exists>n. turns func n v = Some u)" .
        have "turns func (Suc n) w = turns func n v" for n
          using Inr fw by simp
        with v show ?thesis by metis
      qed
    qed
  qed
  with assms show ?thesis by blast
qed

lemma turns_first:
  assumes "turns func n w = Some t" "sig_val t \<noteq> 0"
  obtains k u where "k \<le> n" "turns func k w = Some u" "sig_val u \<noteq> 0"
    "\<And>m v. m < k \<Longrightarrow> turns func m w = Some v \<Longrightarrow> sig_val v = 0"
proof -
  let ?P = "\<lambda>k. \<exists>u. turns func k w = Some u \<and> sig_val u \<noteq> 0"
  have least: "?P (LEAST k. ?P k)" using assms by (intro LeastI [of ?P n]) blast
  have "(LEAST k. ?P k) \<le> n" using assms by (intro Least_le) blast
  moreover have "sig_val v = 0" if "m < (LEAST k. ?P k)" "turns func m w = Some v" for m v
    using not_less_Least [OF that(1)] that(2) by blast
  ultimately show thesis using least that by blast
qed

definition armed :: "'z sig_state_scheme \<Rightarrow> 'z sig_state_scheme" where
  "armed w = w\<lparr>on_sigint := CallsHandler, on_sigterm := CallsHandler\<rparr>"

definition disarmed :: "'z sig_state_scheme \<Rightarrow> 'z sig_state_scheme" where
  "disarmed w = w\<lparr>on_sigint := DefaultAction, on_sigterm := DefaultAction\<rparr>"

text \<open>The main loop returns exactly when some signal has been stored, at the first turn of its function that
leaves a signal number, with the handlers in place during the turns and the default actions restored
after them.\<close>

lemma run_until_signal_iff:
  "run_until_signal func w = Some (Inr (), u) \<longleftrightarrow>
     (\<exists>n t. turns func n (armed w) = Some t \<and> sig_val t \<noteq> 0 \<and> u = disarmed t \<and>
        (\<forall>m < n. \<forall>v. turns func m (armed w) = Some v \<longrightarrow> sig_val v = 0))"
proof
  assume "run_until_signal func w = Some (Inr (), u)"
  then obtain t where t: "signal_loop func (armed w) = Some (Inr (), t)" and u: "u = disarmed t"
    by (auto simp: run_until_signal_def armed_def disarmed_def split: option.splits prod.splits sum.splits)
  from signal_loop_signalled [OF t] obtain n where n: "turns func n (armed w) = Some t" "sig_val t \<noteq> 0" by blast
  from turns_first [OF n] obtain k v where k: "turns func k (armed w) = Some v" "sig_val v \<noteq> 0"
      "\<And>m v. m < k \<Longrightarrow> turns func m (armed w) = Some v \<Longrightarrow> sig_val v = 0" by metis
  from signal_loop_returns [OF k] t have "v = t" by simp
  with k u show "\<exists>n t. turns func n (armed w) = Some t \<and> sig_val t \<noteq> 0 \<and> u = disarmed t \<and>
      (\<forall>m < n. \<forall>v. turns func m (armed w) = Some v \<longrightarrow> sig_val v = 0)" by blast
next
  assume "\<exists>n t. turns func n (armed w) = Some t \<and> sig_val t \<noteq> 0 \<and> u = disarmed t \<and>
      (\<forall>m < n. \<forall>v. turns func m (armed w) = Some v \<longrightarrow> sig_val v = 0)"
  then obtain n t where "turns func n (armed w) = Some t" "sig_val t \<noteq> 0" "u = disarmed t"
      "\<And>m v. m < n \<Longrightarrow> turns func m (armed w) = Some v \<Longrightarrow> sig_val v = 0" by blast
  with signal_loop_returns [of func n "armed w" t]
  show "run_until_signal func w = Some (Inr (), u)"
    by (simp add: run_until_signal_def armed_def disarmed_def)
qed

end
