(* ===== verification/MainProgram.thy ===== *)
theory MainProgram
  imports HostMain SignalLoop
begin

text \<open>
  \<open>main\<close> of src/Untrusted/Main.cpp from its arguments to its exit code: the start (\<open>HostMain\<close>), the
  event loop (\<open>SignalLoop\<close>) and the end. The state is that of the signal handling and that of the host
  process. \<^verbatim>\<open>ThreadPool::Update\<close> is a library that runs the tasks; it is the parameter \<open>update\<close>, which may
  do anything, and a signal that is handled while it runs is part of what it does.
\<close>

record main_state = sig_state +
  main_host :: host_svc

definition on_host :: "(host_svc, 'a) prog \<Rightarrow> ('z main_state_scheme, 'a) prog" where
  "on_host m = (\<lambda>w. case m (main_host w) of (r, h) \<Rightarrow> (r, w\<lparr>main_host := h\<rparr>))"

definition main_turn :: "('z main_state_scheme, unit) prog \<Rightarrow> ('z main_state_scheme, unit) prog" where
  "main_turn update = bnd update (\<lambda>_. on_host (host_note (Slept 10)))"

definition main_end :: "host_env \<Rightarrow> ('z main_state_scheme, int) prog" where
  "main_end E = bnd (on_host (host_setup E ''ThreadPool::Terminate'')) (\<lambda>_. ret 0)"

definition main_program ::
    "host_env \<Rightarrow> nat \<Rightarrow> string list \<Rightarrow> ('z main_state_scheme, unit) prog \<Rightarrow> 'z main_state_scheme \<Rightarrow>
       (int res \<times> 'z main_state_scheme) option" where
  "main_program E enclave_id argv update w =
     (case on_host (main_start E enclave_id argv) w of
        (Inl e, t) \<Rightarrow> Some (Inl e, t)
      | (Inr (Some code), t) \<Rightarrow> Some (Inr code, t)
      | (Inr None, t) \<Rightarrow>
          (case run_until_signal (main_turn update) t of
             None \<Rightarrow> None
           | Some (Inl e, v) \<Rightarrow> Some (Inl e, v)
           | Some (Inr _, v) \<Rightarrow> Some (main_end E v)))"

lemma on_host_run [prog_run]: "on_host m w = (case m (main_host w) of (r, h) \<Rightarrow> (r, w\<lparr>main_host := h\<rparr>))"
  by (simp add: on_host_def)

lemma main_host_disarmed [simp]: "main_host (disarmed t) = main_host t"
  by (simp add: disarmed_def)

lemma main_end_run:
  "main_end E v = (Inr code, u) \<longleftrightarrow>
     code = 0 \<and> host_setup_at E (host_log (main_host v)) ''ThreadPool::Terminate'' = Inr () \<and>
     u = v\<lparr>main_host := (main_host v)\<lparr>host_log := HostSetup ''ThreadPool::Terminate'' # host_log (main_host v)\<rparr>\<rparr>"
  by (auto simp: main_end_def prog_run host_setup_def split: sum.split)

lemma main_start_code:
  "main_start E enclave_id argv h = (Inr (Some code), t) \<longleftrightarrow>
     config_path argv = None \<and> code = -1 \<and>
     t = h\<lparr>host_log :=
       HostLogged ''Only the path to the components configuration file is needed.'' #
       HostLogged ''Unexpected number of arguments.'' # host_log h\<rparr>"
proof (cases "config_path argv")
  case None
  then show ?thesis by (auto simp: main_start_def prog_run)
next
  case (Some path)
  then show ?thesis by (auto simp: main_start_def elim!: bnd_cases)
qed

lemma config_path_None: "config_path argv = None \<longleftrightarrow> length argv \<noteq> 1 \<and> length argv \<noteq> 2"
  by (auto simp: config_path_def)

section \<open>Properties\<close>

text \<open>C36: the program exits with a code in two ways and no other. With a number of arguments other than
none or one it returns -1 at once, having done nothing but print two lines. Otherwise it returns 0,
when it has started and a turn of its loop leaves a signal number: it stops after the first such turn, with
its signal handlers in place during all turns and the default actions restored after them, and
terminates the thread pool last.\<close>

theorem main_exit_codes:
  "main_program E enclave_id argv update w = Some (Inr code, u) \<longleftrightarrow>
     (length argv \<noteq> 1 \<and> length argv \<noteq> 2 \<and> code = -1 \<and>
      u = w\<lparr>main_host := (main_host w)\<lparr>host_log :=
        HostLogged ''Only the path to the components configuration file is needed.'' #
        HostLogged ''Unexpected number of arguments.'' # host_log (main_host w)\<rparr>\<rparr>) \<or>
     (\<exists>h n t. main_start E enclave_id argv (main_host w) = (Inr None, h) \<and>
        turns (main_turn update) n (armed (w\<lparr>main_host := h\<rparr>)) = Some t \<and> sig_val t \<noteq> 0 \<and>
        (\<forall>m < n. \<forall>v. turns (main_turn update) m (armed (w\<lparr>main_host := h\<rparr>)) = Some v \<longrightarrow> sig_val v = 0) \<and>
        host_setup_at E (host_log (main_host t)) ''ThreadPool::Terminate'' = Inr () \<and> code = 0 \<and>
        u = (disarmed t)\<lparr>main_host := (main_host t)\<lparr>host_log :=
          HostSetup ''ThreadPool::Terminate'' # host_log (main_host t)\<rparr>\<rparr>)"
proof -
  obtain r h where start: "main_start E enclave_id argv (main_host w) = (r, h)" by fastforce
  consider (throws) e where "r = Inl e" | (code) c where "r = Inr (Some c)" | (runs) "r = Inr None"
    by (cases r) auto
  then show ?thesis
  proof cases
    case throws
    with start have "config_path argv \<noteq> None"
      using main_start_code [of E enclave_id argv "main_host w" "-1"] by auto
    with start throws show ?thesis
      by (auto simp: main_program_def on_host_run config_path_None)
  next
    case code
    with start have "main_start E enclave_id argv (main_host w) = (Inr (Some c), h)" by simp
    from main_start_code [THEN iffD1, OF this] start code show ?thesis
      by (auto simp: main_program_def on_host_run config_path_None)
  next
    case runs
    let ?w = "w\<lparr>main_host := h\<rparr>"
    have "config_path argv \<noteq> None"
      using start runs main_start_code [of E enclave_id argv "main_host w" "-1"] by auto
    moreover have "main_program E enclave_id argv update w = Some (Inr code, u) \<longleftrightarrow>
        (\<exists>v. run_until_signal (main_turn update) ?w = Some (Inr (), v) \<and> main_end E v = (Inr code, u))"
      using start runs
      by (auto simp: main_program_def on_host_run split: option.splits prod.splits sum.splits)
    moreover have "(\<exists>v. run_until_signal (main_turn update) ?w = Some (Inr (), v) \<and> main_end E v = (Inr code, u)) \<longleftrightarrow>
        (\<exists>n t. turns (main_turn update) n (armed ?w) = Some t \<and> sig_val t \<noteq> 0 \<and>
          (\<forall>m < n. \<forall>v. turns (main_turn update) m (armed ?w) = Some v \<longrightarrow> sig_val v = 0) \<and>
          host_setup_at E (host_log (main_host t)) ''ThreadPool::Terminate'' = Inr () \<and> code = 0 \<and>
          u = (disarmed t)\<lparr>main_host := (main_host t)\<lparr>host_log :=
            HostSetup ''ThreadPool::Terminate'' # host_log (main_host t)\<rparr>\<rparr>)"
      unfolding run_until_signal_iff main_end_run by (auto 0 3)
    ultimately show ?thesis
      using start runs by (simp add: config_path_None) blast
  qed
qed

definition example_main :: main_state where
  "example_main = \<lparr>sig_val = 0, on_sigint = DefaultAction, on_sigterm = DefaultAction, printed = [],
     main_host = example_host\<rparr>"

theorem main_exit_codes_witness:
  "\<exists>u. main_program example_main_env 4 [''app''] (signal_handler sigterm) example_main = Some (Inr 0, u) \<and>
    sig_val u = 15 \<and> on_sigterm u = DefaultAction"
proof -
  let ?h = "snd (main_start example_main_env 4 [''app''] (main_host example_main))"
  let ?turn = "main_turn (signal_handler sigterm)"
  let ?w = "armed (example_main\<lparr>main_host := ?h\<rparr>)"
  let ?t = "snd (?turn ?w)"
  let ?u = "(disarmed ?t)\<lparr>main_host := (main_host ?t)\<lparr>host_log :=
          HostSetup ''ThreadPool::Terminate'' # host_log (main_host ?t)\<rparr>\<rparr>"
  have start: "main_start example_main_env 4 [''app''] (main_host example_main) = (Inr None, ?h)"
    using example_start by (simp add: example_main_def) (metis prod.collapse)
  have turn: "turns ?turn 1 ?w = Some ?t" "sig_val ?t = 15"
    by (simp_all add: main_turn_def signal_handler_def prog_run sigterm_def)
  have "sig_val ?w = 0" by (simp add: armed_def example_main_def)
  then have "main_program example_main_env 4 [''app''] (signal_handler sigterm) example_main = Some (Inr 0, ?u)"
    using start turn by (intro main_exit_codes [THEN iffD2] disjI2 exI [of _ ?h] exI [of _ 1] exI [of _ ?t]) auto
  with turn show ?thesis by (auto simp: disarmed_def)
qed

end
