(* ===== verification/EnclaveKeys.thy ===== *)
theory EnclaveKeys
  imports Prelude "HOL-Library.Multiset"
begin

text \<open>
  src/Trusted/Keys.hpp: the bodies that generate the two keys of the enclave's key ring. The SGX and
  mbedTLS calls are fields of \<open>key_env\<close>; a key object of mbedTLS is opaque (\<open>key_obj\<close>). The calls that
  open and close an ECC context enter \<open>key_log\<close>, newest first, and \<open>open_contexts\<close> is what is open.
  Opening reports a status and a handle; with a status other than success there is no context.
\<close>

type_synonym key_obj = bytes

datatype key_call =
    EccOpened nat
  | PairCreated nat
  | EccClosed nat
  | KeyGenerated

record key_env =
  open_ecc_at :: "key_call list \<Rightarrow> sgx_status \<times> nat"
  create_pair_at :: "key_call list \<Rightarrow> nat \<Rightarrow> sgx_status \<times> bytes \<times> bytes"
  check_runtime :: "sgx_status \<Rightarrow> unit lib"
  new_key_r1 :: "key_obj lib"
  export_public :: "key_obj \<Rightarrow> bytes \<Rightarrow> key_obj lib"
  export_private :: "key_obj \<Rightarrow> bytes \<Rightarrow> key_obj lib"
  generate_k1_at :: "key_call list \<Rightarrow> key_obj lib"

record key_rt =
  key_log :: "key_call list"

definition note_key :: "key_call \<Rightarrow> ('z key_rt_scheme, unit) prog" where
  "note_key c = updates (\<lambda>w. w\<lparr>key_log := c # key_log w\<rparr>)"

definition sgx_ecc256_open_context :: "key_env \<Rightarrow> ('z key_rt_scheme, sgx_status \<times> nat) prog" where
  "sgx_ecc256_open_context E =
     bnd (reads (\<lambda>w. open_ecc_at E (key_log w))) (\<lambda>(status, ecc).
     bnd (if status = SGX_SUCCESS then note_key (EccOpened ecc) else ret ()) (\<lambda>_.
     ret (status, ecc)))"

definition sgx_ecc256_create_key_pair :: "key_env \<Rightarrow> nat \<Rightarrow> ('z key_rt_scheme, sgx_status \<times> bytes \<times> bytes) prog" where
  "sgx_ecc256_create_key_pair E ecc =
     bnd (reads (\<lambda>w. create_pair_at E (key_log w) ecc)) (\<lambda>res.
     bnd (note_key (PairCreated ecc)) (\<lambda>_. ret res))"

definition gen_key_secp256r1 :: "key_env \<Rightarrow> ('z key_rt_scheme, key_obj) prog" where
  "gen_key_secp256r1 E =
     bnd (sgx_ecc256_open_context E) (\<lambda>(status, ecc).
     bnd (lib (check_runtime E status)) (\<lambda>_.
     bnd (sgx_ecc256_create_key_pair E ecc) (\<lambda>(status, priv, pub).
     bnd (note_key (EccClosed ecc)) (\<lambda>_.
     bnd (lib (check_runtime E status)) (\<lambda>_.
     bnd (lib (new_key_r1 E)) (\<lambda>key_pair.
     bnd (lib (export_public E key_pair pub)) (\<lambda>key_pair.
     lib (export_private E key_pair priv))))))))"

definition gen_key_secp256k1 :: "key_env \<Rightarrow> ('z key_rt_scheme, key_obj) prog" where
  "gen_key_secp256k1 E =
     bnd (reads (\<lambda>w. generate_k1_at E (key_log w))) (\<lambda>key.
     bnd (note_key KeyGenerated) (\<lambda>_. lib key))"

fun open_contexts :: "key_call list \<Rightarrow> nat multiset" where
  "open_contexts [] = {#}"
| "open_contexts (EccOpened ecc # h) = add_mset ecc (open_contexts h)"
| "open_contexts (EccClosed ecc # h) = open_contexts h - {#ecc#}"
| "open_contexts (_ # h) = open_contexts h"

text \<open>\<^verbatim>\<open>DECENTENCLAVE_CHECK_SGX_RUNTIME_ERROR\<close> throws unless the status is success.\<close>

definition checks_runtime :: "key_env \<Rightarrow> bool" where
  "checks_runtime E \<longleftrightarrow> (\<forall>status. (check_runtime E status = Inr ()) = (status = SGX_SUCCESS))"

lemma checks_runtime_simps:
  assumes "checks_runtime E"
  shows "check_runtime E SGX_SUCCESS = Inr ()"
    and "status \<noteq> SGX_SUCCESS \<Longrightarrow> \<exists>m. check_runtime E status = Inl m"
  using assms by (simp add: checks_runtime_def)
    (cases "check_runtime E status"; use assms in \<open>simp add: checks_runtime_def\<close>)

definition keyed :: "key_env \<Rightarrow> bytes \<Rightarrow> bytes \<Rightarrow> key_obj res" where
  "keyed E priv pub =
     bind_res (of_lib (new_key_r1 E)) (\<lambda>key_pair.
     bind_res (of_lib (export_public E key_pair pub)) (\<lambda>key_pair.
     of_lib (export_private E key_pair priv)))"

lemma keyed_defined: "\<not> is_undef (keyed E priv pub)"
  by (auto simp: keyed_def bind_res_def of_lib_def split: sum.split)

lemma keyed_Inr_iff:
  "keyed E priv pub = Inr key \<longleftrightarrow> (\<exists>k0 k1. new_key_r1 E = Inr k0 \<and> export_public E k0 pub = Inr k1 \<and>
     export_private E k1 priv = Inr key)"
  by (auto simp: keyed_def bind_res_Inr_iff)

lemma gen_key_secp256r1_run:
  assumes "checks_runtime E" "open_ecc_at E (key_log w) = (status, ecc)"
    and "create_pair_at E (EccOpened ecc # key_log w) ecc = (status', priv, pub)"
  defines "u \<equiv> w\<lparr>key_log := EccClosed ecc # PairCreated ecc # EccOpened ecc # key_log w\<rparr>"
  shows "status \<noteq> SGX_SUCCESS \<Longrightarrow> \<exists>m. gen_key_secp256r1 E w = (Inl (Raised m), w)"
    and "status = SGX_SUCCESS \<Longrightarrow> status' \<noteq> SGX_SUCCESS \<Longrightarrow> \<exists>m. gen_key_secp256r1 E w = (Inl (Raised m), u)"
    and "status = SGX_SUCCESS \<Longrightarrow> status' = SGX_SUCCESS \<Longrightarrow> gen_key_secp256r1 E w = (keyed E priv pub, u)"
  using assms(2-4) checks_runtime_simps(1) [OF assms(1)] checks_runtime_simps(2) [OF assms(1), of status]
    checks_runtime_simps(2) [OF assms(1), of status']
  by (auto simp: gen_key_secp256r1_def sgx_ecc256_open_context_def sgx_ecc256_create_key_pair_def
      note_key_def keyed_def prog_run bind_res_def split: sum.split)

section \<open>Properties\<close>

text \<open>C26: generating the Secp256r1 key returns every context it opens: whatever call fails, and however,
no ECC context is left open. It returns a key exactly when every call succeeds, and that key has got
both halves of the pair that was created; every other outcome is an exception.\<close>

theorem key_context_returned:
  assumes "checks_runtime E" "gen_key_secp256r1 E w = (r, u)"
  shows "open_contexts (key_log u) = open_contexts (key_log w) \<and> \<not> is_undef r \<and>
    (\<forall>key. r = Inr key \<longleftrightarrow> (\<exists>ecc priv pub k0 k1.
       open_ecc_at E (key_log w) = (SGX_SUCCESS, ecc) \<and>
       create_pair_at E (EccOpened ecc # key_log w) ecc = (SGX_SUCCESS, priv, pub) \<and>
       new_key_r1 E = Inr k0 \<and> export_public E k0 pub = Inr k1 \<and> export_private E k1 priv = Inr key))"
proof -
  obtain status ecc where opened: "open_ecc_at E (key_log w) = (status, ecc)" by fastforce
  obtain status' priv pub where
    pair: "create_pair_at E (EccOpened ecc # key_log w) ecc = (status', priv, pub)" by (metis prod_cases3)
  note run = gen_key_secp256r1_run [OF assms(1) opened pair]
  consider "status \<noteq> SGX_SUCCESS" | "status = SGX_SUCCESS" "status' \<noteq> SGX_SUCCESS"
    | "status = SGX_SUCCESS" "status' = SGX_SUCCESS" by blast
  then show ?thesis
  proof cases
    case 1
    with run(1) assms(2) opened show ?thesis by auto
  next
    case 2
    with run(2) assms(2) opened pair show ?thesis by auto
  next
    case 3
    with run(3) assms(2) opened pair show ?thesis by (auto simp: keyed_defined keyed_Inr_iff)
  qed
qed

definition example_key_env :: key_env where
  "example_key_env =
     \<lparr>open_ecc_at = (\<lambda>h. (SGX_SUCCESS, 5)), create_pair_at = (\<lambda>h e. (SGX_OTHER 3, [1], [2])),
      check_runtime = (\<lambda>st. if st = SGX_SUCCESS then Inr () else Inl ''sgx''), new_key_r1 = Inr [],
      export_public = (\<lambda>k b. Inr (k @ b)), export_private = (\<lambda>k b. Inr (k @ b)),
      generate_k1_at = (\<lambda>h. Inr [3])\<rparr>"

theorem key_context_returned_witness:
  "\<exists>r u. gen_key_secp256r1 example_key_env \<lparr>key_log = []\<rparr> = (r, u) \<and>
    open_contexts (key_log u) = {#} \<and> (\<forall>key. r \<noteq> Inr key)"
proof -
  obtain r u where run: "gen_key_secp256r1 example_key_env \<lparr>key_log = []\<rparr> = (r, u)" by fastforce
  have "checks_runtime example_key_env" by (simp add: checks_runtime_def example_key_env_def)
  from key_context_returned [OF this run] have
    "open_contexts (key_log u) = {#}" "\<forall>key. r \<noteq> Inr key"
    by (simp_all add: example_key_env_def)
  with run show ?thesis by blast
qed

end
