(* ===== verification/ThroughputEval.thy ===== *)
theory ThroughputEval
  imports HostMain TrustedHostBlockService EnclaveMain
begin

text \<open>
  The throughput evaluation under src/tests/geth-decent-throughput-eval: an enclave without a monitor that
  only checks the receipts of some blocks, those whose hash ends in a byte below a limit, and a host that
  pushes a fixed range of blocks through it at each of eleven rates. It is built on the host block service
  of both sides, so the model is too.

  The program computes in \<^verbatim>\<open>double\<close>: the literals, the product that gives the limit and the printed
  figures. A \<^verbatim>\<open>double\<close> is an element of \<open>'d\<close>, and what is made of it is a parameter: \<open>rate_literal p\<close> is
  the literal of \<open>p\<close> hundredths, \<open>rate_limit\<close> the assignment to \<^verbatim>\<open>g_receiptLimit\<close>. The ECALLs are linked to
  the functions that implement them, as in \<open>HostAndEnclave\<close>.
\<close>

section \<open>The enclave\<close>

text \<open>What is read of a \<^verbatim>\<open>HeaderMgr\<close>: \<^verbatim>\<open>GetHash()\<close>, \<^verbatim>\<open>GetNumber()\<close>, \<^verbatim>\<open>GetRawHeader().get_ReceiptsRoot()\<close>.\<close>

record eth_header =
  hdr_hash :: bytes
  hdr_number :: u64
  hdr_receipts_root :: bytes

record 'd eval_env =
  header_of :: "bytes \<Rightarrow> eth_header lib"
  receipts_root_of :: "obj list \<Rightarrow> bytes lib"
  rate_limit :: "'d \<Rightarrow> byte"
  rate_literal :: "nat \<Rightarrow> 'd"
  rate_ecall_at :: "host_history \<Rightarrow> 'd \<Rightarrow> sgx_status \<times> sgx_status"
  init_ecall_at :: "host_history \<Rightarrow> string \<Rightarrow> string \<Rightarrow> (sgx_status \<times> sgx_status) lib"
  time_now_at :: "host_history \<Rightarrow> u64"
  eval_report :: "'d \<Rightarrow> u64 \<Rightarrow> u64 \<Rightarrow> string"

record eval_process = rt +
  receipt_limit :: byte
  verified_receipts :: u64
  blk_svc_set :: bool

definition eval_global_initialization :: "env \<Rightarrow> ('z rt_scheme, unit) prog" where
  "eval_global_initialization E = setup_step E ''MbedTlsInit''"

definition eval_print_my_info :: "env \<Rightarrow> ('z rt_scheme, unit) prog" where
  "eval_print_my_info E =
     bnd (read_info E ''PlatformId::GetIdHex'') (\<lambda>platform_id.
     bnd (log_msg Info ''Enclave'' (''My platform ID is              : '' @ platform_id)) (\<lambda>_.
     bnd (read_info E ''EnclaveIdentity::GetSelfHashHex'') (\<lambda>self_hash.
     log_msg Info ''Enclave'' (''My enclave hash is             : '' @ self_hash))))"

definition eval_init :: "env \<Rightarrow> ('z eval_process_scheme, unit) prog" where
  "eval_init E =
     bnd (eval_global_initialization E) (\<lambda>_.
     bnd (eval_print_my_info E) (\<lambda>_.
     updates (\<lambda>w. w\<lparr>blk_svc_set := True\<rparr>)))"

definition set_receipt_rate :: "'d eval_env \<Rightarrow> 'd \<Rightarrow> ('z eval_process_scheme, unit) prog" where
  "set_receipt_rate X rate =
     bnd (updates (\<lambda>w. w\<lparr>receipt_limit := rate_limit X rate\<rparr>)) (\<lambda>_.
     bnd (reads verified_receipts) (\<lambda>n.
     bnd (log_msg Info ''Enclave'' (''Previously verified receipts: '' @ to_string n)) (\<lambda>_.
     updates (\<lambda>w. w\<lparr>verified_receipts := 0\<rparr>))))"

definition eval_recv_block :: "env \<Rightarrow> 'd eval_env \<Rightarrow> bytes \<Rightarrow> ('z eval_process_scheme, unit) prog" where
  "eval_recv_block E X hdr_rlp =
     bnd (lib (header_of X hdr_rlp)) (\<lambda>header.
     if hdr_hash header = [] then undef ''hdrHash[hdrHash.size() - 1]''
     else
       bnd (reads receipt_limit) (\<lambda>limit.
       if last (hdr_hash header) < limit \<or> limit = 255 then
         bnd (reads blk_svc_set) (\<lambda>ready.
         if \<not> ready then undef ''null g_hostBlkSvc''
         else
           bnd (get_receipts_rlp_by_num E (hdr_number header)) (\<lambda>rlp.
           bnd (lib (as_list E rlp)) (\<lambda>receipts.
           bnd (lib (receipts_root_of X receipts)) (\<lambda>root.
           if root \<noteq> hdr_receipts_root header then raise ''Receipts root mismatch''
           else updates (\<lambda>w. w\<lparr>verified_receipts := verified_receipts w + 1\<rparr>)))))
       else ret ()))"

definition eval_ecall_init :: "env \<Rightarrow> ('z eval_process_scheme, sgx_status) prog" where
  "eval_ecall_init E = ecall (eval_init E)"

definition ecall_set_receipt_rate :: "'d eval_env \<Rightarrow> 'd \<Rightarrow> ('z eval_process_scheme, sgx_status) prog" where
  "ecall_set_receipt_rate X rate = ecall (set_receipt_rate X rate)"

definition eval_ecall_recv_block :: "env \<Rightarrow> 'd eval_env \<Rightarrow> bytes \<Rightarrow> ('z eval_process_scheme, sgx_status) prog" where
  "eval_ecall_recv_block E X hdr_rlp = ecall (eval_recv_block E X hdr_rlp)"

section \<open>The enclave as the host sees it\<close>

record eval_attached = host_svc +
  eval_enclave :: eval_process

definition in_enclave ::
    "(eval_process, sgx_status) prog \<Rightarrow> (sgx_status \<Rightarrow> ('z eval_attached_scheme, unit) prog) \<Rightarrow>
     ('z eval_attached_scheme, unit) prog" where
  "in_enclave m check = (\<lambda>w.
     case m (eval_enclave w) of
       (Inl e, t) \<Rightarrow> (Inl e, w\<lparr>eval_enclave := t\<rparr>)
     | (Inr retval, t) \<Rightarrow> check retval (w\<lparr>eval_enclave := t\<rparr>))"

definition eval_create_enclave ::
    "env \<Rightarrow> 'd eval_env \<Rightarrow> host_env \<Rightarrow> string \<Rightarrow> string \<Rightarrow> ('z eval_attached_scheme, unit) prog" where
  "eval_create_enclave E X H img_path token_path =
     bnd (host_ask (\<lambda>h. init_ecall_at X h img_path token_path)) (\<lambda>created.
     bnd (lib created) (\<lambda>(status, garbage).
     if status \<noteq> SGX_SUCCESS then lib (check_ecall H status garbage)
     else in_enclave (eval_ecall_init E) (\<lambda>retval. lib (check_ecall H status retval))))"

definition eval_deliver ::
    "env \<Rightarrow> 'd eval_env \<Rightarrow> host_env \<Rightarrow> nat \<Rightarrow> bytes \<Rightarrow> ('z eval_attached_scheme, unit) prog" where
  "eval_deliver E X H r block_rlp =
     bnd (host_ask (\<lambda>h. ecall_recv_at H h r block_rlp)) (\<lambda>(status, garbage).
     if status \<noteq> SGX_SUCCESS then check_delivery H r block_rlp status garbage
     else in_enclave (eval_ecall_recv_block E X block_rlp) (check_delivery H r block_rlp status))"

definition set_receipt_rate_host ::
    "'d eval_env \<Rightarrow> host_env \<Rightarrow> 'd \<Rightarrow> ('z eval_attached_scheme, unit) prog" where
  "set_receipt_rate_host X H rate =
     bnd (host_ask (\<lambda>h. rate_ecall_at X h rate)) (\<lambda>(status, garbage).
     if status \<noteq> SGX_SUCCESS then lib (check_ecall H status garbage)
     else in_enclave (ecall_set_receipt_rate X rate) (\<lambda>retval. lib (check_ecall H status retval)))"

section \<open>The evaluation\<close>

definition eval_config_path :: "string list \<Rightarrow> string option" where
  "eval_config_path argv =
     (if length argv = 1 then Some ''../../../tests/geth-decent-throughput-eval/components_config.json''
      else if length argv = 2 then Some (argv ! 1)
      else None)"

definition read_geth_url :: "host_env \<Rightarrow> json \<Rightarrow> string res" where
  "read_geth_url E config =
     bind_res (of_lib (json_dict_at E config ''Geth'')) (\<lambda>geth.
     bind_res (json_string_at E geth ''Protocol'') (\<lambda>geth_proto.
     bind_res (json_string_at E geth ''Host'') (\<lambda>geth_host.
     bind_res (of_lib (json_dict_at E geth ''Port'')) (\<lambda>port_obj.
     bind_res (of_lib (json_as_u32 E port_obj)) (\<lambda>geth_port.
     Inr (geth_proto @ ''://'' @ geth_host @ '':'' @ dec_string (unat geth_port)))))))"

definition read_image_paths :: "host_env \<Rightarrow> json \<Rightarrow> (string \<times> string) res" where
  "read_image_paths E config =
     bind_res (of_lib (json_dict_at E config ''EnclaveImage'')) (\<lambda>img.
     bind_res (json_string_at E img ''ImagePath'') (\<lambda>img_path.
     bind_res (json_string_at E img ''TokenPath'') (\<lambda>token_path.
     Inr (img_path, token_path))))"

definition receipt_rates :: "'d eval_env \<Rightarrow> 'd list" where
  "receipt_rates X = map (rate_literal X) [0, 10, 20, 30, 40, 50, 60, 70, 80, 90, 100]"

definition eval_start_block :: u64 where
  "eval_start_block = 8875000"

definition eval_end_block :: u64 where
  "eval_end_block = 8880000"

lemma unat_below_Suc:
  fixes i end_num :: u64
  assumes "i < end_num"
  shows "unat (i + 1) = Suc (unat i)"
proof -
  have "unat end_num < 2 ^ LENGTH(64)" by (rule unsigned_less)
  moreover have "unat i < unat end_num" using assms by (simp add: word_less_nat_alt)
  ultimately show ?thesis by (simp add: unat_word_ariths)
qed

text \<open>\<open>for (auto i = start; i < end; ++i) hostBlkSvc->PushBlock(i);\<close> with \<^verbatim>\<open>uint64_t\<close> bounds.\<close>

function push_range :: "'z recv_block_fn \<Rightarrow> host_env \<Rightarrow> u64 \<Rightarrow> u64 \<Rightarrow> ('z host_svc_scheme, unit) prog" where
  "push_range recv H i end_num =
     (if i < end_num then bnd (push_block_num recv H i) (\<lambda>_. push_range recv H (i + 1) end_num) else ret ())"
  by pat_completeness auto
termination
  by (relation "measure (\<lambda>(recv, H, i, end_num). unat end_num - unat i)")
    (auto simp: unat_below_Suc word_less_nat_alt)

declare push_range.simps [simp del]

definition eval_round ::
    "env \<Rightarrow> 'd eval_env \<Rightarrow> host_env \<Rightarrow> 'd \<Rightarrow> ('z eval_attached_scheme, unit) prog" where
  "eval_round E X H rate =
     bnd (set_receipt_rate_host X H rate) (\<lambda>_.
     bnd (host_ask (time_now_at X)) (\<lambda>start_time.
     bnd (push_range (eval_deliver E X H) H eval_start_block eval_end_block) (\<lambda>_.
     bnd (host_ask (time_now_at X)) (\<lambda>end_time.
     let duration = end_time - start_time; num_blocks = eval_end_block - eval_start_block in
     host_note (Printed (eval_report X rate num_blocks duration))))))"

definition eval_main ::
    "env \<Rightarrow> 'd eval_env \<Rightarrow> host_env \<Rightarrow> nat \<Rightarrow> string list \<Rightarrow> ('z eval_attached_scheme, int) prog" where
  "eval_main E X H enclave_id argv =
     (case eval_config_path argv of
        None \<Rightarrow>
          bnd (host_note (HostLogged ''Unexpected number of arguments.'')) (\<lambda>_.
          bnd (host_note (HostLogged
            ''Only the path to the components configuration file is needed.'')) (\<lambda>_.
          ret (-1)))
      | Some path \<Rightarrow>
          bnd (host_setup H ''MbedTlsInit'') (\<lambda>_.
          bnd (host_ext (\<lambda>h. read_file_at H h path) (HostSetup path)) (\<lambda>config_text.
          bnd (lib (json_load H config_text)) (\<lambda>config.
          bnd (lift_res (read_geth_url H config)) (\<lambda>url.
          bnd (updates (\<lambda>w. w\<lparr>geth_url := url, block_receiver := None, curr_block_num := 0\<rparr>)) (\<lambda>_.
          bnd (lift_res (read_image_paths H config)) (\<lambda>(img_path, token_path).
          bnd (eval_create_enclave E X H img_path token_path) (\<lambda>_.
          bnd (bind_receiver enclave_id) (\<lambda>_.
          bnd (for_each (receipt_rates X) (eval_round E X H)) (\<lambda>_.
          bnd (set_receipt_rate_host X H (rate_literal X 0)) (\<lambda>_.
          ret 0)))))))))))"

text \<open>The one OCALL of the evaluation; it is the function of the main program.\<close>

definition eval_ocall_get_receipts ::
    "host_env \<Rightarrow> u64 \<Rightarrow> ('z host_svc_scheme, sgx_status \<times> bytes option) prog" where
  "eval_ocall_get_receipts E blk_num =
     ocall ''ocall_decent_ethereum_get_receipts''
       (bnd (get_receipts_rlp_of_block E blk_num) (\<lambda>receipts. lib (write_rlp E receipts)))"

section \<open>What the enclave counts\<close>

text \<open>The condition of the source on the last byte of the hash.\<close>

definition picks :: "byte \<Rightarrow> eth_header \<Rightarrow> bool" where
  "picks limit header \<longleftrightarrow> last (hdr_hash header) < limit \<or> limit = 255"

lemma card_bytes_below: "card {b :: byte. b < limit} = unat limit"
proof -
  have "unat limit < 2 ^ LENGTH(8)" by (rule unsigned_less)
  then have small: "unat (of_nat n :: byte) = n" if "n < unat limit" for n
    using that by (simp add: unat_of_nat take_bit_nat_eq_self)
  have "bij_betw unat {b :: byte. b < limit} {..<unat limit}"
    by (rule bij_betw_byWitness [where f' = of_nat]) (auto simp: word_less_nat_alt small)
  then show ?thesis by (simp add: bij_betw_same_card)
qed

text \<open>So many of the 256 values of the last byte are picked.\<close>

lemma card_picked: "card {b :: byte. b < limit \<or> limit = 255} = (if limit = 255 then 256 else unat limit)"
  using card_bytes_below [of limit] by (simp add: card_word)

lemma receipts_frame:
  assumes "get_receipts_rlp_by_num E n w = (r, u)"
  shows "u = w\<lparr>history := ReceiptsFetched n # history w\<rparr>" "\<not> is_undef r"
  using assms
  by (auto simp: get_receipts_rlp_by_num_def prog_run of_lib_def split: prod.splits sum.splits)

lemma push_range_stop: "\<not> i < end_num \<Longrightarrow> push_range recv H i end_num = ret ()"
  by (subst push_range.simps) simp

lemma push_range_go:
  "i < end_num \<Longrightarrow> push_range recv H i end_num = bnd (push_block_num recv H i) (\<lambda>_. push_range recv H (i + 1) end_num)"
  by (subst push_range.simps) simp

lemma eval_recv_picked:
  assumes "header_of X b = Inr header" "hdr_hash header \<noteq> []" "picks (receipt_limit w) header" "blk_svc_set w"
    and "get_receipts_rlp_by_num E (hdr_number header) w = (Inr rlp, u)" "as_list E rlp = Inr receipts"
    and "receipts_root_of X receipts = Inr (hdr_receipts_root header)"
  shows "eval_recv_block E X b w = (Inr (), u\<lparr>verified_receipts := verified_receipts u + 1\<rparr>)"
  using assms by (simp add: eval_recv_block_def picks_def)

lemma eval_recv_skipped:
  assumes "header_of X b = Inr header" "hdr_hash header \<noteq> []" "\<not> picks (receipt_limit w) header"
  shows "eval_recv_block E X b w = (Inr (), w)"
  using assms by (simp add: eval_recv_block_def picks_def)

section \<open>Pushing a range of blocks\<close>

text \<open>The circumstances of the evaluation: the node serves the header \<open>hdr k\<close> of every block \<open>k\<close> and the
receipts whose root is in it, and the calls between the two sides get through.\<close>

definition honest_node :: "env \<Rightarrow> 'd eval_env \<Rightarrow> host_env \<Rightarrow> (u64 \<Rightarrow> bytes) \<Rightarrow> (u64 \<Rightarrow> eth_header) \<Rightarrow> bool" where
  "honest_node E X H hdr info \<longleftrightarrow>
     (\<forall>url k (w :: eval_attached). \<exists>u. get_header_rlp_by_num H url k w = (Inr (hdr k), u)) \<and>
     (\<forall>k. header_of X (hdr k) = Inr (info k) \<and> hdr_hash (info k) \<noteq> []) \<and>
     (\<forall>k (v :: eval_process). \<exists>rlp receipts u.
        get_receipts_rlp_by_num E (hdr_number (info k)) v = (Inr rlp, u) \<and> as_list E rlp = Inr receipts \<and>
        receipts_root_of X receipts = Inr (hdr_receipts_root (info k)))"

definition calls_succeed :: "'d eval_env \<Rightarrow> host_env \<Rightarrow> nat \<Rightarrow> bool" where
  "calls_succeed X H r \<longleftrightarrow> check_ecall H SGX_SUCCESS SGX_SUCCESS = Inr () \<and>
     (\<forall>h. receiver_alive_at H h r) \<and> (\<forall>h b. ecall_recv_at H h r b = (SGX_SUCCESS, SGX_SUCCESS)) \<and>
     (\<forall>h rate. rate_ecall_at X h rate = (SGX_SUCCESS, SGX_SUCCESS))"

text \<open>\<open>advanced w n bs u\<close>: from \<open>w\<close> to \<open>u\<close> the headers \<open>bs\<close> were delivered and \<open>n\<close> receipts lists verified;
\<open>reported\<close> are the lines the enclave has logged, oldest first.\<close>

fun reported :: "history \<Rightarrow> string list" where
  "reported [] = []"
| "reported (Logged l name m # h) = reported h @ (if name = ''Enclave'' then [m] else [])"
| "reported (_ # h) = reported h"

definition advanced :: "eval_attached \<Rightarrow> nat \<Rightarrow> bytes list \<Rightarrow> eval_attached \<Rightarrow> bool" where
  "advanced w n bs u \<longleftrightarrow>
     verified_receipts (eval_enclave u) = verified_receipts (eval_enclave w) + of_nat n \<and>
     delivered (host_log u) = delivered (host_log w) @ bs \<and>
     reported (history (eval_enclave u)) = reported (history (eval_enclave w)) \<and>
     receipt_limit (eval_enclave u) = receipt_limit (eval_enclave w) \<and>
     blk_svc_set (eval_enclave u) = blk_svc_set (eval_enclave w) \<and> block_receiver u = block_receiver w"

lemma advanced_refl: "advanced w 0 [] w"
  by (simp add: advanced_def)

lemma advanced_trans: "advanced w n bs v \<Longrightarrow> advanced v m cs u \<Longrightarrow> advanced w (n + m) (bs @ cs) u"
  by (simp add: advanced_def)

lemma deliver_advances:
  assumes "honest_node E X H hdr info" "calls_succeed X H r" "blk_svc_set (eval_enclave w)"
  shows "\<exists>u. eval_deliver E X H r (hdr k) w = (Inr (), u) \<and>
    advanced w (if picks (receipt_limit (eval_enclave w)) (info k) then 1 else 0) [hdr k] u"
proof -
  obtain rlp receipts t where node: "header_of X (hdr k) = Inr (info k)" "hdr_hash (info k) \<noteq> []"
      "get_receipts_rlp_by_num E (hdr_number (info k)) (eval_enclave w) = (Inr rlp, t)"
      "as_list E rlp = Inr receipts" "receipts_root_of X receipts = Inr (hdr_receipts_root (info k))"
    using assms(1) unfolding honest_node_def by blast
  have "\<exists>t'. eval_recv_block E X (hdr k) (eval_enclave w) = (Inr (), t') \<and>
      verified_receipts t' = verified_receipts (eval_enclave w) +
        (if picks (receipt_limit (eval_enclave w)) (info k) then 1 else 0) \<and>
      reported (history t') = reported (history (eval_enclave w)) \<and>
      receipt_limit t' = receipt_limit (eval_enclave w) \<and> blk_svc_set t' = blk_svc_set (eval_enclave w)"
    using eval_recv_picked [OF node(1,2) _ assms(3) node(3-5)] eval_recv_skipped [OF node(1,2)]
      receipts_frame(1) [OF node(3)]
    by (cases "picks (receipt_limit (eval_enclave w)) (info k)") auto
  then obtain t' where recv: "eval_recv_block E X (hdr k) (eval_enclave w) = (Inr (), t')"
      "verified_receipts t' = verified_receipts (eval_enclave w) +
        (if picks (receipt_limit (eval_enclave w)) (info k) then 1 else 0)"
      "reported (history t') = reported (history (eval_enclave w))"
      "receipt_limit t' = receipt_limit (eval_enclave w)" "blk_svc_set t' = blk_svc_set (eval_enclave w)"
    by blast
  with assms(2) show ?thesis
    by (simp add: eval_deliver_def prog_run calls_succeed_def in_enclave_def eval_ecall_recv_block_def
        ecall_def advanced_def)
qed

lemma push_advances:
  assumes "honest_node E X H hdr info" "calls_succeed X H r" "blk_svc_set (eval_enclave w)"
    and "block_receiver w = Some r"
  shows "\<exists>u. push_block_num (eval_deliver E X H) H k w = (Inr (), u) \<and>
    advanced w (if picks (receipt_limit (eval_enclave w)) (info k) then 1 else 0) [hdr k] u"
proof -
  obtain v where header: "get_header_rlp_by_num H (geth_url w) k w = (Inr (hdr k), v)"
    using assms(1) unfolding honest_node_def by blast
  note posts = guarD [OF only_posts_requests(4) header]
  have v: "eval_enclave v = eval_enclave w" "block_receiver v = Some r" "delivered (host_log v) = delivered (host_log w)"
    using posts post_only_fields [OF posts] assms(4) by (auto simp: only_posts_def)
  with assms(3) have "blk_svc_set (eval_enclave v)" by simp
  from deliver_advances [OF assms(1,2) this] obtain u where
      u: "eval_deliver E X H r (hdr k) v = (Inr (), u)"
        "advanced v (if picks (receipt_limit (eval_enclave v)) (info k) then 1 else 0) [hdr k] u" by blast
  have "receiver_alive_at H h r" for h using assms(2) by (simp add: calls_succeed_def)
  with header u v have "push_block_num (eval_deliver E X H) H k w = (Inr (), u)"
    by (simp add: push_block_num_def push_block_rlp_def lock_receiver_def prog_run)
  moreover have "advanced w (if picks (receipt_limit (eval_enclave w)) (info k) then 1 else 0) [hdr k] u"
    using u(2) v assms(4) by (simp add: advanced_def)
  ultimately show ?thesis by blast
qed

definition picked_in :: "byte \<Rightarrow> (u64 \<Rightarrow> eth_header) \<Rightarrow> nat list \<Rightarrow> nat" where
  "picked_in limit info ks = length (filter (\<lambda>k. picks limit (info (of_nat k))) ks)"

lemma range_advances:
  assumes "honest_node E X H hdr info" "calls_succeed X H r" "blk_svc_set (eval_enclave w)"
    and "block_receiver w = Some r" "unat end_num = unat i + n"
  shows "\<exists>u. push_range (eval_deliver E X H) H i end_num w = (Inr (), u) \<and>
    advanced w (picked_in (receipt_limit (eval_enclave w)) info [unat i..<unat end_num])
      (map (\<lambda>k. hdr (of_nat k)) [unat i..<unat end_num]) u"
  using assms(3-5)
proof (induction n arbitrary: i w)
  case 0
  then show ?case
    by (simp add: push_range_stop word_less_nat_alt advanced_refl picked_in_def)
next
  case (Suc n)
  then have less: "i < end_num" by (simp add: word_less_nat_alt)
  from push_advances [OF assms(1,2) Suc.prems(1,2)] obtain v where
      v: "push_block_num (eval_deliver E X H) H i w = (Inr (), v)"
        "advanced w (if picks (receipt_limit (eval_enclave w)) (info i) then 1 else 0) [hdr i] v" by blast
  have next_num: "unat (i + 1) = Suc (unat i)" using less by (rule unat_below_Suc)
  have "blk_svc_set (eval_enclave v)" "block_receiver v = Some r" "unat end_num = unat (i + 1) + n"
    using v(2) Suc.prems next_num by (simp_all add: advanced_def)
  from Suc.IH [OF this] obtain u where
      u: "push_range (eval_deliver E X H) H (i + 1) end_num v = (Inr (), u)"
        "advanced v (picked_in (receipt_limit (eval_enclave v)) info [unat (i + 1)..<unat end_num])
          (map (\<lambda>k. hdr (of_nat k)) [unat (i + 1)..<unat end_num]) u" by blast
  have "[unat i..<unat end_num] = unat i # [unat (i + 1)..<unat end_num]"
    using less next_num by (simp add: upt_conv_Cons word_less_nat_alt)
  moreover have "receipt_limit (eval_enclave v) = receipt_limit (eval_enclave w)"
    using v(2) by (simp add: advanced_def)
  ultimately show ?case
    using less v u advanced_trans [OF v(2) u(2)] by (auto simp: push_range_go picked_in_def)
qed

text \<open>One round: the rate is set, which logs and resets the count of the round before, and the range is
pushed.\<close>

abbreviation eval_range :: "nat list" where
  "eval_range \<equiv> [unat eval_start_block..<unat eval_end_block]"

definition verified_line :: "u64 \<Rightarrow> string" where
  "verified_line n = ''Previously verified receipts: '' @ to_string n"

lemma set_rate_run:
  assumes "calls_succeed X H r"
  shows "set_receipt_rate_host X H rate w =
    (Inr (), w\<lparr>eval_enclave := (eval_enclave w)\<lparr>receipt_limit := rate_limit X rate, verified_receipts := 0,
       history := Logged Info ''Enclave'' (verified_line (verified_receipts (eval_enclave w))) #
         history (eval_enclave w)\<rparr>\<rparr>)"
  using assms
  by (simp add: set_receipt_rate_host_def in_enclave_def ecall_set_receipt_rate_def ecall_def
      set_receipt_rate_def prog_run calls_succeed_def verified_line_def)

lemma round_counts:
  fixes w :: eval_attached
  assumes "honest_node E X H hdr info" "calls_succeed X H r" "blk_svc_set (eval_enclave w)"
    and "block_receiver w = Some r"
  shows "\<exists>u. eval_round E X H rate w = (Inr (), u) \<and>
    verified_receipts (eval_enclave u) = of_nat (picked_in (rate_limit X rate) info eval_range) \<and>
    delivered (host_log u) = delivered (host_log w) @ map (\<lambda>k. hdr (of_nat k)) eval_range \<and>
    reported (history (eval_enclave u)) =
      reported (history (eval_enclave w)) @ [verified_line (verified_receipts (eval_enclave w))] \<and>
    blk_svc_set (eval_enclave u) \<and> block_receiver u = Some r"
proof -
  note set = set_rate_run [OF assms(2), of rate w]
  obtain v where v: "set_receipt_rate_host X H rate w = (Inr (), v)"
      "verified_receipts (eval_enclave v) = 0" "receipt_limit (eval_enclave v) = rate_limit X rate"
      "blk_svc_set (eval_enclave v)" "block_receiver v = Some r" "delivered (host_log v) = delivered (host_log w)"
      "reported (history (eval_enclave v)) =
        reported (history (eval_enclave w)) @ [verified_line (verified_receipts (eval_enclave w))]"
    using set assms(3,4) by simp
  have "unat eval_end_block = unat eval_start_block + 5000"
    by (simp add: eval_end_block_def eval_start_block_def)
  from range_advances [OF assms(1,2) v(4,5) this] obtain u where
      u: "push_range (eval_deliver E X H) H eval_start_block eval_end_block v = (Inr (), u)"
        "advanced v (picked_in (receipt_limit (eval_enclave v)) info eval_range)
          (map (\<lambda>k. hdr (of_nat k)) eval_range) u" by blast
  then show ?thesis
    using v by (simp add: eval_round_def prog_run Let_def advanced_def)
qed

lemma rounds_count:
  fixes w :: eval_attached
  assumes "honest_node E X H hdr info" "calls_succeed X H r" "blk_svc_set (eval_enclave w)"
    and "block_receiver w = Some r"
  shows "\<exists>u. bnd (for_each rates (eval_round E X H)) (\<lambda>_. set_receipt_rate_host X H last_rate) w = (Inr (), u) \<and>
    delivered (host_log u) =
      delivered (host_log w) @ concat (map (\<lambda>rate. map (\<lambda>k. hdr (of_nat k)) eval_range) rates) \<and>
    reported (history (eval_enclave u)) = reported (history (eval_enclave w)) @
      map verified_line (verified_receipts (eval_enclave w) #
        map (\<lambda>rate. of_nat (picked_in (rate_limit X rate) info eval_range)) rates)"
  using assms(3,4)
proof (induction rates arbitrary: w)
  case Nil
  then show ?case by (simp add: set_rate_run [OF assms(2)])
next
  case (Cons rate rates)
  from round_counts [OF assms(1,2) Cons.prems] obtain v where
      v: "eval_round E X H rate w = (Inr (), v)"
        "verified_receipts (eval_enclave v) = of_nat (picked_in (rate_limit X rate) info eval_range)"
        "delivered (host_log v) = delivered (host_log w) @ map (\<lambda>k. hdr (of_nat k)) eval_range"
        "reported (history (eval_enclave v)) =
          reported (history (eval_enclave w)) @ [verified_line (verified_receipts (eval_enclave w))]"
        "blk_svc_set (eval_enclave v)" "block_receiver v = Some r" by blast
  from Cons.IH [OF v(5,6)] v show ?case by (auto simp: bnd_assoc)
qed

section \<open>A concrete evaluation\<close>

text \<open>A node whose header of every block is \<open>[1]\<close>, with a hash that ends in the byte 7, and a
configuration file.\<close>

definition example_eval_host :: host_env where
  "example_eval_host = example_host_env\<lparr>json_load :=
     \<lambda>s. Inr (if s = ''reply'' then JDict [''result'' \<mapsto> JString ''0x01''] else example_config)\<rparr>"

definition example_eval_env :: "nat eval_env" where
  "example_eval_env =
     \<lparr>header_of = (\<lambda>b. Inr \<lparr>hdr_hash = [3, 7], hdr_number = 5, hdr_receipts_root = [4]\<rparr>),
      receipts_root_of = (\<lambda>rs. Inr [4]), rate_limit = (\<lambda>p. of_nat (255 * p div 100)), rate_literal = id,
      rate_ecall_at = (\<lambda>h p. (SGX_SUCCESS, SGX_SUCCESS)), init_ecall_at = (\<lambda>h i t. Inr (SGX_SUCCESS, SGX_SUCCESS)),
      time_now_at = (\<lambda>h. of_nat (length h)), eval_report = (\<lambda>p n d. ''report'')\<rparr>"

definition example_eval_process :: eval_process where
  "example_eval_process = \<lparr>held = {}, evqs = [], recqs = [], history = [], receipt_limit = 0,
     verified_receipts = 0, blk_svc_set = False\<rparr>"

definition example_eval :: eval_attached where
  "example_eval = \<lparr>host_log = [], geth_url = [], block_receiver = None, curr_block_num = 0,
     eval_enclave = example_eval_process\<rparr>"

lemma example_eval_header:
  "get_header_rlp_by_num example_eval_host url k w = (Inr [1], w\<lparr>host_log := Posted url ''json'' # host_log w\<rparr>)"
  by (simp add: example_eval_host_def get_header_rlp_by_num_def get_header_rlp_by_param_def geth_call_def
      build_request_body_def post_request_def prog_run proc_resp_single_bytes_def resp_result_def
      decode_hex_str_def convert_blk_num_to_hex_def content_callback_def)

lemma example_honest: "honest_node example_env example_eval_env example_eval_host (\<lambda>k. [1])
    (\<lambda>k. \<lparr>hdr_hash = [3, 7], hdr_number = 5, hdr_receipts_root = [4]\<rparr>)"
  by (simp add: honest_node_def example_eval_header example_eval_env_def get_receipts_rlp_by_num_def prog_run)

lemma example_calls: "calls_succeed example_eval_env example_eval_host 4"
  by (simp add: calls_succeed_def example_eval_env_def example_eval_host_def)

section \<open>Properties\<close>

text \<open>C40: a block of the evaluation: its receipts are fetched exactly when the last byte of its hash is below the
limit or the limit is 255. So the number of the 256 values of that byte that are picked is the limit, except
that at the limit 255 all of them are, also the value 255. The block is accepted, and counted, exactly when the
receipts arrive and their root is the one in the header; a block that is not picked is accepted unread. A failure
leaves the count alone.\<close>

theorem eval_block_checked:
  assumes "header_of X b = Inr header" "hdr_hash header \<noteq> []" "blk_svc_set w" "eval_recv_block E X b w = (r, u)"
  shows "\<not> is_undef r \<and>
    (if picks (receipt_limit w) header then
       history u = ReceiptsFetched (hdr_number header) # history w \<and>
       (r = Inr () \<longleftrightarrow> (\<exists>rlp receipts. fst (get_receipts_rlp_by_num E (hdr_number header) w) = Inr rlp \<and>
          as_list E rlp = Inr receipts \<and> receipts_root_of X receipts = Inr (hdr_receipts_root header))) \<and>
       verified_receipts u = verified_receipts w + (if r = Inr () then 1 else 0)
     else r = Inr () \<and> u = w) \<and>
    card {c. picks (receipt_limit w) (header\<lparr>hdr_hash := [c]\<rparr>)} =
      (if receipt_limit w = 255 then 256 else unat (receipt_limit w))"
proof -
  obtain q v where fetch: "get_receipts_rlp_by_num E (hdr_number header) w = (q, v)" by fastforce
  note v = receipts_frame [OF fetch]
  have "card {c. picks (receipt_limit w) (header\<lparr>hdr_hash := [c]\<rparr>)} =
      (if receipt_limit w = 255 then 256 else unat (receipt_limit w))"
    using card_picked [of "receipt_limit w"] by (simp add: picks_def)
  moreover have "eval_recv_block E X b w = (Inr (), w)" if "\<not> picks (receipt_limit w) header"
    using assms(1,2) that by (rule eval_recv_skipped)
  ultimately show ?thesis
    using assms fetch v
    by (auto simp: eval_recv_block_def picks_def bnd_run of_lib_def is_undef_Inl split: sum.splits if_splits)
qed

theorem eval_block_checked_witness:
  "verified_receipts (snd (eval_recv_block example_env example_eval_env [1]
     (example_eval_process\<lparr>receipt_limit := 25, blk_svc_set := True\<rparr>))) = 1"
proof -
  let ?w = "example_eval_process\<lparr>receipt_limit := 25, blk_svc_set := True\<rparr>"
  obtain r u where run: "eval_recv_block example_env example_eval_env [1] ?w = (r, u)" by fastforce
  have header: "header_of example_eval_env [1] = Inr \<lparr>hdr_hash = [3, 7], hdr_number = 5, hdr_receipts_root = [4]\<rparr>"
    by (simp add: example_eval_env_def)
  from eval_block_checked [OF header _ _ run] have "verified_receipts u = 1"
    by (simp add: picks_def get_receipts_rlp_by_num_def prog_run example_eval_env_def example_eval_process_def)
  with run show ?thesis by simp
qed

text \<open>C39: the evaluation measures what it prints: when the node is honest and the calls get through,
\<open>main\<close> ends with 0, every one of the eleven rounds has pushed the headers of the blocks from
\<open>eval_start_block\<close> up to but not including \<open>eval_end_block\<close>, once each and in order, and the enclave has
logged after each round exactly how many of these blocks the rate picks.\<close>

theorem evaluation_measures:
  fixes w :: eval_attached
  assumes "honest_node E X H hdr info" "calls_succeed X H enclave_id"
    and "eval_config_path argv = Some path" "\<And>h. host_setup_at H h ''MbedTlsInit'' = Inr ()"
    and "\<And>h. read_file_at H h path = Inr config_text" "json_load H config_text = Inr config"
    and "read_geth_url H config = Inr url" "read_image_paths H config = Inr (img, tok)"
    and "\<And>h. init_ecall_at X h img tok = Inr (SGX_SUCCESS, SGX_SUCCESS)"
    and "eval_init E (eval_enclave w) = (Inr (), v)"
  shows "\<exists>u. eval_main E X H enclave_id argv w = (Inr 0, u) \<and>
    delivered (host_log u) = delivered (host_log w) @
      concat (map (\<lambda>rate. map (\<lambda>k. hdr (of_nat k)) eval_range) (receipt_rates X)) \<and>
    reported (history (eval_enclave u)) = reported (history v) @
      map verified_line (verified_receipts v #
        map (\<lambda>rate. of_nat (picked_in (rate_limit X rate) info eval_range)) (receipt_rates X))"
proof -
  let ?w = "w\<lparr>host_log := HostSetup path # HostSetup ''MbedTlsInit'' # host_log w, geth_url := url,
      curr_block_num := 0, eval_enclave := v, block_receiver := Some enclave_id\<rparr>"
  have "blk_svc_set v" using assms(10) by (auto simp: eval_init_def elim!: bnd_cases)
  then obtain u where u: "bnd (for_each (receipt_rates X) (eval_round E X H))
        (\<lambda>_. set_receipt_rate_host X H (rate_literal X 0)) ?w = (Inr (), u)"
      "delivered (host_log u) = delivered (host_log ?w) @
        concat (map (\<lambda>rate. map (\<lambda>k. hdr (of_nat k)) eval_range) (receipt_rates X))"
      "reported (history (eval_enclave u)) = reported (history (eval_enclave ?w)) @
        map verified_line (verified_receipts (eval_enclave ?w) #
          map (\<lambda>rate. of_nat (picked_in (rate_limit X rate) info eval_range)) (receipt_rates X))"
    using rounds_count [OF assms(1,2), of ?w] by auto
  have "check_ecall H SGX_SUCCESS SGX_SUCCESS = Inr ()" using assms(2) by (simp add: calls_succeed_def)
  then have "eval_main E X H enclave_id argv w = bnd (bnd (for_each (receipt_rates X) (eval_round E X H))
      (\<lambda>_. set_receipt_rate_host X H (rate_literal X 0))) (\<lambda>_. ret 0) ?w"
    using assms(3-10)
    by (simp add: eval_main_def prog_run host_setup_def eval_create_enclave_def in_enclave_def
        eval_ecall_init_def ecall_def bind_receiver_def bnd_assoc)
  with u show ?thesis by simp
qed

theorem evaluation_measures_witness:
  "\<exists>u. eval_main example_env example_eval_env example_eval_host 4 [''app''] example_eval = (Inr 0, u) \<and>
    length (delivered (host_log u)) = 11 * 5000"
proof -
  obtain v where init: "eval_init example_env (eval_enclave example_eval) = (Inr (), v)"
    by (simp add: eval_init_def eval_global_initialization_def eval_print_my_info_def setup_step_def
        read_info_def prog_run)
  have url: "\<exists>url. read_geth_url example_eval_host example_config = Inr url"
    by (simp add: read_geth_url_def example_eval_host_def example_config_def json_string_at_def)
  have paths: "\<exists>img tok. read_image_paths example_eval_host example_config = Inr (img, tok)"
    by (simp add: read_image_paths_def example_eval_host_def example_config_def json_string_at_def)
  from url paths obtain url img tok where cfg: "read_geth_url example_eval_host example_config = Inr url"
      "read_image_paths example_eval_host example_config = Inr (img, tok)" by blast
  have env: "eval_config_path [''app''] = Some ''../../../tests/geth-decent-throughput-eval/components_config.json''"
    "\<And>h. host_setup_at example_eval_host h ''MbedTlsInit'' = Inr ()"
    "\<And>h. read_file_at example_eval_host h p = Inr ''json''" "json_load example_eval_host ''json'' = Inr example_config"
    "\<And>h. init_ecall_at example_eval_env h img tok = Inr (SGX_SUCCESS, SGX_SUCCESS)" for p
    by (simp_all add: eval_config_path_def example_eval_host_def example_eval_env_def)
  from evaluation_measures [OF example_honest example_calls env(1-4) cfg env(5) init]
  obtain u where "eval_main example_env example_eval_env example_eval_host 4 [''app''] example_eval = (Inr 0, u)"
      "delivered (host_log u) = delivered (host_log example_eval) @
        concat (map (\<lambda>rate. map (\<lambda>k. [1]) eval_range) (receipt_rates example_eval_env))" by blast
  then show ?thesis
    by (simp add: example_eval_def receipt_rates_def eval_start_block_def eval_end_block_def del: upt_rec_numeral upt_Suc)
qed

end
