(* ===== verification/Spec2Isabelle.thy ===== *)
theory Spec2Isabelle
  imports SystemSafety HeartbeatRace SubscriberStream LockOrder Registrations InitEcall OcallLink MainProgram EnclaveKeys ThroughputEval
begin

text \<open>
  DecentEthereum is an Ethereum event service in an SGX enclave. The untrusted host process polls a
  Geth node over JSON-RPC and pushes block headers into the enclave; the enclave runs an eclipse
  attack monitor over the headers (a library, EclipseMonitor), which validates them, fetches the
  receipts of a block from the host when its bloom filter asks for them, and calls back the listeners
  of the contracts that emitted log entries. On top of that the enclave offers three services to its
  clients: subscriptions to a publisher's events through an on-chain publish-subscribe contract,
  subscriptions to the receipts of any contract, and the sending of raw transactions. Events are queued
  per subscription by the block thread and sent by the heartbeat thread.

  \<^bold>\<open>Where the code is\<close> (paths below src/; Trusted/ and Untrusted/ are include/DecentEthereum/Trusted/
  and include/DecentEthereum/Untrusted/).

    \<^item> \<open>Prelude\<close>: byte and word types, exceptions and undefined behaviour as values (\<open>fault\<close>, \<open>misuse\<close>), the state
      and exception monad of methods (\<open>prog\<close>), \<open>for_each\<close>, \<open>map_res\<close>, and the locale \<open>frame_relation\<close> of
      relations that methods respect.
    \<^item> \<open>Runtime\<close>: the data of the enclave, the record \<open>env\<close> of library and host calls, the \<open>history\<close> of
      calls made, mutexes (\<open>with_lock\<close>), and the locale \<open>rt_frame\<close>.
    \<^item> \<open>SharedQueues\<close>: \<^verbatim>\<open>ThreadedEventQueue\<close>, \<^verbatim>\<open>ThreadedReceiptQueue\<close>; the locales \<open>mailbox\<close> (one writer
      appends, one reader takes everything) and \<open>queue_emitter\<close> (a reader that sends what it takes).
    \<^item> \<open>SubscriberService\<close>: \<^verbatim>\<open>SubscriberService\<close> and its \<^verbatim>\<open>PubsubServiceStore\<close>
      (Trusted/Pubsub/SubscriberService.hpp).
    \<^item> \<open>TrustedHostBlockService\<close>: the OCALLs of the enclave (Trusted/HostBlockService.hpp).
    \<^item> \<open>BlockchainMgr\<close>: \<^verbatim>\<open>BlockchainMgr\<close> (Trusted/BlockchainMgr.hpp), and what the monitor and the
      \<^verbatim>\<open>EventManager\<close> may do with the closures they are given (\<open>runs_callbacks\<close>, \<open>runs_listeners\<close>).
    \<^item> \<open>SubscriberHandler\<close>, \<open>ReceiptSubscriber\<close>, \<open>Transaction\<close>: the three services
      (Trusted/Pubsub/SubscriberHandler.hpp, Trusted/ReceiptSubscriber.hpp, Trusted/Transaction.hpp).
    \<^item> \<open>EnclaveMain\<close>: initialisation, message handlers, ECALLs (src/Trusted/Enclave.cpp); \<open>EnclaveKeys\<close>:
      key generation (src/Trusted/Keys.hpp).
    \<^item> \<open>CriticalSections\<close>: the methods of the enclave cut where another thread may run; \<open>PubsubSystem\<close>: the
      enclave as a system of threads that interleave there, and its invariant; \<open>ConcreteRun\<close>: one run of
      it, for the witnesses; \<open>SystemSafety\<close>, \<open>StepFrames\<close>, \<open>Delivery\<close>: what holds along every run;
      \<open>SubscriberStream\<close>: the messages of one subscription along a run;
      \<open>InitEcall\<close>: the initialisation through the ECALL.
    \<^item> \<open>TaskParts\<close>: the parts of a thread, what they look at and what they wait for; \<open>Exclusion\<close>: the system under
      the mutex of the monitor, with the locking of \<^verbatim>\<open>AppendBlock\<close>; \<open>Registrations\<close>, \<open>HeartbeatRace\<close>:
      what holds of its runs, and one thing that can go wrong; \<open>LockOrder\<close>: nested critical sections; \<open>HandlerSteps\<close>, \<open>BlockProcessing\<close>: whole
      handlers and whole blocks as runs, with the locales \<open>task_runs\<close>, \<open>callback_runs\<close>, \<open>block_thread\<close> of the
      step relations that allow them.
    \<^item> \<open>PubsubSpec\<close>: the abstract event service (\<open>spec\<close>, \<open>spec_next\<close>), with no counterpart in the code.
    \<^item> \<open>HostRuntime\<close>, \<open>GethRequester\<close>, \<open>HostBlockService\<close>, \<open>HostTasks\<close>: the outside of the host, the JSON-RPC
      client, the block service with its locale \<open>block_receiver_contract\<close>, and the two periodic tasks
      with \<^verbatim>\<open>DecentEthereumEnclave\<close> as the receiver (Untrusted/GethRequester.hpp,
      Untrusted/HostBlockService.hpp, Untrusted/HostBlockServiceTasks.hpp,
      src/Untrusted/DecentEthereumEnclave.hpp).
    \<^item> \<open>HostMain\<close>, \<open>SignalLoop\<close>, \<open>MainProgram\<close>: the host's \<^verbatim>\<open>main\<close> and the OCALL functions
      (src/Untrusted/Main.cpp, src/Untrusted/RunUntilSignal.hpp).
    \<^item> \<open>HostAndEnclave\<close>: the host's block loop over the model of the enclave; \<open>OcallLink\<close>: the calls of the
      enclave back into the host over the model of the host.
    \<^item> \<open>ThroughputEval\<close>: the evaluation program under src/tests/geth-decent-throughput-eval, its enclave and
      its host side.

  Definitions keep the names of the source in lower case with underscores; where a name exists on both
  sides of the enclave boundary the host's carries a suffix (\<open>get_latest_block_num_host\<close>).

  \<^bold>\<open>How the model is made.\<close> A method is a function from the state to a result and the state it leaves,
  also when it throws. Libraries are not in the repository and are never defined here: each call is a
  field of \<open>env\<close> (enclave), \<open>host_env\<close> (host) or \<open>key_env\<close> (key generation), and a call whose answer may
  vary is given the whole history of calls made, so that a theorem for every \<open>env\<close> is a theorem for
  every behaviour of the network, the host, the blockchain and the monitor. The history is also the
  observable output: registrations, cancellations, messages, log lines in order. A theorem that needs
  more says so by a named hypothesis: \<open>abi_word_sized\<close> (an ABI word has 32 bytes), \<open>listen_fresh\<close>
  (listener identifiers are not reused while in use), \<open>checks_sgx\<close>, \<open>checks_ecall\<close>, \<open>checks_runtime\<close> (the
  status macros throw on any status but success), \<open>runs_callbacks\<close> and \<open>runs_listeners\<close> (the monitor
  touches this process only through the closures it was given and its own steps), \<open>rlp_agrees\<close> (the parser of
  the enclave reads back what the writer of the host has written), \<open>sends_well\<close> (writing and sending messages on a connection
  does not fail), \<open>owned\<close> (a connection serves one subscription, one heartbeat after another). Each holds of the
  concrete \<open>example_env\<close>, \<open>example_host_env\<close> and \<open>example_key_env\<close>, on which the witnesses run, the last
  one of \<open>example_reader\<close> and \<open>example_node\<close>.
  Integers are words of their width; a block number wraps around as \<^verbatim>\<open>uint64_t\<close> does. A shared pointer
  is an index into a heap of queues. A mutex locked twice by one thread, a dangling queue, a copy past
  the end of an array and a null manager are undefined behaviour (\<open>Undef\<close>), which no handler catches; a double
  lock (\<open>LockedTwice\<close>) keeps the mutex and those that the thread has at that moment, which is how waiting for a
  mutex of another thread is stated too (\<open>waits_for\<close>, \<open>blocked\<close>).
  A \<^verbatim>\<open>ReceiptsMgr\<close> is the list it is made from, unless its constructor throws (\<open>receipts_mgr\<close>). The members of the
  manager are fields of the state; when its constructor throws they are as before (\<open>or_as_before\<close>).
  A handler that dereferences \<^verbatim>\<open>g_blockchainMgr\<close> is checked for null when it is entered, which is
  earlier than the code does it.
  C++ leaves the order of the arguments of \<^verbatim>\<open>BuildEmittedMsg\<close> open: the handlers as functions evaluate
  them from left to right, the threads of the system in every order, and \<open>handlers_are_threads\<close> shows that
  the order makes no difference to a handler that is not interrupted.

  \<^bold>\<open>Threads.\<close> \<open>sys_step\<close> is the work of one thread between two points where another may run: one critical
  section, one call of the event manager, the heartbeat manager or a socket, one callback, one host call
  or one log line, with what the thread computes from its own variables in between. What a thread has still
  to do is a \<open>task\<close>: a heartbeat that has taken its queue and has read some of its arguments (\<open>BRead\<close>), a request
  that has found its manager (\<open>RListen\<close>), is copying the state for its reply (\<open>RRead\<close>) or hands over its socket
  (\<open>RAttach\<close>), a registration event between its two maps (\<open>GStore\<close>) or before it listens (\<open>GListen\<close>).
  \<open>reachable\<close> is any interleaving of the steps of any number of tasks after a successful initialisation.
  Nobody waits for a mutex there, so that the system has more interleavings than the code: what holds of all
  its runs holds of those of the code. \<open>excl_step\<close> is the system in which the block thread locks \<^verbatim>\<open>MonitorMutex\<close>
  at the beginning of a block and unlocks it at its end, and a thread that wants the mutex in between has to
  wait; it is the only mutex that is held over several steps, since it is
  the only one with critical sections of other mutexes inside (\<open>LockOrder\<close>). Its runs are among those of \<open>sys_step\<close>, and
  what is said of what cannot be seen between two blocks, and of what can happen all the same, is said of
  them. The block thread is one thread: it goes on when the registration event it has
  begun is done (\<open>idle\<close>). Three things are still one step: a part of a heartbeat that fails and the
  Cancel of its listener, the Cancel and the Listen of the deployment callback, and the look-up of a store
  of past events, which never changes, with the append to it. The data race between
  \<^verbatim>\<open>GetPastEvents\<close> and \<^verbatim>\<open>NotifyPastEventHandler\<close>, which use different mutexes, is outside a model of atomic
  sections; \<open>past_events_copied_unlocked\<close> shows that no mutex excludes it.

  \<^bold>\<open>What is shown.\<close>
    \<^item> The invariant \<open>sys_inv\<close> of reachable states (\<open>PubsubSystem\<close>): every listener, emitter and request in
      progress refers to a queue that exists, a subscription's queue is no store of past events, two
      managers share no store, nothing is registered before the contract's deployment. From it: no step
      has undefined behaviour, the store of past events is always found, the order of a service's states.
    \<^item> Frames (\<open>StepFrames\<close>, a locale with two interpretations): the manager stays set, addresses keep
      their 20 bytes.
    \<^item> Accounting (\<open>Delivery\<close>): past events only grow, by what was delivered; where duplicates come from. It is
      followed into the messages in \<open>SubscriberStream\<close>: the reply and the heartbeats carry every event at least
      once and in order, whatever the interleaving, and twice those that come while the reply is made.
    \<^item> Mutexes: the methods of the code wait with the mutexes they started with, those of a block with that of the
      monitor besides, so that no threads wait for each other in a cycle (\<open>LockOrder\<close>). Under the mutex of the
      monitor a registered manager has its store of past events, but for the moment between two
      critical sections of a block (\<open>Registrations\<close>); and yet a heartbeat can announce a block without its event,
      because the block is processed as a whole between two critical sections of the heartbeat (\<open>HeartbeatRace\<close>).
    \<^item> Streams (\<open>queue_emitter\<close>): every heartbeat sends exactly what was queued since the one before (\<open>batches\<close>), and
      a failing beat cancels its listener.
    \<^item> Refinement of a specification (\<open>PubsubSpec\<close>): every step is the guarded action its label names of an
      abstract service that knows managers, published events and waiting events only, and the public
      methods answer what its state says. So subscribers cannot influence what the service answers.
    \<^item> Handlers and their parts (\<open>HandlerSteps\<close>): the handlers of the code are their critical sections one
      after another, for every order of the arguments, and are runs of the system under the mutex.
    \<^item> Refinement by steps (\<open>BlockProcessing\<close>): processing one block, whatever the libraries do, is a run of the
      block thread between the lock and the unlock of the mutex, with which the monitor is called. \<open>HostAndEnclave\<close> composes it with the host's loop: the enclave processes the headers
      of consecutive block numbers, once each and in order. \<open>OcallLink\<close> closes the other direction: the receipts
      the enclave checks are those of the node's reply, and its transactions reach the node as they are.
    \<^item> The host: progress of the block loop, the checks on Geth's replies, the tick interval, the wait
      for a receipt, the answers of the OCALLs, the exit codes of the program.
    \<^item> The evaluation: a run pushes the range of blocks once per rate and logs the number of blocks picked.
    \<^item> Functional behaviour of every handler and request on its branches, errors included.

  \<^bold>\<open>Loops.\<close> Loops over lists are structural. The two loops without a bound, the wait for a transaction
  receipt and the main loop, are \<open>partial_function (option)\<close>: \<open>None\<close> is not returning, and
  \<open>wait_ends_at_first_reply\<close> and \<open>main_exit_codes\<close> are equivalences that say when they return. The
  evaluation's loop over block numbers, \<open>push_range\<close>, ends because its counter does not wrap below its end. The tasks
  that run for ever are modelled by one tick; \<open>push_attempts\<close> iterates any number of them.

  \<^bold>\<open>Not modelled.\<close> The libraries; the code the SGX edge generator makes from src/Trusted/Enclave.edl; the
  certificate macros of src/Trusted/Certs.hpp, which have no body; \<^verbatim>\<open>RandomGenerator\<close> and \<^verbatim>\<open>Timestamper\<close>,
  which forward one call to the platform for the monitor; floating point (the rate printed by the status
  task is \<open>show_rate\<close>, the limit the evaluation computes from a rate \<open>rate_limit\<close>); the evaluation of Geth
  in Go, the plots and the build files.
\<close>

end
